(* ===== verification/Go_Prelude.thy ===== *)
theory Go_Prelude
  imports Main "HOL-Library.Word"
begin

text \<open>
  Shared vocabulary of the development: the Go values every component uses.
  Machine integers are \<open>int\<close> with the two's complement wrap-around of \<open>int64\<close>
  written out by \<open>wrap64\<close> (Go's \<open>int\<close> is 64 bits wide on the platforms the
  services are built for), a duration is a number of nanoseconds, a Go string is a list of
  bytes, an \<open>error\<close> is a value of \<open>goerror\<close>, and the result of a call is
  \<open>'a go\<close>: a value, an error, or a run-time panic.
\<close>

named_theorems go_defs \<open>definitions that unfold Go-level plumbing\<close>
named_theorems cfg_defs \<open>the checks of the configuration validator\<close>

section \<open>Integers and durations\<close>

type_synonym int64 = int
type_synonym duration = int

text \<open>Two's complement reduction to 64 bits: what every Go \<open>int64\<close> operation does to its result.\<close>

definition wrap64 :: "int \<Rightarrow> int64" where
  "wrap64 x = (x + 2 ^ 63) mod 2 ^ 64 - 2 ^ 63"

definition in64 :: "int \<Rightarrow> bool" where
  "in64 x \<longleftrightarrow> - (2 ^ 63) \<le> x \<and> x < 2 ^ 63"

definition maxInt64 :: int64 where
  "maxInt64 = 2 ^ 63 - 1"

lemma wrap64_id [simp]: "in64 x \<Longrightarrow> wrap64 x = x"
  by (simp add: wrap64_def in64_def)

lemma in64_wrap64 [simp, intro]: "in64 (wrap64 x)"
proof -
  have "0 \<le> (x + 2 ^ 63) mod 2 ^ 64" "(x + 2 ^ 63) mod 2 ^ 64 < (2 ^ 64 :: int)"
    by simp_all
  then show ?thesis by (simp add: wrap64_def in64_def)
qed

lemma wrap64_idem [simp]: "wrap64 (wrap64 x) = wrap64 x"
  by simp

lemma wrap64_add_left: "wrap64 (wrap64 a + b) = wrap64 (a + b)"
  by (simp add: wrap64_def algebra_simps mod_simps)

lemma in64_small: "\<lbrakk>0 \<le> x; x \<le> y; in64 y\<rbrakk> \<Longrightarrow> in64 x"
  by (simp add: in64_def)

lemma wrap64_succ_max: "wrap64 (maxInt64 + 1) = - (2 ^ 63)"
  by (simp add: wrap64_def maxInt64_def)

text \<open>Go's integer division truncates towards zero.\<close>

definition quot_go :: "int \<Rightarrow> int \<Rightarrow> int" where
  "quot_go a b = sgn a * sgn b * (\<bar>a\<bar> div \<bar>b\<bar>)"

lemma quot_go_nonneg [simp]: "\<lbrakk>0 \<le> a; 0 < b\<rbrakk> \<Longrightarrow> quot_go a b = a div b"
  by (cases "a = 0") (simp_all add: quot_go_def)

text \<open>Units of \<open>time.Duration\<close>.\<close>

definition Millisecond :: duration where "Millisecond = 1000000"
definition Second :: duration where "Second = 1000 * Millisecond"
definition Minute :: duration where "Minute = 60 * Second"
definition Hour :: duration where "Hour = 60 * Minute"

lemmas duration_units [simp] = Millisecond_def Second_def Minute_def Hour_def

text \<open>The difference of two instants, in nanoseconds: \<open>time.Since\<close> saturates at the range of a duration.\<close>

definition saturate64 :: "int \<Rightarrow> duration" where
  "saturate64 d = max (- (2 ^ 63)) (min (2 ^ 63 - 1) d)"

section \<open>Errors and results\<close>

text \<open>
  An \<open>error\<close> value. \<open>ErrorString\<close> is \<open>errors.New\<close> or an error text received from the
  server, \<open>Wrap p e\<close> is \<open>fmt.Errorf(p + "%w", e)\<close> (in this code base the wrapped error is
  always the last part of the text), \<open>RedisNil\<close> is \<open>redis.Nil\<close>, the two context
  errors are those of the \<open>context\<close> package, \<open>Sentinel\<close> is a package level error
  variable, told apart by its identity, and \<open>RateLimited\<close> is the error type
  \<open>*ErrRateLimited\<close> of the ingestion package with its \<open>RetryAfter\<close> field.
\<close>

datatype goerror =
    ErrorString string
  | Wrap string goerror
  | RedisNil
  | ContextCanceled
  | DeadlineExceeded
  | Sentinel string
  | RateLimited duration

text \<open>\<open>errors.Is\<close>: the target occurs on the chain of wrapped errors.\<close>

fun errors_Is :: "goerror \<Rightarrow> goerror \<Rightarrow> bool" where
  "errors_Is (Wrap p e) t \<longleftrightarrow> Wrap p e = t \<or> errors_Is e t"
| "errors_Is e t \<longleftrightarrow> e = t"

text \<open>\<open>errors.As\<close> for the target type \<open>*ErrRateLimited\<close>: the first one on the chain.\<close>

fun errors_As_RateLimited :: "goerror \<Rightarrow> duration option" where
  "errors_As_RateLimited (Wrap p e) = errors_As_RateLimited e"
| "errors_As_RateLimited (RateLimited d) = Some d"
| "errors_As_RateLimited _ = None"

text \<open>The outcome of a call: \<open>(v, nil)\<close>, \<open>(_, err)\<close>, or a panic that unwinds the goroutine.\<close>

datatype 'a go = Ok 'a | Err goerror | Panic

fun bind_go :: "'a go \<Rightarrow> ('a \<Rightarrow> 'b go) \<Rightarrow> 'b go" where
  "bind_go (Ok a) f = f a"
| "bind_go (Err e) f = Err e"
| "bind_go Panic f = Panic"

lemma bind_go_assoc: "bind_go (bind_go m f) g = bind_go m (\<lambda>a. bind_go (f a) g)"
  by (cases m) simp_all

lemma bind_go_Ok_iff: "bind_go m f = Ok b \<longleftrightarrow> (\<exists>a. m = Ok a \<and> f a = Ok b)"
  by (cases m) simp_all

text \<open>
  A \<open>context.Context\<close> as the callee sees it at the moment of the call: live, or done with
  \<open>ctx.Err()\<close>.
\<close>

type_synonym ctx = "goerror option"

text \<open>A context that is read after it was \<open>g\<close>: an error stays, and a context without error may get one.\<close>

definition ctx_since :: "ctx \<Rightarrow> ctx \<Rightarrow> bool" where
  "ctx_since g c \<longleftrightarrow> g = None \<or> c = g"

section \<open>Lists\<close>

lemma sum_list_update_less:
  fixes f :: "'a \<Rightarrow> nat"
  assumes "j < length xs" "f x < f (xs ! j)"
  shows "sum_list (map f (xs[j := x])) < sum_list (map f xs)"
proof -
  have "sum_list (map f xs) = sum_list (map f (take j xs @ xs ! j # drop (Suc j) xs))"
    using id_take_nth_drop [OF assms(1)] by simp
  then show ?thesis using assms by (simp add: upd_conv_take_nth_drop)
qed

lemma length_filter_update:
  assumes "j < length xs"
  shows "int (length (filter P (xs[j := x]))) = int (length (filter P xs)) - of_bool (P (xs ! j)) + of_bool (P x)"
proof -
  have "xs[j := x] = take j xs @ x # drop (Suc j) xs" "xs = take j xs @ xs ! j # drop (Suc j) xs"
    using assms by (simp_all add: upd_conv_take_nth_drop id_take_nth_drop [symmetric])
  then have "filter P (xs[j := x]) = filter P (take j xs) @ filter P [x] @ filter P (drop (Suc j) xs)"
    "filter P xs = filter P (take j xs) @ filter P [xs ! j] @ filter P (drop (Suc j) xs)"
    by (metis append_Cons append_Nil filter_append)+
  then show ?thesis by simp
qed

lemma in_set_update: "y \<in> set (xs[k := x]) \<Longrightarrow> y = x \<or> y \<in> set xs"
  using set_update_subset_insert by fast

lemma split_at_last:
  assumes "xs @ c # ys = xs' @ c # ys'" and "c \<notin> set ys" and "c \<notin> set ys'"
  shows "xs = xs' \<and> ys = ys'"
  using assms
proof (induction xs arbitrary: xs')
  case Nil
  then show ?case by (cases xs') auto
next
  case (Cons x xs)
  then show ?case
  proof (cases xs')
    case Nil
    with Cons.prems have "xs @ c # ys = ys'" by simp
    then have "c \<in> set ys'" by auto
    with Cons.prems show ?thesis by simp
  next
    case (Cons x' xs'')
    with Cons.prems Cons.IH [of xs''] show ?thesis by auto
  qed
qed

end
