(* ===== verification/Go_Strconv.thy ===== *)
theory Go_Strconv
  imports Go_Prelude
begin

text \<open>
  What the services use of Go's \<open>strconv\<close> and \<open>strings\<close> packages: decimal printing
  (\<open>strconv.Itoa\<close>, the verb \<open>%d\<close>), decimal parsing (\<open>strconv.ParseInt(s, 10, 64)\<close>,
  \<open>strconv.Atoi\<close>), \<open>strconv.ParseBool\<close>, \<open>strings.ToLower\<close> on ASCII, \<open>strings.Split\<close> and
  \<open>strings.Contains\<close>. The main result is the round trip of decimal numbers.
\<close>

section \<open>Decimal digits\<close>

definition digit_char :: "nat \<Rightarrow> char" where
  "digit_char d = char_of (48 + d)"

definition is_digit :: "char \<Rightarrow> bool" where
  "is_digit c \<longleftrightarrow> 48 \<le> (of_char c :: nat) \<and> (of_char c :: nat) \<le> 57"

definition digit_val :: "char \<Rightarrow> nat" where
  "digit_val c = of_char c - 48"

lemma of_char_digit_char [simp]: "d < 10 \<Longrightarrow> (of_char (digit_char d) :: nat) = 48 + d"
  by (simp add: digit_char_def)

lemma digit_char_is_digit [simp]: "d < 10 \<Longrightarrow> is_digit (digit_char d)"
  by (simp add: is_digit_def)

lemma digit_val_digit_char [simp]: "d < 10 \<Longrightarrow> digit_val (digit_char d) = d"
  by (simp add: digit_val_def)

lemma digit_val_less [simp]: "is_digit c \<Longrightarrow> digit_val c < 10"
  by (auto simp: is_digit_def digit_val_def)

text \<open>\<open>strconv.FormatUint(n, 10)\<close>.\<close>

fun utoa :: "nat \<Rightarrow> string" where
  "utoa n = (if n < 10 then [digit_char n] else utoa (n div 10) @ [digit_char (n mod 10)])"

declare utoa.simps [simp del]

lemma utoa_small [simp]: "n < 10 \<Longrightarrow> utoa n = [digit_char n]"
  by (simp add: utoa.simps)

lemma utoa_big: "10 \<le> n \<Longrightarrow> utoa n = utoa (n div 10) @ [digit_char (n mod 10)]"
  by (subst utoa.simps) simp

lemma utoa_not_Nil [simp]: "utoa n \<noteq> []"
  by (cases "n < 10") (simp_all add: utoa_big)

lemma utoa_digits: "c \<in> set (utoa n) \<Longrightarrow> is_digit c"
proof (induction n rule: utoa.induct)
  case (1 n)
  then show ?case by (cases "n < 10") (auto simp: utoa_big)
qed

text \<open>\<open>strconv.Itoa\<close> and the verb \<open>%d\<close>.\<close>

definition itoa :: "int \<Rightarrow> string" where
  "itoa i = (if i < 0 then CHR ''-'' # utoa (nat (- i)) else utoa (nat i))"

lemma itoa_not_Nil [simp]: "itoa i \<noteq> []"
  by (simp add: itoa_def)

lemma itoa_chars: "c \<in> set (itoa i) \<Longrightarrow> is_digit c \<or> c = CHR ''-''"
  by (auto simp: itoa_def dest: utoa_digits split: if_splits)

lemma colon_notin_itoa [simp]: "CHR '':'' \<notin> set (itoa i)"
  by (auto simp: is_digit_def dest!: itoa_chars)

section \<open>Decimal parsing\<close>

text \<open>The value of a digit string; \<open>None\<close> when another byte occurs.\<close>

fun atou_acc :: "nat \<Rightarrow> string \<Rightarrow> nat option" where
  "atou_acc acc [] = Some acc"
| "atou_acc acc (c # cs) = (if is_digit c then atou_acc (acc * 10 + digit_val c) cs else None)"

text \<open>
  \<open>strconv.ParseInt(s, 10, 64)\<close>: an optional sign, at least one digit, and a value in the
  range of \<open>int64\<close>; \<open>None\<close> stands for the error (syntax or range), which no caller inspects
  further. \<open>strconv.Atoi\<close> accepts and returns the same on a 64-bit platform.
\<close>

definition ParseInt :: "string \<Rightarrow> int64 option" where
  "ParseInt s =
     (let (neg, ds) = (case s of [] \<Rightarrow> (False, [])
                       | c # cs \<Rightarrow> if c = CHR ''-'' then (True, cs)
                                   else if c = CHR ''+'' then (False, cs) else (False, s))
      in if ds = [] then None
         else case atou_acc 0 ds of
                None \<Rightarrow> None
              | Some n \<Rightarrow> let v = (if neg then - int n else int n)
                          in if in64 v then Some v else None)"

abbreviation Atoi :: "string \<Rightarrow> int64 option" where
  "Atoi \<equiv> ParseInt"

lemma atou_acc_append:
  "atou_acc acc (xs @ ys) = (case atou_acc acc xs of None \<Rightarrow> None | Some a \<Rightarrow> atou_acc a ys)"
  by (induction acc xs rule: atou_acc.induct) auto

lemma atou_utoa [simp]: "atou_acc 0 (utoa n) = Some n"
proof (induction n rule: utoa.induct)
  case (1 n)
  show ?case
  proof (cases "n < 10")
    case True
    then show ?thesis by simp
  next
    case False
    with 1 have "atou_acc 0 (utoa (n div 10)) = Some (n div 10)" by simp
    with False show ?thesis by (simp add: utoa_big atou_acc_append)
  qed
qed

lemma hd_utoa_digit: "is_digit (hd (utoa n))"
  by (rule utoa_digits) (rule hd_in_set, simp)

lemma ParseInt_itoa [simp]:
  assumes "in64 i" shows "ParseInt (itoa i) = Some i"
proof (cases "i < 0")
  case True
  with assms show ?thesis by (simp add: ParseInt_def itoa_def)
next
  case False
  obtain c cs where u: "utoa (nat i) = c # cs" by (cases "utoa (nat i)") auto
  with hd_utoa_digit [of "nat i"] have "c \<noteq> CHR ''-''" "c \<noteq> CHR ''+''"
    by (auto simp: is_digit_def)
  moreover have "atou_acc 0 (c # cs) = Some (nat i)" using u atou_utoa by metis
  ultimately show ?thesis using False assms u
    by (simp add: ParseInt_def itoa_def del: atou_acc.simps)
qed

lemma ParseInt_in64: "ParseInt s = Some v \<Longrightarrow> in64 v"
  by (auto simp: ParseInt_def Let_def split: option.splits if_splits prod.splits)

lemma utoa_inj: "utoa m = utoa n \<Longrightarrow> m = n"
  by (metis atou_utoa option.inject)

lemma itoa_inj [simp]: "itoa i = itoa j \<longleftrightarrow> i = j"
proof
  assume eq: "itoa i = itoa j"
  have sign: "itoa k = CHR ''-'' # cs \<longleftrightarrow> k < 0 \<and> utoa (nat (- k)) = cs" for k cs
    using hd_utoa_digit [of "nat k"] by (auto simp: itoa_def is_digit_def)
  show "i = j"
  proof (cases "i < 0")
    case True
    with eq have "j < 0 \<and> utoa (nat (- j)) = utoa (nat (- i))" by (metis itoa_def sign)
    with True show ?thesis by (auto dest!: utoa_inj)
  next
    case False
    with eq sign have "\<not> j < 0" by (metis itoa_def)
    with False eq have "utoa (nat i) = utoa (nat j)" by (simp add: itoa_def)
    with False \<open>\<not> j < 0\<close> show ?thesis by (auto dest!: utoa_inj)
  qed
qed simp

section \<open>Booleans and string helpers\<close>

text \<open>\<open>strconv.ParseBool\<close>.\<close>

definition ParseBool :: "string \<Rightarrow> bool option" where
  "ParseBool s =
     (if s \<in> {''1'', ''t'', ''T'', ''true'', ''TRUE'', ''True''} then Some True
      else if s \<in> {''0'', ''f'', ''F'', ''false'', ''FALSE'', ''False''} then Some False
      else None)"

text \<open>\<open>strings.Split(s, sep)\<close> for a one-byte separator: never empty.\<close>

fun Split :: "char \<Rightarrow> string \<Rightarrow> string list" where
  "Split c [] = [[]]"
| "Split c (x # xs) =
     (if x = c then [] # Split c xs
      else case Split c xs of [] \<Rightarrow> [[x]] | p # ps \<Rightarrow> (x # p) # ps)"

lemma Split_not_Nil [simp]: "Split c s \<noteq> []"
  by (induction s) (auto split: list.splits)

lemma Split_first: "c \<notin> set xs \<Longrightarrow> Split c (xs @ c # ys) = xs # Split c ys"
  by (induction xs) auto

text \<open>\<open>strings.HasPrefix\<close> and \<open>strings.Contains\<close>.\<close>

fun HasPrefix :: "string \<Rightarrow> string \<Rightarrow> bool" where
  "HasPrefix s [] \<longleftrightarrow> True"
| "HasPrefix [] (p # ps) \<longleftrightarrow> False"
| "HasPrefix (c # cs) (p # ps) \<longleftrightarrow> c = p \<and> HasPrefix cs ps"

fun Contains :: "string \<Rightarrow> string \<Rightarrow> bool" where
  "Contains [] sub \<longleftrightarrow> sub = []"
| "Contains (c # cs) sub \<longleftrightarrow> HasPrefix (c # cs) sub \<or> Contains cs sub"

lemma HasPrefix_append [simp]: "HasPrefix (p @ s) p"
  by (induction p) auto

lemma HasPrefix_iff: "HasPrefix s p \<longleftrightarrow> (\<exists>t. s = p @ t)"
  by (induction s p rule: HasPrefix.induct) auto

section \<open>Durations and errors as text\<close>

text \<open>
  \<open>Duration.String\<close>: the fraction is printed without trailing zeros, the leading units that
  are zero are left out, and durations below a second use the largest smaller unit.
\<close>

fun pad_left :: "nat \<Rightarrow> string \<Rightarrow> string" where
  "pad_left n s = replicate (n - length s) (CHR ''0'') @ s"

definition frac_str :: "nat \<Rightarrow> nat \<Rightarrow> string" where
  "frac_str v prec =
     (let ds = rev (dropWhile (\<lambda>c. c = CHR ''0'') (rev (pad_left prec (utoa (v mod 10 ^ prec)))))
      in if ds = [] then [] else CHR ''.'' # ds)"

definition unsigned_duration_string :: "nat \<Rightarrow> string" where
  "unsigned_duration_string u =
     (if u = 0 then ''0s''
      else if u < 1000 then utoa u @ ''ns''
      else if u < 1000000 then utoa (u div 1000) @ frac_str u 3 @ [CHR 0xC2, CHR 0xB5, CHR ''s'']
      else if u < 1000000000 then utoa (u div 1000000) @ frac_str u 6 @ ''ms''
      else let s = u div 1000000000; m = s div 60; h = m div 60
           in (if h > 0 then utoa h @ ''h'' else [])
              @ (if m > 0 then utoa (m mod 60) @ ''m'' else [])
              @ utoa (s mod 60) @ frac_str u 9 @ ''s'')"

definition Duration_String :: "duration \<Rightarrow> string" where
  "Duration_String d =
     (if d < 0 then CHR ''-'' # unsigned_duration_string (nat (- d))
      else unsigned_duration_string (nat d))"

text \<open>The text of an error, as \<open>err.Error()\<close> renders it.\<close>

fun Error :: "goerror \<Rightarrow> string" where
  "Error (ErrorString s) = s"
| "Error (Wrap p e) = p @ Error e"
| "Error RedisNil = ''redis: nil''"
| "Error ContextCanceled = ''context canceled''"
| "Error DeadlineExceeded = ''context deadline exceeded''"
| "Error (Sentinel s) = s"
| "Error (RateLimited d) = ''rate limited - retry after '' @ Duration_String d"

end
