(* ===== verification/Go_Json.thy ===== *)
theory Go_Json
  imports Go_Strconv
begin

text \<open>
  What the services use of \<open>encoding/json\<close>, at the level of bytes: string quoting with HTML
  escaping and UTF-8 repair, unquoting, and the grammar of JSON texts. A parsed text is a tree in
  which strings and numbers keep their source bytes, as Go's decoder keeps them until a target
  type is known. The round trips: unquoting a quoted valid UTF-8 string gives it back, and parsing
  a printed tree gives it back.
\<close>

abbreviation byte :: "char \<Rightarrow> nat" where
  "byte \<equiv> of_char"

section \<open>UTF-8\<close>

definition in_range :: "nat \<Rightarrow> nat \<Rightarrow> char \<Rightarrow> bool" where
  "in_range lo hi c \<longleftrightarrow> lo \<le> byte c \<and> byte c \<le> hi"

abbreviation cont_byte :: "char \<Rightarrow> bool" where
  "cont_byte \<equiv> in_range 0x80 0xBF"

text \<open>
  The number of bytes of the first rune (\<open>utf8.DecodeRune\<close>), 0 when the bytes are not a
  valid encoding: overlong forms, surrogates and values above U+10FFFF are invalid.
\<close>

definition ok2 :: "char \<Rightarrow> char \<Rightarrow> bool" where
  "ok2 a b \<longleftrightarrow> in_range 0xC2 0xDF a \<and> cont_byte b"

definition ok3 :: "char \<Rightarrow> char \<Rightarrow> char \<Rightarrow> bool" where
  "ok3 a b c \<longleftrightarrow> in_range 0xE0 0xEF a
     \<and> in_range (if byte a = 0xE0 then 0xA0 else 0x80) (if byte a = 0xED then 0x9F else 0xBF) b
     \<and> cont_byte c"

definition ok4 :: "char \<Rightarrow> char \<Rightarrow> char \<Rightarrow> char \<Rightarrow> bool" where
  "ok4 a b c d \<longleftrightarrow> in_range 0xF0 0xF4 a
     \<and> in_range (if byte a = 0xF0 then 0x90 else 0x80) (if byte a = 0xF4 then 0x8F else 0xBF) b
     \<and> cont_byte c \<and> cont_byte d"

definition rune_len :: "string \<Rightarrow> nat" where
  "rune_len s =
     (case s of
        [] \<Rightarrow> 0
      | a # s1 \<Rightarrow>
        if byte a < 0x80 then 1
        else if (case s1 of b # _ \<Rightarrow> ok2 a b | _ \<Rightarrow> False) then 2
        else if (case s1 of b # c # _ \<Rightarrow> ok3 a b c | _ \<Rightarrow> False) then 3
        else if (case s1 of b # c # d # _ \<Rightarrow> ok4 a b c d | _ \<Rightarrow> False) then 4
        else 0)"

lemma okD [simp]: "ok2 a b \<Longrightarrow> \<not> ok3 a b c" "ok2 a b \<Longrightarrow> \<not> ok4 a b c d" "ok3 a b c \<Longrightarrow> \<not> ok4 a b c d"
  by (auto simp: ok2_def ok3_def ok4_def in_range_def)

lemma ok_high:
  "ok2 a b \<Longrightarrow> 128 \<le> byte b"
  "ok3 a b c \<Longrightarrow> 128 \<le> byte b \<and> 128 \<le> byte c"
  "ok4 a b c d \<Longrightarrow> 128 \<le> byte b \<and> 128 \<le> byte c \<and> 128 \<le> byte d"
  by (auto simp: ok2_def ok3_def ok4_def in_range_def split: if_splits)

lemma rune_len_le: "rune_len s \<le> length s"
  by (auto simp: rune_len_def split: list.split)

lemma rune_len_ascii [simp]: "byte c < 128 \<Longrightarrow> rune_len (c # cs) = 1"
  by (simp add: rune_len_def)

lemma rune_len_append: "0 < rune_len s \<Longrightarrow> rune_len (s @ t) = rune_len s"
  by (auto simp: rune_len_def split: list.splits if_splits)

lemma rune_len_take: "rune_len (take (rune_len s) s) = rune_len s"
  by (auto simp: rune_len_def take_Cons' split: list.splits)

lemma rune_len_multi:
  "\<lbrakk>128 \<le> byte c; 0 < rune_len (c # cs)\<rbrakk> \<Longrightarrow> 2 \<le> rune_len (c # cs)"
  by (auto simp: rune_len_def split: list.splits if_splits)

lemma rune_len_high:
  "\<lbrakk>128 \<le> byte c; x \<in> set (take (rune_len (c # cs)) (c # cs))\<rbrakk> \<Longrightarrow> 128 \<le> byte x"
  by (auto simp: rune_len_def take_Cons' dest: ok_high split: list.splits if_splits)

function valid_utf8 :: "string \<Rightarrow> bool" where
  "valid_utf8 s \<longleftrightarrow>
     (if s = [] then True else if rune_len s = 0 then False else valid_utf8 (drop (rune_len s) s))"
  by auto
termination
  by (relation "measure length") (auto simp: rune_len_le)

declare valid_utf8.simps [simp del]

lemma valid_utf8_Nil [simp]: "valid_utf8 []"
  by (simp add: valid_utf8.simps)

lemma valid_utf8_ascii_Cons [simp]: "byte c < 128 \<Longrightarrow> valid_utf8 (c # cs) \<longleftrightarrow> valid_utf8 cs"
  by (subst valid_utf8.simps) simp

lemma valid_utf8_chunk: "\<lbrakk>rune_len ch = length ch; ch \<noteq> []\<rbrakk> \<Longrightarrow> valid_utf8 (ch @ t) \<longleftrightarrow> valid_utf8 t"
  by (subst valid_utf8.simps) (simp add: rune_len_append)

lemma valid_utf8_append: "valid_utf8 s \<Longrightarrow> valid_utf8 (s @ t) \<longleftrightarrow> valid_utf8 t"
proof (induction s rule: valid_utf8.induct)
  case (1 s)
  show ?case
  proof (cases "s = []")
    case False
    with 1 have n: "0 < rune_len s" and v: "valid_utf8 (drop (rune_len s) s)"
      by (simp_all add: valid_utf8.simps [of s] split: if_splits)
    have "valid_utf8 (s @ t) \<longleftrightarrow> valid_utf8 (drop (rune_len s) s @ t)"
      using False n rune_len_le [of s]
      by (subst valid_utf8.simps) (simp add: rune_len_append)
    with 1 False n v show ?thesis by simp
  qed simp
qed

lemma valid_utf8_ascii: "(\<And>c. c \<in> set s \<Longrightarrow> byte c < 128) \<Longrightarrow> valid_utf8 s"
  by (induction s) simp_all

text \<open>The bytes of a rune (\<open>utf8.AppendRune\<close>); surrogates and out-of-range values become U+FFFD.\<close>

definition encode_rune :: "nat \<Rightarrow> string" where
  "encode_rune r =
     (if r < 0x80 then [char_of r]
      else if r < 0x800 then [char_of (0xC0 + r div 64), char_of (0x80 + r mod 64)]
      else if (0xD800 \<le> r \<and> r \<le> 0xDFFF) \<or> 0x10FFFF < r then [CHR 0xEF, CHR 0xBF, CHR 0xBD]
      else if r < 0x10000 then
        [char_of (0xE0 + r div 4096), char_of (0x80 + r div 64 mod 64), char_of (0x80 + r mod 64)]
      else [char_of (0xF0 + r div 262144), char_of (0x80 + r div 4096 mod 64),
            char_of (0x80 + r div 64 mod 64), char_of (0x80 + r mod 64)])"

definition replacement :: string where
  "replacement = [CHR 0xEF, CHR 0xBF, CHR 0xBD]"

section \<open>Quoting and unquoting strings\<close>

definition hex_char :: "nat \<Rightarrow> char" where
  "hex_char d = (if d < 10 then char_of (48 + d) else char_of (87 + d))"

definition hex_val :: "char \<Rightarrow> nat option" where
  "hex_val c = (let b = byte c in
     if 48 \<le> b \<and> b \<le> 57 then Some (b - 48)
     else if 97 \<le> b \<and> b \<le> 102 then Some (b - 87)
     else if 65 \<le> b \<and> b \<le> 70 then Some (b - 55) else None)"

abbreviation backslash :: char where "backslash \<equiv> CHR 0x5C"
abbreviation dquote :: char where "dquote \<equiv> CHR 0x22"

text \<open>The escape of an ASCII byte in \<open>appendString\<close> with \<open>escapeHTML\<close>.\<close>

definition html_safe :: "char \<Rightarrow> bool" where
  "html_safe c \<longleftrightarrow> 0x20 \<le> byte c \<and> byte c < 0x80
     \<and> c \<noteq> dquote \<and> c \<noteq> backslash \<and> c \<noteq> CHR ''<'' \<and> c \<noteq> CHR ''>'' \<and> c \<noteq> CHR ''&''"

definition esc_ascii :: "char \<Rightarrow> string" where
  "esc_ascii c =
     (if html_safe c then [c]
      else if c = backslash \<or> c = dquote then [backslash, c]
      else if c = CHR 0x08 then [backslash, CHR ''b'']
      else if c = CHR 0x0C then [backslash, CHR ''f'']
      else if c = CHR 0x0A then [backslash, CHR ''n'']
      else if c = CHR 0x0D then [backslash, CHR ''r'']
      else if c = CHR 0x09 then [backslash, CHR ''t'']
      else [backslash, CHR ''u'', CHR ''0'', CHR ''0'',
            hex_char (byte c div 16), hex_char (byte c mod 16)])"

function quote_body :: "string \<Rightarrow> string" where
  "quote_body [] = []"
| "quote_body (c # cs) =
     (if byte c < 0x80 then esc_ascii c @ quote_body cs
      else let n = rune_len (c # cs)
           in if n = 0 then [backslash] @ ''ufffd'' @ quote_body cs
              else if take n (c # cs) = [CHR 0xE2, CHR 0x80, CHR 0xA8]
                   then [backslash] @ ''u2028'' @ quote_body (drop n (c # cs))
              else if take n (c # cs) = [CHR 0xE2, CHR 0x80, CHR 0xA9]
                   then [backslash] @ ''u2029'' @ quote_body (drop n (c # cs))
              else take n (c # cs) @ quote_body (drop n (c # cs)))"
  by pat_completeness auto
termination
  by (relation "measure length") auto

text \<open>\<open>getu4\<close>: a \<open>\u\<close> escape at the head of the bytes.\<close>

fun getu4 :: "string \<Rightarrow> nat option" where
  "getu4 (a # b # c1 # c2 # c3 # c4 # _) =
     (if a = backslash \<and> b = CHR ''u'' then
        (case (hex_val c1, hex_val c2, hex_val c3, hex_val c4) of
           (Some d1, Some d2, Some d3, Some d4) \<Rightarrow> Some (((d1 * 16 + d2) * 16 + d3) * 16 + d4)
         | _ \<Rightarrow> None)
      else None)"
| "getu4 _ = None"

definition simple_escape :: "char \<Rightarrow> char option" where
  "simple_escape e =
     (if e = dquote \<or> e = backslash \<or> e = CHR ''/'' then Some e
      else if e = CHR ''b'' then Some (CHR 0x08)
      else if e = CHR ''f'' then Some (CHR 0x0C)
      else if e = CHR ''n'' then Some (CHR 0x0A)
      else if e = CHR ''r'' then Some (CHR 0x0D)
      else if e = CHR ''t'' then Some (CHR 0x09)
      else None)"

abbreviation prepend :: "string \<Rightarrow> string option \<Rightarrow> string option" where
  "prepend xs r \<equiv> map_option ((@) xs) r"

text \<open>
  \<open>unquoteBytes\<close>: a surrogate pair is combined, a lone surrogate and invalid UTF-8 become U+FFFD.
\<close>

function unquote :: "string \<Rightarrow> string option" where
  "unquote [] = Some []"
| "unquote (c # cs) =
     (if c = backslash then
        (case cs of
           [] \<Rightarrow> None
         | e # es \<Rightarrow>
             (case getu4 (c # cs) of
                Some r \<Rightarrow>
                  (let rest = drop 4 es in
                   if 0xD800 \<le> r \<and> r \<le> 0xDFFF then
                     (case getu4 rest of
                        Some r2 \<Rightarrow>
                          if r < 0xDC00 \<and> 0xDC00 \<le> r2 \<and> r2 \<le> 0xDFFF
                          then prepend (encode_rune ((r - 0xD800) * 1024 + (r2 - 0xDC00) + 0x10000))
                                 (unquote (drop 6 rest))
                          else prepend replacement (unquote rest)
                      | None \<Rightarrow> prepend replacement (unquote rest))
                   else prepend (encode_rune r) (unquote rest))
              | None \<Rightarrow>
                  (case simple_escape e of
                     None \<Rightarrow> None
                   | Some d \<Rightarrow> prepend [d] (unquote es))))
      else if c = dquote \<or> byte c < 0x20 then None
      else if byte c < 0x80 then prepend [c] (unquote cs)
      else let n = rune_len (c # cs)
           in if n = 0 then prepend replacement (unquote cs)
              else prepend (take n (c # cs)) (unquote (drop n (c # cs))))"
  by pat_completeness auto
termination
  by (relation "measure length") auto

declare quote_body.simps(2) [simp del] unquote.simps(2) [simp del]

subsection \<open>The round trip of strings\<close>

lemma hex_val_hex_char [simp]: "d < 16 \<Longrightarrow> hex_val (hex_char d) = Some d"
  by (auto simp: hex_val_def hex_char_def)

lemma hex_zero [simp]: "hex_val (CHR ''0'') = Some 0"
  by (simp add: hex_val_def)

lemma char_cases_control:
  assumes "\<not> html_safe c" "byte c < 128" "c \<noteq> backslash" "c \<noteq> dquote"
  shows "byte c < 0x20 \<or> c \<in> {CHR ''<'', CHR ''>'', CHR ''&''}"
  using assms by (auto simp: html_safe_def)

lemma unquote_esc_ascii:
  assumes "byte c < 128" shows "unquote (esc_ascii c @ t) = prepend [c] (unquote t)"
proof -
  have u: "unquote ([backslash, CHR ''u'', CHR ''0'', CHR ''0'',
              hex_char (byte c div 16), hex_char (byte c mod 16)] @ t) = prepend [c] (unquote t)"
  proof -
    have "byte c div 16 < 16" using assms by auto
    then have "getu4 ([backslash, CHR ''u'', CHR ''0'', CHR ''0'',
              hex_char (byte c div 16), hex_char (byte c mod 16)] @ t) = Some (byte c)"
      by (simp add: hex_zero)
    then show ?thesis using assms by (simp add: unquote.simps encode_rune_def)
  qed
  show ?thesis
  proof (cases "html_safe c")
    case True
    then show ?thesis by (simp add: esc_ascii_def unquote.simps html_safe_def)
  next
    case False
    have g: "getu4 (backslash # e # s) = None" if "e \<noteq> CHR ''u''" for e s
      using that by (cases "(backslash # e # s)" rule: getu4.cases) auto
    show ?thesis using False u
      by (auto simp: esc_ascii_def unquote.simps simple_escape_def g)
  qed
qed

lemma unquote_chunk:
  assumes "128 \<le> byte c" and n: "rune_len (c # cs) = length (c # cs)"
  shows "unquote ((c # cs) @ t) = prepend (c # cs) (unquote t)"
proof -
  have r: "rune_len (c # cs @ t) = Suc (length cs)"
    using n rune_len_append [of "c # cs" t] by simp
  have "c \<noteq> backslash" "c \<noteq> dquote" "\<not> byte c < 32" using assms(1) by auto
  with assms(1) r show ?thesis by (simp add: unquote.simps)
qed

lemma unquote_u2028:
  "unquote (backslash # CHR ''u'' # CHR ''2'' # CHR ''0'' # CHR ''2'' # CHR ''8'' # t) =
     prepend [CHR 0xE2, CHR 0x80, CHR 0xA8] (unquote t)"
  "unquote (backslash # CHR ''u'' # CHR ''2'' # CHR ''0'' # CHR ''2'' # CHR ''9'' # t) =
     prepend [CHR 0xE2, CHR 0x80, CHR 0xA9] (unquote t)"
proof -
  have c: "char_of (226::nat) = CHR 0xE2" "char_of (128::nat) = CHR 0x80"
    "char_of (168::nat) = CHR 0xA8" "char_of (169::nat) = CHR 0xA9"
    by code_simp+
  show "unquote (backslash # CHR ''u'' # CHR ''2'' # CHR ''0'' # CHR ''2'' # CHR ''8'' # t) =
     prepend [CHR 0xE2, CHR 0x80, CHR 0xA8] (unquote t)"
    "unquote (backslash # CHR ''u'' # CHR ''2'' # CHR ''0'' # CHR ''2'' # CHR ''9'' # t) =
     prepend [CHR 0xE2, CHR 0x80, CHR 0xA9] (unquote t)"
    by (simp_all add: unquote.simps hex_val_def encode_rune_def c)
qed

theorem unquote_quote_body: "valid_utf8 s \<Longrightarrow> unquote (quote_body s) = Some s"
proof (induction s rule: quote_body.induct)
  case 1
  then show ?case by simp
next
  case (2 c cs)
  show ?case
  proof (cases "byte c < 128")
    case True
    with 2 show ?thesis by (simp add: quote_body.simps(2) unquote_esc_ascii)
  next
    case False
    define n where "n = rune_len (c # cs)"
    have pos: "0 < n" and v: "valid_utf8 (drop n (c # cs))"
      using "2.prems" by (simp_all add: n_def valid_utf8.simps [of "c # cs"] split: if_splits)
    with 2 False have IH: "unquote (quote_body (drop n (c # cs))) = Some (drop n (c # cs))"
      by (auto simp: n_def)
    obtain ds where ds: "take n (c # cs) = c # ds" using pos by (cases n) auto
    have len: "rune_len (c # ds) = length (c # ds)"
      using rune_len_take [of "c # cs"] rune_len_le [of "c # cs"] by (simp add: n_def flip: ds)
    have whole: "c # ds @ drop n (c # cs) = c # cs"
      using append_take_drop_id [of n "c # cs"] by (simp only: ds) simp
    show ?thesis
      using False pos IH whole unquote_chunk [OF _ len, of "quote_body (drop n (c # cs))"]
      by (auto simp: quote_body.simps(2) Let_def ds unquote_u2028 simp flip: n_def)
  qed
qed

section \<open>The grammar of JSON texts\<close>

text \<open>
  A JSON value with the bytes of its strings (without the quotes, still escaped) and of its
  numbers kept.
\<close>

datatype json =
    JNull
  | JBool bool
  | JNum string
  | JStr string
  | JArr "json list"
  | JObj "(string \<times> json) list"

definition is_ws :: "char \<Rightarrow> bool" where
  "is_ws c \<longleftrightarrow> c = CHR '' '' \<or> c = CHR 0x09 \<or> c = CHR 0x0A \<or> c = CHR 0x0D"

abbreviation skip_ws :: "string \<Rightarrow> string" where
  "skip_ws \<equiv> dropWhile is_ws"

text \<open>The bytes of a string literal up to its closing quote; control bytes and bad escapes are errors.\<close>

fun scan_string :: "string \<Rightarrow> (string \<times> string) option" where
  "scan_string [] = None"
| "scan_string (c # cs) =
     (if c = dquote then Some ([], cs)
      else if c = backslash then
        (case cs of
           [] \<Rightarrow> None
         | e # es \<Rightarrow>
             if simple_escape e \<noteq> None \<or> getu4 (c # cs) \<noteq> None
             then map_option (\<lambda>(b, r). (c # e # b, r)) (scan_string es)
             else None)
      else if byte c < 0x20 then None
      else map_option (\<lambda>(b, r). (c # b, r)) (scan_string cs))"

definition scan_int :: "string \<Rightarrow> (string \<times> string) option" where
  "scan_int s = (case s of [] \<Rightarrow> None
     | c # cs \<Rightarrow> if c = CHR ''0'' then Some ([c], cs)
                 else if is_digit c then Some (takeWhile is_digit s, dropWhile is_digit s)
                 else None)"

definition scan_frac :: "string \<Rightarrow> (string \<times> string) option" where
  "scan_frac s = (case s of [] \<Rightarrow> Some ([], [])
     | c # cs \<Rightarrow> if c = CHR ''.'' then
                   (if takeWhile is_digit cs = [] then None
                    else Some (c # takeWhile is_digit cs, dropWhile is_digit cs))
                 else Some ([], s))"

definition take_sign :: "string \<Rightarrow> string \<times> string" where
  "take_sign s = (case s of [] \<Rightarrow> ([], [])
     | c # cs \<Rightarrow> if c = CHR ''+'' \<or> c = CHR ''-'' then ([c], cs) else ([], s))"

definition scan_exp :: "string \<Rightarrow> (string \<times> string) option" where
  "scan_exp s = (case s of [] \<Rightarrow> Some ([], [])
     | c # cs \<Rightarrow> if c = CHR ''e'' \<or> c = CHR ''E'' then
                   (let (sg, r) = take_sign cs
                    in if takeWhile is_digit r = [] then None
                       else Some (c # sg @ takeWhile is_digit r, dropWhile is_digit r))
                 else Some ([], s))"

definition scan_number :: "string \<Rightarrow> (string \<times> string) option" where
  "scan_number s =
     (let (sg, s0) = (case s of [] \<Rightarrow> ([], []) | c # cs \<Rightarrow> if c = CHR ''-'' then ([c], cs) else ([], s))
      in case scan_int s0 of None \<Rightarrow> None
       | Some (i, s1) \<Rightarrow> (case scan_frac s1 of None \<Rightarrow> None
       | Some (f, s2) \<Rightarrow> (case scan_exp s2 of None \<Rightarrow> None
       | Some (e, s3) \<Rightarrow> Some (sg @ i @ f @ e, s3))))"

lemma skip_ws_length: "length (skip_ws s) \<le> length s"
  by (rule length_dropWhile_le)

lemma skip_ws_Cons_length: "skip_ws s = c # cs \<Longrightarrow> length cs < length s"
  using skip_ws_length [of s] by simp

text \<open>
  The value at the head of the bytes and what follows it. \<open>d\<close> bounds the nesting as Go's scanner
  does (10000 levels). The comparisons of lengths only serve the termination proof: a
  recursive call always has fewer bytes left, so they never fail (\<open>parse_value_length\<close>).
\<close>

function (sequential)
  parse_value :: "nat \<Rightarrow> string \<Rightarrow> (json \<times> string) option"
  and parse_elems :: "nat \<Rightarrow> string \<Rightarrow> (json list \<times> string) option"
  and parse_members :: "nat \<Rightarrow> string \<Rightarrow> ((string \<times> json) list \<times> string) option"
where
  "parse_value d s0 =
     (case skip_ws s0 of
        [] \<Rightarrow> None
      | c # cs \<Rightarrow>
        if c = CHR ''{'' then
          (if d = 0 then None
           else case skip_ws cs of
                  [] \<Rightarrow> None
                | c1 # cs1 \<Rightarrow>
                  if c1 = CHR ''}'' then Some (JObj [], cs1)
                  else map_option (\<lambda>(ms, r). (JObj ms, r)) (parse_members (d - 1) (c1 # cs1)))
        else if c = CHR ''['' then
          (if d = 0 then None
           else case skip_ws cs of
                  [] \<Rightarrow> None
                | c1 # cs1 \<Rightarrow>
                  if c1 = CHR '']'' then Some (JArr [], cs1)
                  else map_option (\<lambda>(vs, r). (JArr vs, r)) (parse_elems (d - 1) (c1 # cs1)))
        else if c = dquote then map_option (\<lambda>(b, r). (JStr b, r)) (scan_string cs)
        else if HasPrefix (c # cs) ''null'' then Some (JNull, drop 4 (c # cs))
        else if HasPrefix (c # cs) ''true'' then Some (JBool True, drop 4 (c # cs))
        else if HasPrefix (c # cs) ''false'' then Some (JBool False, drop 5 (c # cs))
        else map_option (\<lambda>(n, r). (JNum n, r)) (scan_number (c # cs)))"
| "parse_elems d s =
     (case parse_value d s of
        None \<Rightarrow> None
      | Some (v, r) \<Rightarrow>
        (case skip_ws r of
           [] \<Rightarrow> None
         | c # cs \<Rightarrow>
           if c = CHR '']'' then Some ([v], cs)
           else if c = CHR '','' \<and> length cs < length s
                then map_option (\<lambda>(vs, r'). (v # vs, r')) (parse_elems d cs)
           else None))"
| "parse_members d s =
     (case skip_ws s of
        [] \<Rightarrow> None
      | q # qs \<Rightarrow>
        if q \<noteq> dquote then None
        else (case scan_string qs of
                None \<Rightarrow> None
              | Some (k, r0) \<Rightarrow>
                (case skip_ws r0 of
                   [] \<Rightarrow> None
                 | col # r1 \<Rightarrow>
                   if col \<noteq> CHR '':'' \<or> \<not> length r1 < length s then None
                   else (case parse_value d r1 of
                           None \<Rightarrow> None
                         | Some (v, r2) \<Rightarrow>
                           (case skip_ws r2 of
                              [] \<Rightarrow> None
                            | c # cs \<Rightarrow>
                              if c = CHR ''}'' then Some ([(k, v)], cs)
                              else if c = CHR '','' \<and> length cs < length s
                                   then map_option (\<lambda>(ms, r'). ((k, v) # ms, r')) (parse_members d cs)
                              else None)))))"
  by pat_completeness auto

termination
  by (relation "measure (\<lambda>x. case x of Inl (d, s) \<Rightarrow> 2 * length s
        | Inr (Inl (d, s)) \<Rightarrow> Suc (2 * length s) | Inr (Inr (d, s)) \<Rightarrow> Suc (2 * length s))")
     (auto dest!: skip_ws_Cons_length)

definition maxNestingDepth :: nat where "maxNestingDepth = 10000"

text \<open>A whole document (\<open>json.Unmarshal\<close>), and the first value of a stream (\<open>Decoder.Decode\<close>).\<close>

definition parse_document :: "string \<Rightarrow> json option" where
  "parse_document s =
     (case parse_value maxNestingDepth s of
        None \<Rightarrow> None
      | Some (v, r) \<Rightarrow> if skip_ws r = [] then Some v else None)"

definition parse_first :: "string \<Rightarrow> json option" where
  "parse_first s = map_option fst (parse_value maxNestingDepth s)"

section \<open>Printing\<close>

text \<open>The compact form \<open>json.Marshal\<close> produces.\<close>

fun print_json :: "json \<Rightarrow> string"
  and print_elems :: "json list \<Rightarrow> string"
  and print_members :: "(string \<times> json) list \<Rightarrow> string" where
  "print_json JNull = ''null''"
| "print_json (JBool True) = ''true''"
| "print_json (JBool False) = ''false''"
| "print_json (JNum n) = n"
| "print_json (JStr b) = dquote # b @ [dquote]"
| "print_json (JArr vs) = CHR ''['' # print_elems vs @ '']''"
| "print_json (JObj ms) = CHR ''{'' # print_members ms @ ''}''"
| "print_elems [] = []"
| "print_elems [v] = print_json v"
| "print_elems (v # w # vs) = print_json v @ CHR '','' # print_elems (w # vs)"
| "print_members [] = []"
| "print_members [(k, v)] = dquote # k @ dquote # CHR '':'' # print_json v"
| "print_members ((k, v) # m # ms) =
     dquote # k @ dquote # CHR '':'' # print_json v @ CHR '','' # print_members (m # ms)"

text \<open>A tree whose string and number bytes are well formed and whose nesting is at most \<open>d\<close>.\<close>

definition raw_ok :: "string \<Rightarrow> bool" where
  "raw_ok b \<longleftrightarrow> scan_string (b @ [dquote]) = Some (b, [])"

definition num_ok :: "string \<Rightarrow> bool" where
  "num_ok n \<longleftrightarrow> scan_number n = Some (n, [])"

fun wf_json :: "nat \<Rightarrow> json \<Rightarrow> bool" where
  "wf_json d (JNum n) \<longleftrightarrow> num_ok n"
| "wf_json d (JStr b) \<longleftrightarrow> raw_ok b"
| "wf_json d (JArr vs) \<longleftrightarrow> 0 < d \<and> (\<forall>v \<in> set vs. wf_json (d - 1) v)"
| "wf_json d (JObj ms) \<longleftrightarrow> 0 < d \<and> (\<forall>m \<in> set ms. raw_ok (fst m) \<and> wf_json (d - 1) (snd m))"
| "wf_json d _ \<longleftrightarrow> True"

lemma getu4_append: "getu4 s = Some r \<Longrightarrow> getu4 (s @ t) = Some r"
  by (induction s rule: getu4.induct) (simp_all split: if_splits)

lemma scan_string_append: "scan_string s = Some (b, r) \<Longrightarrow> scan_string (s @ t) = Some (b, r @ t)"
proof (induction s arbitrary: b rule: scan_string.induct)
  case 1
  then show ?case by simp
next
  case (2 c cs)
  show ?case
  proof (cases "c = backslash")
    case True
    with "2.prems" obtain e es where cs: "cs = e # es" by (cases cs) auto
    show ?thesis using "2.prems" "2.IH"(1) [OF _ True cs] True cs
      by (auto split: if_splits dest: getu4_append [where t = t])
  next
    case False
    with "2.prems" "2.IH"(2) show ?thesis by (auto split: if_splits)
  qed
qed

lemma scan_raw_ok: "raw_ok b \<Longrightarrow> scan_string (b @ dquote # t) = Some (b, t)"
  using scan_string_append [of "b @ [dquote]" b "[]" t] by (simp add: raw_ok_def)

lemma scan_plain:
  "\<lbrakk>c \<noteq> dquote; c \<noteq> backslash; 32 \<le> byte c\<rbrakk> \<Longrightarrow>
   scan_string (c # t) = map_option (\<lambda>(b, r). (c # b, r)) (scan_string t)"
  by simp

lemma scan_escape:
  "simple_escape e \<noteq> None \<Longrightarrow>
   scan_string (backslash # e # t) = map_option (\<lambda>(b, r). (backslash # e # b, r)) (scan_string t)"
  by simp

lemma hex_val_plain:
  assumes "hex_val h = Some d" shows "h \<noteq> dquote" "h \<noteq> backslash" "32 \<le> byte h"
proof -
  show "h \<noteq> dquote" using assms by (auto simp: hex_val_def)
  show "h \<noteq> backslash" using assms by (auto simp: hex_val_def)
  show "32 \<le> byte h" using assms by (auto simp: hex_val_def Let_def split: if_splits)
qed

lemma scan_u4:
  assumes "hex_val h1 = Some d1" "hex_val h2 = Some d2" "hex_val h3 = Some d3" "hex_val h4 = Some d4"
  shows "scan_string (backslash # CHR ''u'' # h1 # h2 # h3 # h4 # t) =
    map_option (\<lambda>(b, r). (backslash # CHR ''u'' # h1 # h2 # h3 # h4 # b, r)) (scan_string t)"
proof -
  have g: "getu4 (backslash # CHR ''u'' # h1 # h2 # h3 # h4 # t) \<noteq> None" using assms by simp
  have "scan_string (backslash # CHR ''u'' # h1 # h2 # h3 # h4 # t) =
    map_option (\<lambda>(b, r). (backslash # CHR ''u'' # b, r)) (scan_string (h1 # h2 # h3 # h4 # t))"
    using g by (subst scan_string.simps) simp
  also have "scan_string (h1 # h2 # h3 # h4 # t) =
    map_option (\<lambda>(b, r). (h1 # h2 # h3 # h4 # b, r)) (scan_string t)"
    using hex_val_plain [OF assms(1)] hex_val_plain [OF assms(2)]
      hex_val_plain [OF assms(3)] hex_val_plain [OF assms(4)]
    by (cases "scan_string t") (auto simp: scan_plain simp del: scan_string.simps)
  finally show ?thesis by (cases "scan_string t") auto
qed

lemma scan_string_ascii:
  assumes "byte c < 128"
  shows "scan_string (esc_ascii c @ t) = map_option (\<lambda>(b, r). (esc_ascii c @ b, r)) (scan_string t)"
proof -
  have hex: "hex_val (hex_char (byte c div 16)) = Some (byte c div 16)"
    "hex_val (hex_char (byte c mod 16)) = Some (byte c mod 16)" using assms by auto
  have esc: "simple_escape e \<noteq> None" if "e \<in> {backslash, dquote, CHR ''b'', CHR ''f'', CHR ''n'', CHR ''r'', CHR ''t''}" for e
    using that by (auto simp: simple_escape_def)
  show ?thesis
  proof (cases "html_safe c")
    case True
    then show ?thesis by (simp add: esc_ascii_def html_safe_def)
  next
    case False
    then show ?thesis
      by (simp add: esc_ascii_def scan_escape esc scan_u4 [OF hex_zero hex_zero hex] del: scan_string.simps)
  qed
qed

lemma scan_string_high:
  "(\<And>x. x \<in> set ch \<Longrightarrow> 128 \<le> byte x) \<Longrightarrow>
   scan_string (ch @ t) = map_option (\<lambda>(b, r). (ch @ b, r)) (scan_string t)"
proof (induction ch)
  case Nil
  then show ?case by (cases "scan_string t") simp_all
next
  case (Cons c ch)
  from Cons.prems [of c] have "c \<noteq> dquote" "c \<noteq> backslash" "\<not> byte c < 32" by auto
  with Cons show ?case by (cases "scan_string t") auto
qed

lemma raw_ok_quote_body [simp]: "raw_ok (quote_body s)"
proof (induction s rule: quote_body.induct)
  case 1
  then show ?case by (simp add: raw_ok_def)
next
  case (2 c cs)
  have u: "raw_ok b \<Longrightarrow> raw_ok ([backslash] @ ''ufffd'' @ b)"
    "raw_ok b \<Longrightarrow> raw_ok ([backslash] @ ''u2028'' @ b)"
    "raw_ok b \<Longrightarrow> raw_ok ([backslash] @ ''u2029'' @ b)" for b
    by (simp_all add: raw_ok_def scan_u4 hex_val_def del: scan_string.simps)
  show ?case
  proof (cases "byte c < 128")
    case True
    then have "raw_ok (quote_body cs)" by (rule "2.IH"(1))
    then have "raw_ok (esc_ascii c @ quote_body cs)"
      using True by (simp add: raw_ok_def scan_string_ascii del: scan_string.simps)
    with True show ?thesis by (simp add: quote_body.simps(2))
  next
    case False
    define n where "n = rune_len (c # cs)"
    define ch where "ch = take n (c # cs)"
    have hi: "\<And>x. x \<in> set ch \<Longrightarrow> 128 \<le> byte x"
      using False rune_len_high [of c _ cs] unfolding n_def ch_def by (metis not_less)
    show ?thesis
    proof (cases "n = 0")
      case True
      then have "raw_ok (quote_body cs)" using "2.IH"(2) [OF False refl] by (simp add: n_def)
      then show ?thesis using False True u(1) by (simp add: quote_body.simps(2) flip: n_def)
    next
      case n: False
      have IH: "raw_ok (quote_body (drop n (c # cs)))"
        using "2.IH"(3-5) [OF False refl] n unfolding n_def by blast
      then have "raw_ok (ch @ quote_body (drop n (c # cs)))"
        by (simp add: raw_ok_def scan_string_high [OF hi] del: scan_string.simps)
      then show ?thesis using False n u(2,3) [OF IH]
        by (simp add: quote_body.simps(2) Let_def ch_def flip: n_def)
    qed
  qed
qed

subsection \<open>Numbers in context\<close>

definition delim :: "string \<Rightarrow> bool" where
  "delim r \<longleftrightarrow> r = [] \<or> hd r \<in> {CHR '','', CHR '']'', CHR ''}''}"

lemma delim_Cons [simp]: "delim (c # r) \<longleftrightarrow> c \<in> {CHR '','', CHR '']'', CHR ''}''}"
  by (simp add: delim_def)

lemma delim_nodigit:
  assumes "delim r"
  shows "takeWhile is_digit (s @ r) = takeWhile is_digit s"
    and "dropWhile is_digit (s @ r) = dropWhile is_digit s @ r"
proof -
  have n: "takeWhile is_digit r = [] \<and> dropWhile is_digit r = r"
    using assms by (cases r) (auto simp: is_digit_def)
  show "takeWhile is_digit (s @ r) = takeWhile is_digit s"
    "dropWhile is_digit (s @ r) = dropWhile is_digit s @ r"
    using n by (induction s) auto
qed

lemma scan_int_append:
  "\<lbrakk>scan_int s = Some (i, s1); delim r\<rbrakk> \<Longrightarrow> scan_int (s @ r) = Some (i, s1 @ r)"
  using delim_nodigit [of r s] by (auto simp: scan_int_def split: list.splits if_splits)

lemma scan_frac_append:
  "\<lbrakk>scan_frac s = Some (i, s1); delim r\<rbrakk> \<Longrightarrow> scan_frac (s @ r) = Some (i, s1 @ r)"
  using delim_nodigit [of r "tl s"] by (cases s; cases r) (auto simp: scan_frac_def split: if_splits)

lemma take_sign_append:
  "delim r \<Longrightarrow> take_sign (s @ r) = (fst (take_sign s), snd (take_sign s) @ r)"
  by (cases s; cases r) (auto simp: take_sign_def)

lemma scan_exp_append:
  "\<lbrakk>scan_exp s = Some (i, s1); delim r\<rbrakk> \<Longrightarrow> scan_exp (s @ r) = Some (i, s1 @ r)"
  using delim_nodigit [of r "snd (take_sign (tl s))"]
  by (cases s; cases r)
     (auto simp: scan_exp_def take_sign_append Let_def split: if_splits prod.splits)

lemma scan_number_append:
  assumes "scan_number s = Some (n, s1)" "delim r" shows "scan_number (s @ r) = Some (n, s1 @ r)"
proof -
  obtain c cs where s: "s = c # cs" using assms(1) by (cases s) (auto simp: scan_number_def scan_int_def)
  define sg s0 where "sg = (if c = CHR ''-'' then [c] else [])" and "s0 = (if c = CHR ''-'' then cs else s)"
  from assms(1) obtain i t1 f t2 e where p:
    "scan_int s0 = Some (i, t1)" "scan_frac t1 = Some (f, t2)" "scan_exp t2 = Some (e, s1)"
    "n = sg @ i @ f @ e"
    by (auto simp: scan_number_def s sg_def s0_def Let_def split: option.splits if_splits)
  note app = scan_int_append [OF p(1) assms(2)] scan_frac_append [OF p(2) assms(2)]
    scan_exp_append [OF p(3) assms(2)]
  show ?thesis
  proof (cases "c = CHR ''-''")
    case True
    then show ?thesis using app p(4) by (simp add: scan_number_def s sg_def s0_def)
  next
    case False
    then show ?thesis using app p(4) by (simp add: scan_number_def s sg_def s0_def)
  qed
qed

lemma num_ok_hd:
  assumes "num_ok n" obtains c cs where "n = c # cs" "is_digit c \<or> c = CHR ''-''"
  using assms
  by (cases n) (auto simp: num_ok_def scan_number_def scan_int_def is_digit_def Let_def
      split: option.splits if_splits)

subsection \<open>The round trip of documents\<close>

declare parse_value.simps [simp del] parse_elems.simps [simp del] parse_members.simps [simp del]

lemma skip_ws_visible [simp]: "\<not> is_ws c \<Longrightarrow> skip_ws (c # cs) = c # cs"
  by simp

lemma is_ws_simps [simp]:
  "\<not> is_ws (CHR ''{'')" "\<not> is_ws (CHR ''}'')" "\<not> is_ws (CHR ''['')" "\<not> is_ws (CHR '']'')"
  "\<not> is_ws (CHR '','')" "\<not> is_ws (CHR '':'')" "\<not> is_ws dquote"
  "\<not> is_ws (CHR ''n'')" "\<not> is_ws (CHR ''t'')" "\<not> is_ws (CHR ''f'')"
  by (simp_all add: is_ws_def)

lemma parse_value_literals:
  "parse_value d (''null'' @ r) = Some (JNull, r)"
  "parse_value d (''true'' @ r) = Some (JBool True, r)"
  "parse_value d (''false'' @ r) = Some (JBool False, r)"
  by (simp_all add: parse_value.simps)

lemma parse_value_num:
  assumes "num_ok n" "delim r" shows "parse_value d (n @ r) = Some (JNum n, r)"
proof -
  obtain c cs where n: "n = c # cs" and c: "is_digit c \<or> c = CHR ''-''" using assms(1) by (rule num_ok_hd)
  have sc: "scan_number (c # cs @ r) = Some (n, r)"
    using scan_number_append [of n n "[]" r] assms by (simp add: num_ok_def n)
  have "\<not> is_ws c" "c \<noteq> CHR ''{''" "c \<noteq> CHR ''[''" "c \<noteq> dquote" "c \<noteq> CHR ''n''" "c \<noteq> CHR ''t''" "c \<noteq> CHR ''f''"
    using c by (auto simp: is_ws_def is_digit_def)
  then show ?thesis using sc by (simp add: parse_value.simps n)
qed

lemma parse_value_str: "raw_ok b \<Longrightarrow> parse_value d (dquote # b @ dquote # r) = Some (JStr b, r)"
  by (simp add: parse_value.simps scan_raw_ok del: scan_string.simps)

lemma parse_value_obj:
  assumes "parse_members d (dquote # s) = Some (ms, r)"
  shows "parse_value (Suc d) (CHR ''{'' # dquote # s) = Some (JObj ms, r)"
  using assms by (simp add: parse_value.simps)

lemma parse_value_arr:
  assumes "parse_elems d (c # s) = Some (vs, r)" "\<not> is_ws c" "c \<noteq> CHR '']''"
  shows "parse_value (Suc d) (CHR ''['' # c # s) = Some (JArr vs, r)"
  using assms by (simp add: parse_value.simps)

lemma print_json_head:
  assumes "wf_json d v" shows "\<exists>c cs. print_json v = c # cs \<and> \<not> is_ws c \<and> c \<noteq> CHR '']''"
proof (cases v)
  case (JBool b)
  then show ?thesis by (cases b) simp_all
next
  case (JNum n)
  with assms obtain c cs where "n = c # cs" "is_digit c \<or> c = CHR ''-''" by (auto elim: num_ok_hd)
  with JNum show ?thesis by (auto simp: is_ws_def is_digit_def)
qed simp_all

lemma parse_elems_single:
  assumes "parse_value d s = Some (v, CHR '']'' # r)"
  shows "parse_elems d s = Some ([v], r)"
  using assms by (simp add: parse_elems.simps)

lemma parse_elems_cons:
  assumes "parse_value d s = Some (v, CHR '','' # t)" "length t < length s"
    and "parse_elems d t = Some (vs, r)"
  shows "parse_elems d s = Some (v # vs, r)"
  using assms by (simp add: parse_elems.simps [of d s])

lemma parse_members_single:
  assumes "raw_ok k" "parse_value d s = Some (v, CHR ''}'' # r)"
  shows "parse_members d (dquote # k @ dquote # CHR '':'' # s) = Some ([(k, v)], r)"
  using assms by (simp add: parse_members.simps scan_raw_ok del: scan_string.simps)

lemma parse_members_cons:
  assumes "raw_ok k" "parse_value d s = Some (v, CHR '','' # t)" "length t < length s"
    and "parse_members d t = Some (ms, r)"
  shows "parse_members d (dquote # k @ dquote # CHR '':'' # s) = Some ((k, v) # ms, r)"
  using assms
  by (simp add: parse_members.simps [of d "dquote # k @ dquote # CHR '':'' # s"] scan_raw_ok
      del: scan_string.simps)

theorem parse_print:
  "wf_json d v \<Longrightarrow> delim r \<Longrightarrow> parse_value d (print_json v @ r) = Some (v, r)"
  and "\<forall>v \<in> set vs. wf_json d v \<Longrightarrow> vs \<noteq> [] \<Longrightarrow>
       parse_elems d (print_elems vs @ CHR '']'' # r) = Some (vs, r)"
  and "\<forall>m \<in> set ms. raw_ok (fst m) \<and> wf_json d (snd m) \<Longrightarrow> ms \<noteq> [] \<Longrightarrow>
       parse_members d (print_members ms @ CHR ''}'' # r) = Some (ms, r)"
proof (induction v and vs and ms arbitrary: d r and d r and d r
    rule: print_json_print_elems_print_members.induct)
  case (6 vs)
  show ?case
  proof (cases vs)
    case Nil
    with 6 show ?thesis by (simp add: parse_value.simps)
  next
    case (Cons v vs')
    with 6 obtain d' where d: "d = Suc d'" by (cases d) auto
    have P: "parse_elems d' (print_elems vs @ CHR '']'' # r) = Some (vs, r)"
      using "6.IH" [of d' r] "6.prems" Cons d by simp
    obtain c cs where "print_json v = c # cs" "\<not> is_ws c" "c \<noteq> CHR '']''"
      using print_json_head [of d' v] "6.prems" Cons d by auto
    then have "\<exists>t. print_elems vs = c # t" using Cons by (cases vs') auto
    with P \<open>\<not> is_ws c\<close> \<open>c \<noteq> CHR '']''\<close> show ?thesis
      by (auto simp: d parse_value_arr)
  qed
next
  case (7 ms)
  show ?case
  proof (cases ms)
    case Nil
    with 7 show ?thesis by (simp add: parse_value.simps)
  next
    case (Cons m ms')
    with 7 obtain d' where d: "d = Suc d'" by (cases d) auto
    have P: "parse_members d' (print_members ms @ CHR ''}'' # r) = Some (ms, r)"
      using "7.IH" [of d' r] "7.prems" Cons d by simp
    have "\<exists>t. print_members ms = dquote # t" using Cons by (cases m; cases ms') auto
    with P show ?thesis by (auto simp: d parse_value_obj)
  qed
next
  case (9 v)
  then show ?case by (simp add: parse_elems_single)
next
  case (10 v w vs)
  then show ?case by (simp add: parse_elems_cons)
next
  case (12 k v)
  then show ?case by (simp add: parse_members_single)
next
  case (13 k v m ms)
  then show ?case by (simp add: parse_members_cons)
qed (simp_all add: parse_value_literals [simplified] parse_value_num parse_value_str)

corollary parse_document_print:
  "wf_json maxNestingDepth v \<Longrightarrow> parse_document (print_json v) = Some v"
  using parse_print(1) [of maxNestingDepth v "[]"] by (simp add: parse_document_def delim_def)

section \<open>The parser consumes its input\<close>

lemma scan_string_length: "scan_string s = Some (b, r) \<Longrightarrow> length r < length s"
  by (induction s arbitrary: b r rule: scan_string.induct) (auto split: if_splits list.splits, fastforce+)

lemma scan_int_length: "scan_int s = Some (i, r) \<Longrightarrow> length r < length s"
  by (auto simp: scan_int_def length_dropWhile_le le_imp_less_Suc split: list.splits if_splits)

lemma scan_frac_length: "scan_frac s = Some (i, r) \<Longrightarrow> length r \<le> length s"
  by (auto simp: scan_frac_def length_dropWhile_le le_SucI split: list.splits if_splits)

lemma scan_exp_length: "scan_exp s = Some (i, r) \<Longrightarrow> length r \<le> length s"
  by (auto simp: scan_exp_def take_sign_def Let_def length_dropWhile_le le_SucI split: list.splits if_splits)

lemma scan_number_length: "scan_number s = Some (n, r) \<Longrightarrow> length r < length s"
  by (auto simp: scan_number_def Let_def split: list.splits if_splits option.splits
      dest!: scan_int_length scan_frac_length scan_exp_length)

definition shrinks :: "string \<Rightarrow> bool" where
  "shrinks s \<longleftrightarrow> (\<forall>d v r. parse_value d s = Some (v, r) \<longrightarrow> length r < length s) \<and>
     (\<forall>d v r. parse_elems d s = Some (v, r) \<longrightarrow> length r < length s) \<and>
     (\<forall>d v r. parse_members d s = Some (v, r) \<longrightarrow> length r < length s)"

lemma shrinks_all: "shrinks s"
proof (induction s rule: length_induct)
  case (1 s)
  then have IH: "\<And>t. length t < length s \<Longrightarrow> shrinks t" by blast
  have v: "length r < length s" if "parse_value d s = Some (v, r)" for d v r
  proof (cases "skip_ws s")
    case Nil
    with that show ?thesis by (simp add: parse_value.simps)
  next
    case (Cons c cs)
    note sc = skip_ws_Cons_length [OF Cons]
    have l: "length (skip_ws cs) < length s" using sc skip_ws_length [of cs] by simp
    have se: "length r' < length s" if "parse_elems d' (skip_ws cs) = Some (v', r')" for d' v' r'
      using IH [OF l] that l less_trans unfolding shrinks_def by blast
    have sm: "length r' < length s" if "parse_members d' (skip_ws cs) = Some (v', r')" for d' v' r'
      using IH [OF l] that l less_trans unfolding shrinks_def by blast
    show ?thesis
    proof (cases "skip_ws cs")
      case Nil
      with that Cons sc show ?thesis
        by (subst (asm) parse_value.simps)
           (auto split: if_splits simp del: dropWhile_eq_Nil_conv
             dest!: scan_string_length scan_number_length)
    next
      case (Cons e es)
      with that \<open>skip_ws s = c # cs\<close> sc l show ?thesis
        by (subst (asm) parse_value.simps)
           (auto split: if_splits simp del: dropWhile_eq_Nil_conv
             dest!: scan_string_length scan_number_length
               se [unfolded Cons] sm [unfolded Cons])
    qed
  qed
  have IHe: "length t < length s \<longrightarrow> length r' < length s" if "parse_elems d' t = Some (v', r')" for d' t v' r'
    using IH [of t] that less_trans unfolding shrinks_def by blast
  have IHm: "length t < length s \<longrightarrow> length r' < length s" if "parse_members d' t = Some (v', r')" for d' t v' r'
    using IH [of t] that less_trans unfolding shrinks_def by blast
  have IHv: "length t < length s \<longrightarrow> length r' < length s" if "parse_value d' t = Some (v', r')" for d' t v' r'
    using IH [of t] that less_trans unfolding shrinks_def by blast
  have e: "length r < length s" if "parse_elems d s = Some (v, r)" for d v r
    using that
    by (subst (asm) parse_elems.simps)
       (auto split: list.splits if_splits option.splits dest!: v IHe skip_ws_Cons_length)
  have m: "length r < length s" if "parse_members d s = Some (v, r)" for d v r
    using that
    by (subst (asm) parse_members.simps)
       (auto split: list.splits if_splits option.splits
         dest!: skip_ws_Cons_length scan_string_length IHm IHv)
  show ?case unfolding shrinks_def using v e m by blast
qed

lemma parse_value_length: "parse_value d s = Some (v, r) \<Longrightarrow> length r < length s"
  using shrinks_all [of s] unfolding shrinks_def by blast

section \<open>What the parser and \<open>unquote\<close> deliver\<close>

text \<open>An unquoted string is valid UTF-8, whatever bytes it is read from.\<close>

lemma rune_len_encode: "rune_len (encode_rune r) = length (encode_rune r) \<and> encode_rune r \<noteq> []"
proof -
  have b: "r mod 64 \<le> 63" "r div 64 mod 64 \<le> 63" "r div 4096 mod 64 \<le> 63"
    using mod_less_divisor [of 64 r] mod_less_divisor [of 64 "r div 64"] mod_less_divisor [of 64 "r div 4096"] by linarith+
  consider "r < 0x80" | "0x80 \<le> r" "r < 0x800" | "0x800 \<le> r" "(0xD800 \<le> r \<and> r \<le> 0xDFFF) \<or> 0x10FFFF < r"
    | "0x800 \<le> r" "r < 0x10000" "\<not> (0xD800 \<le> r \<and> r \<le> 0xDFFF)" | "0x10000 \<le> r" "r \<le> 0x10FFFF" by linarith
  then show ?thesis
  proof cases
    case 2
    then have "2 \<le> r div 64" "r div 64 < 32" by (simp_all add: less_mult_imp_div_less div_le_mono [of 128 r 64, simplified])
    with 2 b show ?thesis by (simp add: encode_rune_def rune_len_def ok2_def in_range_def)
  next
    case 3
    then show ?thesis by (auto simp: encode_rune_def rune_len_def ok2_def ok3_def in_range_def)
  next
    case 4
    have d: "r div 4096 < 16" using 4 by (simp add: less_mult_imp_div_less)
    have e0: "32 \<le> r div 64 mod 64" if "r div 4096 = 0"
    proof -
      have "r div 64 div 64 = 0" using that by (simp add: div_mult2_eq [symmetric])
      then have "r div 64 mod 64 = r div 64" by (metis mod_less div_eq_0_iff zero_neq_numeral)
      with 4 show ?thesis using div_le_mono [of 2048 r 64] by simp
    qed
    have ed: "r div 64 mod 64 \<le> 31" if "r div 4096 = 13"
    proof (rule ccontr)
      assume "\<not> r div 64 mod 64 \<le> 31"
      moreover have "r div 64 = 64 * (r div 64 div 64) + r div 64 mod 64" by simp
      moreover have "r div 64 div 64 = 13" using that by (simp add: div_mult2_eq [symmetric])
      ultimately have "864 \<le> r div 64" by linarith
      then have "55296 \<le> r" by (simp add: less_eq_div_iff_mult_less_eq)
      moreover have "r < 57344" using that by (simp add: div_less_iff_less_mult [symmetric])
      ultimately show False using 4 by simp
    qed
    from 4 b d e0 ed show ?thesis by (simp add: encode_rune_def rune_len_def ok2_def ok3_def in_range_def)
  next
    case 5
    have d: "r div 262144 < 5" using 5 by (simp add: less_mult_imp_div_less)
    have f0: "16 \<le> r div 4096 mod 64" if "r div 262144 = 0"
    proof -
      have "r div 4096 div 64 = 0" using that by (simp add: div_mult2_eq [symmetric])
      then have "r div 4096 mod 64 = r div 4096" by (metis mod_less div_eq_0_iff zero_neq_numeral)
      with 5 show ?thesis using div_le_mono [of 65536 r 4096] by simp
    qed
    have f4: "r div 4096 mod 64 \<le> 15" if "r div 262144 = 4"
    proof (rule ccontr)
      assume "\<not> r div 4096 mod 64 \<le> 15"
      moreover have "r div 4096 = 64 * (r div 4096 div 64) + r div 4096 mod 64" by simp
      moreover have "r div 4096 div 64 = 4" using that by (simp add: div_mult2_eq [symmetric])
      ultimately have "272 \<le> r div 4096" by linarith
      then have "1114112 \<le> r" by (simp add: less_eq_div_iff_mult_less_eq)
      with 5 show False by simp
    qed
    from 5 b d f0 f4 show ?thesis by (simp add: encode_rune_def rune_len_def ok2_def ok3_def ok4_def in_range_def)
  qed (simp_all add: encode_rune_def)
qed

lemma valid_encode: "valid_utf8 (encode_rune r @ t) \<longleftrightarrow> valid_utf8 t"
  using rune_len_encode by (intro valid_utf8_chunk) auto

lemma valid_replacement: "valid_utf8 (replacement @ t) \<longleftrightarrow> valid_utf8 t"
  by (rule valid_utf8_chunk) (simp_all add: replacement_def rune_len_def ok2_def ok3_def in_range_def)

lemma simple_escape_ascii: "simple_escape e = Some d \<Longrightarrow> byte d < 128"
  by (auto simp: simple_escape_def split: if_splits)

lemma valid_rune: "0 < rune_len s \<Longrightarrow> valid_utf8 (take (rune_len s) s @ t) \<longleftrightarrow> valid_utf8 t"
  using rune_len_take [of s] rune_len_le [of s] by (intro valid_utf8_chunk) (auto simp: min_def)

lemma unquote_valid: "unquote s = Some t \<Longrightarrow> valid_utf8 t"
proof (induction s arbitrary: t rule: length_induct)
  case (1 s)
  then have IH: "\<And>u v. \<lbrakk>unquote u = Some v; length u < length s\<rbrakk> \<Longrightarrow> valid_utf8 v" by blast
  show ?case
  proof (cases s)
    case (Cons c cs)
    then have IH: "\<And>u v. \<lbrakk>unquote u = Some v; length u < length (c # cs)\<rbrakk> \<Longrightarrow> valid_utf8 v" using IH by simp
    from 1(2) Cons show ?thesis
      by (subst (asm) Cons, subst (asm) unquote.simps)
         (auto simp: Let_def valid_encode valid_replacement valid_rune simple_escape_ascii dest: IH
           split: if_splits list.splits option.splits)
  qed (use 1(2) in simp)
qed

text \<open>The trees of the parser: number tokens, and nesting within the bound.\<close>

definition number_token :: "string \<Rightarrow> bool" where
  "number_token n \<longleftrightarrow> (\<exists>s r. scan_number s = Some (n, r))"

fun nested :: "nat \<Rightarrow> json \<Rightarrow> bool" where
  "nested d (JNum n) \<longleftrightarrow> number_token n"
|   "nested d (JArr vs) \<longleftrightarrow> 0 < d \<and> (\<forall>v \<in> set vs. nested (d - 1) v)"
| "nested d (JObj ms) \<longleftrightarrow> 0 < d \<and> (\<forall>m \<in> set ms. nested (d - 1) (snd m))"
| "nested d _ \<longleftrightarrow> True"

lemma number_tokenI: "scan_number s = Some (n, r) \<Longrightarrow> number_token n"
  by (auto simp: number_token_def)

definition nests :: "string \<Rightarrow> bool" where
  "nests s \<longleftrightarrow> (\<forall>d v r. parse_value d s = Some (v, r) \<longrightarrow> nested d v) \<and>
     (\<forall>d vs r. parse_elems d s = Some (vs, r) \<longrightarrow> (\<forall>v\<in>set vs. nested d v)) \<and>
     (\<forall>d ms r. parse_members d s = Some (ms, r) \<longrightarrow> (\<forall>m\<in>set ms. nested d (snd m)))"

lemma nests_all: "nests s"
proof (induction s rule: length_induct)
  case (1 s)
  then have IH: "\<And>t. length t < length s \<Longrightarrow> nests t" by blast
  have IHe: "length t < length s \<longrightarrow> (\<forall>v\<in>set vs. nested d v)" if "parse_elems d t = Some (vs, r)" for d t vs r
    using IH [of t] that unfolding nests_def by blast
  have IHm: "length t < length s \<longrightarrow> (\<forall>m\<in>set ms. nested d (snd m))" if "parse_members d t = Some (ms, r)" for d t ms r
    using IH [of t] that unfolding nests_def by blast
  have IHv: "length t < length s \<longrightarrow> nested d v" if "parse_value d t = Some (v, r)" for d t v r
    using IH [of t] that unfolding nests_def by blast
  have v: "nested d v" if "parse_value d s = Some (v, r)" for d v r
  proof (cases "skip_ws s")
    case Nil
    with that show ?thesis by (simp add: parse_value.simps)
  next
    case (Cons c cs)
    note sc = skip_ws_Cons_length [OF Cons]
    have l: "length (skip_ws cs) < length s" using sc skip_ws_length [of cs] by simp
    show ?thesis
    proof (cases "skip_ws cs")
      case Nil
      with that Cons sc show ?thesis
        by (subst (asm) parse_value.simps) (auto split: if_splits simp del: dropWhile_eq_Nil_conv dest: number_tokenI)
    next
      case (Cons e es)
      with that \<open>skip_ws s = c # cs\<close> l show ?thesis
        by (subst (asm) parse_value.simps) (auto split: if_splits simp del: dropWhile_eq_Nil_conv dest: number_tokenI dest!: IHe IHm)
    qed
  qed
  have e: "\<forall>v\<in>set vs. nested d v" if "parse_elems d s = Some (vs, r)" for d vs r
    using that by (subst (asm) parse_elems.simps)
      (auto split: list.splits if_splits option.splits dest!: v IHe)
  have m: "\<forall>m\<in>set ms. nested d (snd m)" if "parse_members d s = Some (ms, r)" for d ms r
    using that by (subst (asm) parse_members.simps)
      (fastforce split: list.splits if_splits option.splits dest!: IHm IHv)
  show ?case unfolding nests_def using v e m by blast
qed

lemma parse_nested: "parse_value d s = Some (v, r) \<Longrightarrow> nested d v"
  using nests_all [of s] unfolding nests_def by blast

text \<open>More nesting is only more permissive: a text that is parsed within a bound is parsed to the same tree within a larger one.\<close>

definition deepens :: "string \<Rightarrow> bool" where
  "deepens s \<longleftrightarrow> (\<forall>d x. parse_value d s = Some x \<longrightarrow> parse_value (Suc d) s = Some x) \<and>
     (\<forall>d x. parse_elems d s = Some x \<longrightarrow> parse_elems (Suc d) s = Some x) \<and>
     (\<forall>d x. parse_members d s = Some x \<longrightarrow> parse_members (Suc d) s = Some x)"

lemma deepens_all: "deepens s"
proof (induction s rule: length_induct)
  case (1 s)
  then have IH: "\<And>t. length t < length s \<Longrightarrow> deepens t" by blast
  have IHe: "length t < length s \<longrightarrow> parse_elems (Suc d) t = Some x" if "parse_elems d t = Some x" for d t x
    using IH [of t] that unfolding deepens_def by blast
  have IHm: "length t < length s \<longrightarrow> parse_members (Suc d) t = Some x" if "parse_members d t = Some x" for d t x
    using IH [of t] that unfolding deepens_def by blast
  have IHv: "length t < length s \<longrightarrow> parse_value (Suc d) t = Some x" if "parse_value d t = Some x" for d t x
    using IH [of t] that unfolding deepens_def by blast
  have v: "parse_value (Suc d) s = Some x" if p: "parse_value d s = Some x" for d x
  proof (cases "skip_ws s")
    case Nil
    with p show ?thesis by (simp add: parse_value.simps)
  next
    case (Cons c cs)
    note sc = Cons and l = skip_ws_Cons_length [OF Cons]
    have l: "length (skip_ws cs) < length s" using l skip_ws_length [of cs] by simp
    show ?thesis
    proof (cases "c \<in> {CHR ''{'', CHR ''[''}")
      case False
      with p sc show ?thesis by (subst (asm) parse_value.simps, subst parse_value.simps) simp
    next
      case True
      with p sc obtain d' where d: "d = Suc d'" by (cases d) (auto simp: parse_value.simps)
      show ?thesis
      proof (cases "skip_ws cs")
        case Nil
        with p sc True d show ?thesis
          by (subst (asm) parse_value.simps, subst parse_value.simps) (auto split: if_splits simp del: dropWhile_eq_Nil_conv)
      next
        case (Cons e es)
        with p sc True l d IHe [of d' "e # es"] IHm [of d' "e # es"] show ?thesis
          by (subst (asm) parse_value.simps, subst parse_value.simps)
            (auto split: if_splits simp del: parse_elems.simps parse_members.simps)
      qed
    qed
  qed
  have e: "parse_elems (Suc d) s = Some x" if p: "parse_elems d s = Some x" for d x
  proof -
    from p obtain w r where w: "parse_value d s = Some (w, r)" by (auto simp: parse_elems.simps [of d s] split: option.splits)
    show ?thesis using p w v [OF w] IHe
      by (subst (asm) parse_elems.simps, subst parse_elems.simps) (auto split: list.splits if_splits simp del: parse_value.simps parse_elems.simps dropWhile_eq_Nil_conv)
  qed
  have m: "parse_members (Suc d) s = Some x" if p: "parse_members d s = Some x" for d x
  proof -
    note [simp del] = parse_value.simps parse_elems.simps parse_members.simps dropWhile_eq_Nil_conv
    from p obtain qs k r0 r1 w r2 where
      h: "skip_ws s = dquote # qs" "scan_string qs = Some (k, r0)" "skip_ws r0 = CHR '':'' # r1" "length r1 < length s"
        "parse_value d r1 = Some (w, r2)"
      by (subst (asm) parse_members.simps) (auto split: list.splits if_splits option.splits)
    have "parse_value (Suc d) r1 = Some (w, r2)" using IHv [OF h(5)] h(4) by simp
    with p h IHm show ?thesis
      by (subst (asm) parse_members.simps, subst parse_members.simps) (auto split: list.splits if_splits)
  qed
  show ?case unfolding deepens_def using v e m by blast
qed

lemma parse_deeper: "parse_value d s = Some x \<Longrightarrow> parse_value (d + k) s = Some x"
proof (induction k)
  case (Suc k)
  then show ?case using deepens_all [of s] unfolding deepens_def add_Suc_right by blast
qed simp

end
