(* ===== verification/Go_Float.thy ===== *)
theory Go_Float
  imports Complex_Main Go_Prelude
begin

text \<open>
  Go's \<open>float64\<close>: IEEE 754 binary64 with round to nearest, ties to even. A finite value is
  carried as the rational it denotes; every operation computes the exact rational result and
  rounds it once (\<open>round64\<close>), with gradual underflow and overflow to infinity. The sign of zero
  is not kept: no computation of the services divides by a zero obtained from a negative value.
  The lemmas show that rounding is monotone and exact on small integers, which is what the
  throttler's threshold comparisons rest on.
\<close>

section \<open>Rounding to the nearest representable value\<close>

datatype float64 = Fin rat | PInf | NInf | NaN

definition round_half_even :: "rat \<Rightarrow> int" where
  "round_half_even x =
     (let f = \<lfloor>x\<rfloor>; d = x - of_int f
      in if d < 1 / 2 then f else if d > 1 / 2 then f + 1 else if even f then f else f + 1)"

lemma round_half_even_of_int [simp]: "round_half_even (of_int n) = n"
  by (simp add: round_half_even_def)

lemma round_half_even_bounds: "\<lfloor>x\<rfloor> \<le> round_half_even x" "round_half_even x \<le> \<lfloor>x\<rfloor> + 1"
  by (simp_all add: round_half_even_def Let_def)

lemma round_half_even_mono:
  assumes "x \<le> y" shows "round_half_even x \<le> round_half_even y"
proof (cases "\<lfloor>x\<rfloor> = \<lfloor>y\<rfloor>")
  case True
  with assms show ?thesis by (auto simp: round_half_even_def Let_def)
next
  case False
  from assms have "\<lfloor>x\<rfloor> \<le> \<lfloor>y\<rfloor>" by (rule floor_mono)
  with False have "\<lfloor>x\<rfloor> + 1 \<le> \<lfloor>y\<rfloor>" by simp
  with round_half_even_bounds(2) [of x] round_half_even_bounds(1) [of y] show ?thesis by linarith
qed

lemma round_half_even_ge: "of_int n \<le> x \<Longrightarrow> n \<le> round_half_even x"
  using round_half_even_mono [of "of_int n" x] by simp

lemma round_half_even_le: "x \<le> of_int n \<Longrightarrow> round_half_even x \<le> n"
  using round_half_even_mono [of x "of_int n"] by simp

text \<open>The number of bits of a natural number and the binary exponent of a positive rational.\<close>

fun bit_len :: "nat \<Rightarrow> nat" where
  "bit_len n = (if n = 0 then 0 else Suc (bit_len (n div 2)))"

declare bit_len.simps [simp del]

lemma bit_len_bounds:
  assumes "0 < n" shows "2 ^ (bit_len n - 1) \<le> n \<and> n < 2 ^ bit_len n \<and> 0 < bit_len n"
  using assms
proof (induction n rule: bit_len.induct)
  case (1 n)
  show ?case
  proof (cases "n div 2 = 0")
    case True
    with 1 have "n = 1" by auto
    then show ?thesis by (simp add: bit_len.simps)
  next
    case False
    with 1 have IH: "2 ^ (bit_len (n div 2) - 1) \<le> n div 2"
      "n div 2 < 2 ^ bit_len (n div 2)" "0 < bit_len (n div 2)" by auto
    have "bit_len n = Suc (bit_len (n div 2))" using 1 by (subst bit_len.simps) simp
    moreover have "(2::nat) ^ bit_len (n div 2) = 2 * 2 ^ (bit_len (n div 2) - 1)"
      using IH(3) by (simp add: power_eq_if)
    moreover have "2 * (n div 2) \<le> n" "n < 2 * (n div 2) + 2" by presburger+
    then have "2 * 2 ^ (bit_len (n div 2) - 1) \<le> n" "n < 2 * 2 ^ bit_len (n div 2)"
      using IH by linarith+
    ultimately show ?thesis by simp
  qed
qed

definition exponent :: "rat \<Rightarrow> int" where
  "exponent x =
     (let (p, q) = quotient_of x; k = int (bit_len (nat p)) - int (bit_len (nat q))
      in if power_int 2 k \<le> x then k else k - 1)"

abbreviation pow2 :: "int \<Rightarrow> rat" where
  "pow2 k \<equiv> power_int 2 k"

lemma pow2_pos [simp]: "0 < pow2 k"
  by (simp add: zero_less_power_int)

lemma pow2_mono: "i \<le> j \<Longrightarrow> pow2 i \<le> pow2 j"
  by (simp add: power_int_increasing)

lemma pow2_add: "pow2 (i + j) = pow2 i * pow2 j"
  by (simp add: power_int_add)

lemma pow2_div_int:
  assumes "i \<le> j" shows "\<exists>n::int. pow2 j / pow2 i = of_int n"
proof -
  have "pow2 j / pow2 i = pow2 (j - i)" by (simp add: power_int_diff)
  also have "\<dots> = of_int (2 ^ nat (j - i))" using assms by (simp add: power_int_def)
  finally show ?thesis by blast
qed

lemma exponent_spec:
  assumes "0 < x" shows "pow2 (exponent x) \<le> x \<and> x < pow2 (exponent x + 1)"
proof -
  obtain p q where pq: "quotient_of x = (p, q)" by (cases "quotient_of x")
  then have q: "0 < q" and x: "x = of_int p / of_int q"
    by (simp_all add: quotient_of_denom_pos quotient_of_div)
  with assms have p: "0 < p" by (simp add: zero_less_divide_iff)
  define bp bq where "bp = bit_len (nat p)" and "bq = bit_len (nat q)"
  have pow: "of_nat (2 ^ n) = pow2 (int n)" for n by simp
  have ge: "pow2 (int b - 1) \<le> of_int m" and lt: "of_int m < pow2 (int b)"
    if "0 < m" "b = bit_len (nat m)" for m b
  proof -
    from that bit_len_bounds [of "nat m"] have B: "2 ^ (b - 1) \<le> nat m" "nat m < 2 ^ b" "0 < b"
      by auto
    from B(1) have "of_nat (2 ^ (b - 1)) \<le> (of_nat (nat m) :: rat)" by (simp only: of_nat_le_iff)
    with B(3) that show "pow2 (int b - 1) \<le> of_int m"
      by (simp only: pow) (simp add: of_nat_diff)
    from B(2) have "(of_nat (nat m) :: rat) < of_nat (2 ^ b)" by (simp only: of_nat_less_iff)
    with that show "of_int m < pow2 (int b)" by simp
  qed
  have P: "pow2 (int bp - 1) \<le> of_int p" "of_int p < pow2 (int bp)"
    using ge [OF p] lt [OF p] by (simp_all add: bp_def)
  have Q: "pow2 (int bq - 1) \<le> of_int q" "of_int q < pow2 (int bq)"
    using ge [OF q] lt [OF q] by (simp_all add: bq_def)
  have up: "x < pow2 (int bp - int bq + 1)"
  proof -
    have "of_int p < pow2 (int bp - int bq + 1) * pow2 (int bq - 1)"
      using P(2) by (simp flip: pow2_add)
    also have "\<dots> \<le> pow2 (int bp - int bq + 1) * of_int q"
      using Q(1) by (intro mult_left_mono) (simp_all add: less_imp_le)
    finally show ?thesis using q by (simp add: x pos_divide_less_eq)
  qed
  have lo: "pow2 (int bp - int bq - 1) \<le> x"
  proof -
    have "pow2 (int bp - int bq - 1) * of_int q \<le> pow2 (int bp - int bq - 1) * pow2 (int bq)"
      using Q(2) by (intro mult_left_mono) (simp_all add: less_imp_le)
    also have "\<dots> = pow2 (int bp - 1)" by (subst pow2_add [symmetric]) simp
    also have "\<dots> \<le> of_int p" by (rule P(1))
    finally show ?thesis using q by (simp add: x pos_le_divide_eq)
  qed
  show ?thesis using up lo
    by (simp add: exponent_def pq Let_def flip: bp_def bq_def)
qed

lemma exponent_mono:
  assumes "0 < x" "x \<le> y" shows "exponent x \<le> exponent y"
proof (rule ccontr)
  assume "\<not> ?thesis"
  then have "exponent y + 1 \<le> exponent x" by simp
  then have "pow2 (exponent y + 1) \<le> pow2 (exponent x)" by (rule pow2_mono)
  with exponent_spec [of x] exponent_spec [of y] assms show False by linarith
qed

text \<open>
  The quantum (weight of the last significand bit) and the rounding of a positive value.
  A rounded magnitude of \<open>2 ^ 1024\<close> or more, that is of exponent 1024 or more, overflows.
\<close>

definition quantum :: "rat \<Rightarrow> int" where
  "quantum x = max (exponent x - 52) (- 1074)"

definition round_pos :: "rat \<Rightarrow> rat" where
  "round_pos x = pow2 (quantum x) * of_int (round_half_even (x / pow2 (quantum x)))"

definition round64 :: "rat \<Rightarrow> float64" where
  "round64 x =
     (if x = 0 then Fin 0
      else let r = round_pos \<bar>x\<bar>
           in if exponent r \<ge> 1024 then (if x < 0 then NInf else PInf)
              else Fin (if x < 0 then - r else r))"

lemma round_pos_ge:
  assumes "pow2 k \<le> x" and "quantum x \<le> k" shows "pow2 k \<le> round_pos x"
proof -
  obtain n where n: "pow2 k / pow2 (quantum x) = of_int n" using pow2_div_int [OF assms(2)] by blast
  have "of_int n \<le> x / pow2 (quantum x)" using assms(1)
    by (simp add: n [symmetric] divide_right_mono less_imp_le)
  then have "of_int n \<le> (of_int (round_half_even (x / pow2 (quantum x))) :: rat)"
    by (simp add: round_half_even_ge)
  moreover have "pow2 k = pow2 (quantum x) * of_int n" by (simp flip: n)
  ultimately show ?thesis by (simp add: round_pos_def)
qed

lemma round_pos_le:
  assumes "x \<le> pow2 k" and "quantum x \<le> k" shows "round_pos x \<le> pow2 k"
proof -
  obtain n where n: "pow2 k / pow2 (quantum x) = of_int n" using pow2_div_int [OF assms(2)] by blast
  have "x / pow2 (quantum x) \<le> of_int n" using assms(1)
    by (simp add: n [symmetric] divide_right_mono less_imp_le)
  then have "(of_int (round_half_even (x / pow2 (quantum x))) :: rat) \<le> of_int n"
    by (simp add: round_half_even_le)
  moreover have "pow2 k = pow2 (quantum x) * of_int n" by (simp flip: n)
  ultimately show ?thesis by (simp add: round_pos_def)
qed

lemma round_pos_mono:
  assumes "0 < x" "x \<le> y" shows "round_pos x \<le> round_pos y"
proof (cases "quantum x = quantum y")
  case True
  have "x / pow2 (quantum y) \<le> y / pow2 (quantum y)"
    using assms by (simp add: divide_right_mono less_imp_le)
  with True show ?thesis
    by (simp add: round_pos_def round_half_even_mono)
next
  case False
  from assms have le: "exponent x \<le> exponent y" by (rule exponent_mono)
  with False have q: "quantum x < quantum y" "quantum y \<le> exponent y" "exponent x + 1 \<le> exponent y"
    by (auto simp: quantum_def max_def split: if_splits)
  have "x \<le> pow2 (exponent x + 1)" using exponent_spec [of x] assms by simp
  also have "\<dots> \<le> pow2 (exponent y)" using q(3) by (rule pow2_mono)
  finally have "round_pos x \<le> pow2 (exponent y)" using q by (intro round_pos_le) simp_all
  also have "\<dots> \<le> round_pos y"
    using exponent_spec [of y] assms q by (intro round_pos_ge) simp_all
  finally show ?thesis .
qed

lemma round_pos_nonneg: "0 < x \<Longrightarrow> 0 \<le> round_pos x"
  using round_half_even_ge [of 0 "x / pow2 (quantum x)"] by (simp add: round_pos_def less_imp_le)

section \<open>Comparison and arithmetic\<close>

text \<open>Comparisons are false as soon as one side is NaN.\<close>

fun fless :: "float64 \<Rightarrow> float64 \<Rightarrow> bool" where
  "fless (Fin a) (Fin b) \<longleftrightarrow> a < b"
| "fless (Fin a) PInf \<longleftrightarrow> True"
| "fless NInf (Fin b) \<longleftrightarrow> True"
| "fless NInf PInf \<longleftrightarrow> True"
| "fless _ _ \<longleftrightarrow> False"

fun fleq :: "float64 \<Rightarrow> float64 \<Rightarrow> bool" where
  "fleq NaN b \<longleftrightarrow> False"
| "fleq a NaN \<longleftrightarrow> False"
| "fleq a b \<longleftrightarrow> fless a b \<or> a = b"

fun fneg :: "float64 \<Rightarrow> float64" where
  "fneg (Fin a) = Fin (- a)"
| "fneg PInf = NInf"
| "fneg NInf = PInf"
| "fneg NaN = NaN"

text \<open>\<open>float64(i)\<close>, multiplication and division.\<close>

definition f_of_int :: "int \<Rightarrow> float64" where
  "f_of_int i = round64 (of_int i)"

fun fsign :: "float64 \<Rightarrow> int" where
  "fsign (Fin a) = (if 0 < a then 1 else if a < 0 then -1 else 0)"
| "fsign PInf = 1"
| "fsign NInf = -1"
| "fsign NaN = 0"

definition finf :: "int \<Rightarrow> float64" where
  "finf sg = (if 0 < sg then PInf else if sg < 0 then NInf else NaN)"

fun fmul :: "float64 \<Rightarrow> float64 \<Rightarrow> float64" where
  "fmul (Fin a) (Fin b) = round64 (a * b)"
| "fmul NaN b = NaN"
| "fmul a NaN = NaN"
| "fmul a b = finf (fsign a * fsign b)"

fun fdiv :: "float64 \<Rightarrow> float64 \<Rightarrow> float64" where
  "fdiv (Fin a) (Fin b) = (if b = 0 then finf (fsign (Fin a)) else round64 (a / b))"
| "fdiv NaN b = NaN"
| "fdiv a NaN = NaN"
| "fdiv (Fin a) _ = Fin 0"
| "fdiv a (Fin b) = finf (fsign a * (if b < 0 then -1 else 1))"
| "fdiv a b = NaN"

text \<open>
  Conversion of a float to \<open>int64\<close> truncates towards zero. Out of range (and for NaN) the
  language leaves the result to the implementation: \<open>impl\<close> is what this one returns.
\<close>

definition trunc_rat :: "rat \<Rightarrow> int" where
  "trunc_rat r = (if r < 0 then - \<lfloor>- r\<rfloor> else \<lfloor>r\<rfloor>)"

definition int64_of_float :: "(float64 \<Rightarrow> int64) \<Rightarrow> float64 \<Rightarrow> int64" where
  "int64_of_float impl x =
     (case x of Fin r \<Rightarrow> if in64 (trunc_rat r) then trunc_rat r else impl x | _ \<Rightarrow> impl x)"

text \<open>Addition and subtraction; every operation rounds once (products are not fused into sums).\<close>

fun fadd :: "float64 \<Rightarrow> float64 \<Rightarrow> float64" where
  "fadd (Fin a) (Fin b) = round64 (a + b)"
| "fadd NaN b = NaN"
| "fadd a NaN = NaN"
| "fadd (Fin a) b = b"
| "fadd a (Fin b) = a"
| "fadd a b = (if a = b then a else NaN)"

definition fsub :: "float64 \<Rightarrow> float64 \<Rightarrow> float64" where
  "fsub a b = fadd a (fneg b)"

section \<open>Order facts\<close>

lemma fless_irrefl [simp]: "\<not> fless a a"
  by (cases a) simp_all

lemma fless_trans: "fless a b \<Longrightarrow> fless b c \<Longrightarrow> fless a c"
  by (cases a; cases b; cases c) auto

lemma fless_fleq_trans: "fless a b \<Longrightarrow> fleq b c \<Longrightarrow> fless a c"
  by (cases a; cases b; cases c) auto

lemma fleq_fless_trans: "fleq a b \<Longrightarrow> fless b c \<Longrightarrow> fless a c"
  by (cases a; cases b; cases c) auto

lemma fleq_trans: "fleq a b \<Longrightarrow> fleq b c \<Longrightarrow> fleq a c"
  by (cases a; cases b; cases c) auto

lemma fleq_refl_iff [simp]: "fleq a a \<longleftrightarrow> a \<noteq> NaN"
  by (cases a) simp_all

lemma round64_not_NaN [simp]: "round64 x \<noteq> NaN"
  by (simp add: round64_def Let_def)

lemma overflow_mono: "r \<le> r' \<Longrightarrow> 1024 \<le> exponent r \<Longrightarrow> 1024 \<le> exponent r'" if "0 \<le> r" for r r'
proof (cases "r = 0")
  case True
  moreover assume "1024 \<le> exponent r"
  moreover have "exponent 0 < 1024" by (simp add: exponent_def bit_len.simps [of 0] bit_len.simps [of "Suc 0"])
  ultimately show ?thesis by simp
next
  case False
  moreover assume "r \<le> r'" "1024 \<le> exponent r"
  ultimately show ?thesis using exponent_mono [of r r'] that by simp
qed

lemma round64_mono:
  assumes "x \<le> y" shows "fleq (round64 x) (round64 y)"
proof -
  consider "0 < x" | "y < 0" | "x \<le> 0" "0 \<le> y" by linarith
  then show ?thesis
  proof cases
    case 1
    with assms have le: "round_pos x \<le> round_pos y" and "0 < y" by (simp_all add: round_pos_mono)
    with 1 overflow_mono [OF _ le] round_pos_nonneg show ?thesis by (auto simp: round64_def Let_def)
  next
    case 2
    with assms have le: "round_pos (- y) \<le> round_pos (- x)" and "x < 0"
      by (simp_all add: round_pos_mono)
    with 2 overflow_mono [OF _ le] round_pos_nonneg show ?thesis by (auto simp: round64_def Let_def)
  next
    case 3
    then show ?thesis
      using round_pos_nonneg [of "- x"] round_pos_nonneg [of y]
      by (auto simp: round64_def Let_def)
  qed
qed

text \<open>Integers of at most 53 bits are represented exactly.\<close>

lemma exponent_int_le:
  assumes "0 < n" "n \<le> 2 ^ 53" shows "exponent (of_int n) \<le> 53"
proof (rule ccontr)
  assume "\<not> ?thesis"
  then have "pow2 54 \<le> pow2 (exponent (of_int n))" by (intro pow2_mono) simp
  with exponent_spec [of "of_int n"] assms(1) have "pow2 54 \<le> of_int n" by simp
  moreover have "(of_int n :: rat) \<le> of_int (2 ^ 53)" using assms(2) by (simp only: of_int_le_iff)
  ultimately show False by simp
qed

lemma round_pos_int:
  assumes "0 < n" "n \<le> 2 ^ 53" shows "round_pos (of_int n) = of_int n"
proof -
  let ?x = "of_int n :: rat"
  have xp: "0 < ?x" using assms by simp
  have nonneg: "0 \<le> exponent ?x"
  proof (rule ccontr)
    assume "\<not> ?thesis"
    then have "pow2 (exponent ?x + 1) \<le> pow2 0" by (intro pow2_mono) simp
    with exponent_spec [OF xp] have "?x < 1" by simp
    with assms show False by simp
  qed
  have le53: "exponent ?x \<le> 53" using assms by (rule exponent_int_le)
  show ?thesis
  proof (cases "exponent ?x = 53")
    case True
    with exponent_spec [OF xp] have "pow2 53 \<le> ?x" by simp
    moreover have "?x \<le> of_int (2 ^ 53)" using assms(2) by (simp only: of_int_le_iff)
    ultimately have x: "?x = 2 ^ 53" by simp
    have q: "quantum ?x = 1" using True by (simp add: quantum_def)
    have "?x / pow2 1 = of_int (2 ^ 52)" by (simp add: x)
    then show ?thesis unfolding round_pos_def q by (simp only: round_half_even_of_int) (simp add: x)
  next
    case False
    with le53 nonneg have "quantum ?x \<le> 0" by (simp add: quantum_def)
    then obtain k where k: "quantum ?x = - int k" by (metis nonpos_int_cases)
    have "?x / pow2 (- int k) = of_int (n * 2 ^ k)"
      by (simp add: power_int_minus divide_inverse)
    then show ?thesis unfolding round_pos_def k
      by (simp only: round_half_even_of_int) (simp add: power_int_minus)
  qed
qed

lemma f_of_int_exact:
  assumes "\<bar>n\<bar> \<le> 2 ^ 53" shows "f_of_int n = Fin (of_int n)"
proof -
  have big: "exponent (of_int \<bar>n\<bar>) < 1024" if "n \<noteq> 0"
    using exponent_int_le [of "\<bar>n\<bar>"] that assms by simp
  have "round_pos \<bar>of_int n\<bar> = of_int \<bar>n\<bar>" if "n \<noteq> 0"
    using round_pos_int [of "\<bar>n\<bar>"] that assms by simp
  with big show ?thesis
    by (cases "n = 0"; cases "n < 0") (simp_all add: f_of_int_def round64_def Let_def)
qed

lemma f_of_int_mono: "i \<le> j \<Longrightarrow> fleq (f_of_int i) (f_of_int j)"
  by (simp add: f_of_int_def round64_mono)

lemma round64_exact: "\<bar>n\<bar> \<le> 2 ^ 53 \<Longrightarrow> round64 (of_int n) = Fin (of_int n)"
  using f_of_int_exact by (simp add: f_of_int_def)

lemma round64_within:
  assumes "of_int a \<le> x" "x \<le> of_int b" "\<bar>a\<bar> \<le> 2 ^ 53" "\<bar>b\<bar> \<le> 2 ^ 53"
  shows "\<exists>r. round64 x = Fin r \<and> of_int a \<le> r \<and> r \<le> of_int b"
proof -
  have "fleq (Fin (of_int a)) (round64 x)" "fleq (round64 x) (Fin (of_int b))"
    using round64_mono [OF assms(1)] round64_mono [OF assms(2)] round64_exact assms(3,4) by simp_all
  then show ?thesis by (cases "round64 x") auto
qed

lemma trunc_rat_within:
  assumes "of_int a \<le> r" "r \<le> of_int b" "a \<le> 0" "0 \<le> b" shows "a \<le> trunc_rat r \<and> trunc_rat r \<le> b"
proof (cases "r < 0")
  case True
  have "\<lfloor>- r\<rfloor> \<le> \<lfloor>of_int (- a) :: rat\<rfloor>" using assms(1) by (intro floor_mono) simp
  then have "\<lfloor>- r\<rfloor> \<le> - a" by (simp only: floor_of_int)
  moreover have "0 \<le> \<lfloor>- r\<rfloor>" using True by simp
  ultimately show ?thesis using True assms(4) unfolding trunc_rat_def by (simp only: if_True) linarith
next
  case False
  have "\<lfloor>r\<rfloor> \<le> \<lfloor>of_int b :: rat\<rfloor>" using assms(2) by (rule floor_mono)
  moreover have "0 \<le> \<lfloor>r\<rfloor>" using False by simp
  ultimately show ?thesis using False assms(3) unfolding trunc_rat_def by (simp only: if_False) linarith
qed

lemma trunc_rat_of_int [simp]: "trunc_rat (of_int n) = n"
proof -
  have "\<lfloor>of_int (- n) :: rat\<rfloor> = - n" by (simp only: floor_of_int)
  then show ?thesis by (simp add: trunc_rat_def)
qed

end
