(* ===== verification/Go_Number.thy ===== *)
theory Go_Number
  imports Go_Strconv Go_Float
begin

text \<open>
  Floating point numbers as text: \<open>strconv.ParseFloat(s, 64)\<close> (used by the configuration loader and
  by the JSON decoder) and the float encoder of \<open>encoding/json\<close>, which prints the shortest
  decimal that parses back to the same value.
\<close>

section \<open>ParseFloat\<close>

definition ascii_lower :: "char \<Rightarrow> char" where
  "ascii_lower c = (if 65 \<le> (of_char c :: nat) \<and> (of_char c :: nat) \<le> 90
                    then char_of ((of_char c :: nat) + 32) else c)"

definition hex_letter :: "char \<Rightarrow> bool" where
  "hex_letter c \<longleftrightarrow> 97 \<le> (of_char (ascii_lower c) :: nat) \<and> (of_char (ascii_lower c) :: nat) \<le> 102"

text \<open>The state of \<open>underscoreOK\<close>: what the previous byte was.\<close>

datatype uscore = UStart | UDigit | UUnder | UOther

fun underscore_scan :: "bool \<Rightarrow> uscore \<Rightarrow> string \<Rightarrow> bool" where
  "underscore_scan hex i [] \<longleftrightarrow> i \<noteq> UUnder"
| "underscore_scan hex i (c # cs) \<longleftrightarrow>
     (if is_digit c \<or> (hex \<and> hex_letter c) then underscore_scan hex UDigit cs
      else if c = CHR ''_'' then i = UDigit \<and> underscore_scan hex UUnder cs
      else i \<noteq> UUnder \<and> underscore_scan hex UOther cs)"

definition underscoreOK :: "string \<Rightarrow> bool" where
  "underscoreOK s0 =
     (let s = (case s0 of [] \<Rightarrow> [] | c # cs \<Rightarrow> if c = CHR ''-'' \<or> c = CHR ''+'' then cs else s0)
      in case s of
           a # b # r \<Rightarrow>
             if a = CHR ''0'' \<and> ascii_lower b \<in> {CHR ''b'', CHR ''o'', CHR ''x''}
             then underscore_scan (ascii_lower b = CHR ''x'') UDigit r
             else underscore_scan False UStart s
         | _ \<Rightarrow> underscore_scan False UStart s)"

text \<open>The mantissa of \<open>readFloat\<close>: value, number of fraction digits, whether a digit was seen.\<close>

record mantissa =
  m_val :: nat
  m_frac :: nat
  m_dot :: bool
  m_digits :: bool

definition digit_of :: "bool \<Rightarrow> char \<Rightarrow> nat option" where
  "digit_of hex c =
     (if is_digit c then Some (digit_val c)
      else if hex \<and> hex_letter c then Some (of_char (ascii_lower c) - 87) else None)"

fun scan_mantissa :: "bool \<Rightarrow> mantissa \<Rightarrow> string \<Rightarrow> mantissa \<times> string" where
  "scan_mantissa hex m [] = (m, [])"
| "scan_mantissa hex m (c # cs) =
     (if c = CHR ''_'' then scan_mantissa hex m cs
      else if c = CHR ''.'' then
        (if m_dot m then (m, c # cs) else scan_mantissa hex (m\<lparr>m_dot := True\<rparr>) cs)
      else case digit_of hex c of
             None \<Rightarrow> (m, c # cs)
           | Some d \<Rightarrow>
               scan_mantissa hex
                 (m\<lparr>m_val := m_val m * (if hex then 16 else 10) + d,
                    m_frac := (if m_dot m then Suc (m_frac m) else m_frac m),
                    m_digits := True\<rparr>) cs)"

fun scan_exp_digits :: "nat \<Rightarrow> string \<Rightarrow> nat \<times> string" where
  "scan_exp_digits e [] = (e, [])"
| "scan_exp_digits e (c # cs) =
     (if c = CHR ''_'' then scan_exp_digits e cs
      else if is_digit c then scan_exp_digits (if e < 10000 then e * 10 + digit_val c else e) cs
      else (e, c # cs))"

text \<open>The exponent part after its letter: a sign and at least one digit.\<close>

definition read_exp :: "string \<Rightarrow> (int \<times> string) option" where
  "read_exp s =
     (let (neg, r) = (case s of [] \<Rightarrow> (False, [])
                      | c # cs \<Rightarrow> if c = CHR ''+'' then (False, cs)
                                  else if c = CHR ''-'' then (True, cs) else (False, s))
      in case r of
           [] \<Rightarrow> None
         | d # _ \<Rightarrow> if is_digit d
                     then (let (e, r') = scan_exp_digits 0 r in Some (if neg then - int e else int e, r'))
                     else None)"

definition pow10 :: "int \<Rightarrow> rat" where
  "pow10 k = (if 0 \<le> k then 10 ^ nat k else 1 / 10 ^ nat (- k))"

text \<open>The unsigned number at the head: its exact value and the rest.\<close>

definition read_float :: "string \<Rightarrow> (rat \<times> string) option" where
  "read_float s =
     (let hex = (case s of a # b # _ # _ \<Rightarrow> a = CHR ''0'' \<and> ascii_lower b = CHR ''x'' | _ \<Rightarrow> False);
          (m, r) = scan_mantissa hex \<lparr>m_val = 0, m_frac = 0, m_dot = False, m_digits = False\<rparr>
                     (if hex then drop 2 s else s);
          scale = (\<lambda>e. if hex then power_int 2 (e - 4 * int (m_frac m)) else pow10 (e - int (m_frac m)))
      in if \<not> m_digits m then None
         else case r of
                c # cs \<Rightarrow>
                  if ascii_lower c = (if hex then CHR ''p'' else CHR ''e'') then
                    (case read_exp cs of
                       None \<Rightarrow> None
                     | Some (e, r') \<Rightarrow> Some (of_nat (m_val m) * scale e, r'))
                  else if hex then None else Some (of_nat (m_val m) * scale 0, r)
              | [] \<Rightarrow> if hex then None else Some (of_nat (m_val m) * scale 0, r))"

definition ParseFloat :: "string \<Rightarrow> float64 option" where
  "ParseFloat s =
     (let (neg, r) = (case s of [] \<Rightarrow> (False, [])
                      | c # cs \<Rightarrow> if c = CHR ''+'' then (False, cs)
                                  else if c = CHR ''-'' then (True, cs) else (False, s));
          low = map ascii_lower r
      in if low = ''inf'' \<or> low = ''infinity'' then Some (if neg then NInf else PInf)
         else if map ascii_lower s = ''nan'' then Some NaN
         else case read_float r of
                None \<Rightarrow> None
              | Some (v, rest) \<Rightarrow>
                  if rest \<noteq> [] \<or> (CHR ''_'' \<in> set s \<and> \<not> underscoreOK s) then None
                  else (case round64 (if neg then - v else v) of
                          Fin x \<Rightarrow> Some (Fin x)
                        | _ \<Rightarrow> None))"

lemma ParseFloat_Some_cases:
  "ParseFloat s = Some x \<Longrightarrow> x = NaN \<or> x = PInf \<or> x = NInf \<or> (\<exists>r. x = Fin r)"
  by (cases x) auto

section \<open>The shortest decimal of a float\<close>

text \<open>The decimal exponent of a positive value: \<open>10 ^ e <= x < 10 ^ (e + 1)\<close>.\<close>

definition dec_exp :: "rat \<Rightarrow> int" where
  "dec_exp x =
     (let e0 = (exponent x * 30103) div 100000
      in if pow10 (e0 + 1) \<le> x then e0 + 1 else if pow10 e0 \<le> x then e0 else e0 - 1)"

text \<open>
  The shortest digits that round back to \<open>x\<close>, from \<open>n\<close> digits on: the two neighbours of \<open>x\<close> with
  that many digits are tried, the closer one wins when both round back, an exact tie goes to the
  even one. Seventeen digits are always enough for binary64.
\<close>

definition rounds_back :: "rat \<Rightarrow> nat \<Rightarrow> int \<Rightarrow> bool" where
  "rounds_back x m q \<longleftrightarrow> round64 (of_nat m * pow10 q) = Fin x"

fun shortest_digits :: "nat \<Rightarrow> nat \<Rightarrow> rat \<Rightarrow> (nat \<times> int) option" where
  "shortest_digits 0 n x = None"
| "shortest_digits (Suc k) n x =
     (let q = dec_exp x - int n + 1;
          m = nat \<lfloor>x / pow10 q\<rfloor>;
          lo = rounds_back x m q; hi = rounds_back x (Suc m) q;
          dl = x / pow10 q - of_nat m
      in if lo \<and> hi then Some (if dl < 1 / 2 \<or> (dl = 1 / 2 \<and> even m) then m else Suc m, q)
         else if lo then Some (m, q)
         else if hi then Some (Suc m, q)
         else shortest_digits k (Suc n) x)"

text \<open>Trailing zeros move into the exponent.\<close>

fun strip_zeros :: "nat \<Rightarrow> int \<Rightarrow> nat \<times> int" where
  "strip_zeros m q = (if m = 0 \<or> m mod 10 \<noteq> 0 then (m, q) else strip_zeros (m div 10) (q + 1))"

declare strip_zeros.simps [simp del]

text \<open>The formats \<open>'f'\<close> and \<open>'e'\<close> with the digits given.\<close>

definition format_f :: "nat \<Rightarrow> int \<Rightarrow> string" where
  "format_f m q =
     (let ds = utoa m; n = length ds in
      if 0 \<le> q then ds @ replicate (nat q) (CHR ''0'')
      else if nat (- q) < n then take (n - nat (- q)) ds @ ''.'' @ drop (n - nat (- q)) ds
      else ''0.'' @ replicate (nat (- q) - n) (CHR ''0'') @ ds)"

definition format_e :: "nat \<Rightarrow> int \<Rightarrow> string" where
  "format_e m q =
     (let ds = utoa m; e = q + int (length ds) - 1 in
      [hd ds] @ (if tl ds = [] then [] else CHR ''.'' # tl ds)
      @ ''e'' @ (if e < 0 then ''-'' else ''+'') @ utoa (nat \<bar>e\<bar>))"

text \<open>\<open>floatEncoder\<close> of \<open>encoding/json\<close>: \<open>None\<close> is the error for NaN and the infinities.\<close>

definition json_float :: "float64 \<Rightarrow> string option" where
  "json_float f =
     (case f of
        Fin x \<Rightarrow>
          if x = 0 then Some ''0''
          else (case shortest_digits 17 1 \<bar>x\<bar> of
                  None \<Rightarrow> None
                | Some (m0, q0) \<Rightarrow>
                    let (m, q) = strip_zeros m0 q0;
                        body = (if \<bar>x\<bar> < 1 / 1000000 \<or> 10 ^ 21 \<le> \<bar>x\<bar>
                                then format_e m q else format_f m q)
                    in Some (if x < 0 then CHR ''-'' # body else body))
      | _ \<Rightarrow> None)"

end
