(* ===== verification/Go_Time.thy ===== *)
theory Go_Time
  imports Go_Strconv
begin

text \<open>
  \<open>time.Time\<close> as the services use it: values that come from the JSON text of a log event
  (\<open>Time.UnmarshalJSON\<close>) or from \<open>time.Now\<close>, are tested with \<open>IsZero\<close> and are written back with
  \<open>Time.MarshalJSON\<close>. A time is kept as its civil fields in its own zone with the zone's offset
  in minutes, which is all that printing uses; the instant is computed from them. The round trip
  of text and value is proved at the end.
\<close>

record gotime =
  tm_year :: nat
  tm_month :: nat
  tm_day :: nat
  tm_hour :: nat
  tm_min :: nat
  tm_sec :: nat
  tm_nsec :: nat
  tm_offset :: int

text \<open>The zero value \<open>time.Time{}\<close>: January 1, year 1, 00:00:00 UTC.\<close>

definition zero_time :: gotime where
  "zero_time = \<lparr>tm_year = 1, tm_month = 1, tm_day = 1, tm_hour = 0, tm_min = 0, tm_sec = 0,
                tm_nsec = 0, tm_offset = 0\<rparr>"

definition isLeap :: "nat \<Rightarrow> bool" where
  "isLeap y \<longleftrightarrow> y mod 4 = 0 \<and> (y mod 100 \<noteq> 0 \<or> y mod 400 = 0)"

definition daysIn :: "nat \<Rightarrow> nat \<Rightarrow> nat" where
  "daysIn m y =
     (if m = 2 then (if isLeap y then 29 else 28)
      else if m = 4 \<or> m = 6 \<or> m = 9 \<or> m = 11 then 30 else 31)"

text \<open>Days from January 1 of year 0 to January 1 of \<open>y\<close>, and to the first of a month.\<close>

definition daysBeforeYear :: "nat \<Rightarrow> nat" where
  "daysBeforeYear y = 365 * y + (y + 3) div 4 - (y + 99) div 100 + (y + 399) div 400"

definition daysBeforeMonth :: "nat \<Rightarrow> nat \<Rightarrow> nat" where
  "daysBeforeMonth m y = sum_list (map (\<lambda>k. daysIn k y) [1..<m])"

text \<open>Seconds from January 1 of year 0, 00:00:00 UTC.\<close>

definition abs_seconds :: "gotime \<Rightarrow> int" where
  "abs_seconds t =
     (int (daysBeforeYear (tm_year t) + daysBeforeMonth (tm_month t) (tm_year t) + tm_day t) - 1) * 86400
     + int (tm_hour t * 3600 + tm_min t * 60 + tm_sec t) - tm_offset t * 60"

definition IsZero :: "gotime \<Rightarrow> bool" where
  "IsZero t \<longleftrightarrow> abs_seconds t = 366 * 86400 \<and> tm_nsec t = 0"

section \<open>Writing RFC 3339\<close>

definition two :: "nat \<Rightarrow> string" where
  "two n = [digit_char (n div 10 mod 10), digit_char (n mod 10)]"

definition four :: "nat \<Rightarrow> string" where
  "four n = two (n div 100) @ two n"

fun fixed_digits :: "nat \<Rightarrow> nat \<Rightarrow> string" where
  "fixed_digits 0 n = []"
| "fixed_digits (Suc k) n = fixed_digits k (n div 10) @ [digit_char (n mod 10)]"

definition rtrim0 :: "string \<Rightarrow> string" where
  "rtrim0 s = rev (dropWhile (\<lambda>c. c = CHR ''0'') (rev s))"

definition print_frac :: "nat \<Rightarrow> string" where
  "print_frac ns = (let ds = rtrim0 (fixed_digits 9 ns) in if ds = [] then [] else CHR ''.'' # ds)"

definition print_zone :: "int \<Rightarrow> string" where
  "print_zone off =
     (if off = 0 then ''Z''
      else (if off < 0 then ''-'' else ''+'') @ two (nat \<bar>off\<bar> div 60) @ '':'' @ two (nat \<bar>off\<bar> mod 60))"

definition format_rfc3339nano :: "gotime \<Rightarrow> string" where
  "format_rfc3339nano t =
     four (tm_year t) @ ''-'' @ two (tm_month t) @ ''-'' @ two (tm_day t) @ ''T''
     @ two (tm_hour t) @ '':'' @ two (tm_min t) @ '':'' @ two (tm_sec t)
     @ print_frac (tm_nsec t) @ print_zone (tm_offset t)"

text \<open>
  \<open>appendStrictRFC3339\<close> refuses a year of more than four digits and an offset of 24 hours or more.
\<close>

definition time_MarshalJSON :: "gotime \<Rightarrow> string option" where
  "time_MarshalJSON t =
     (if tm_year t > 9999 \<or> \<bar>tm_offset t\<bar> \<ge> 24 * 60 then None else Some (format_rfc3339nano t))"

section \<open>Reading RFC 3339\<close>

definition num2 :: "char \<Rightarrow> char \<Rightarrow> nat option" where
  "num2 a b = (if is_digit a \<and> is_digit b then Some (10 * digit_val a + digit_val b) else None)"

text \<open>\<open>getnum(value, false)\<close>: one or two digits.\<close>

definition getnum :: "string \<Rightarrow> (nat \<times> string) option" where
  "getnum s =
     (case s of
        [] \<Rightarrow> None
      | a # r \<Rightarrow>
        if \<not> is_digit a then None
        else (case r of
                [] \<Rightarrow> Some (digit_val a, r)
              | b # r' \<Rightarrow> if is_digit b then Some (10 * digit_val a + digit_val b, r')
                          else Some (digit_val a, r)))"

text \<open>
  The optional fraction: a period or a comma and at least one digit; \<open>parseNanoseconds\<close> keeps
  nine digits.
\<close>

definition frac_value :: "string \<Rightarrow> nat" where
  "frac_value ds =
     (case atou_acc 0 (take 9 ds @ replicate (9 - length ds) (CHR ''0'')) of None \<Rightarrow> 0 | Some n \<Rightarrow> n)"

definition parse_frac :: "string \<Rightarrow> nat \<times> string" where
  "parse_frac s =
     (case s of
        c # d # r \<Rightarrow>
          if (c = CHR ''.'' \<or> c = CHR '','') \<and> is_digit d
          then (frac_value (takeWhile is_digit (d # r)), dropWhile is_digit (d # r))
          else (0, s)
      | _ \<Rightarrow> (0, s))"

text \<open>\<open>Z07:00\<close>: \<open>Z\<close> or a sign, two digits up to 24, a colon, two digits up to 60, and nothing after.\<close>

definition parse_zone :: "string \<Rightarrow> int option" where
  "parse_zone s =
     (case s of
        [z] \<Rightarrow> if z = CHR ''Z'' then Some 0 else None
      | [sg, a, b, c, d, e] \<Rightarrow>
          (case (num2 a b, num2 d e) of
             (Some hr, Some mm) \<Rightarrow>
               if c = CHR '':'' \<and> hr \<le> 24 \<and> mm \<le> 60 then
                 (if sg = CHR ''+'' then Some (int (hr * 60 + mm))
                  else if sg = CHR ''-'' then Some (- int (hr * 60 + mm)) else None)
               else None
           | _ \<Rightarrow> None)
      | _ \<Rightarrow> None)"

definition parse_date :: "string \<Rightarrow> (nat \<times> nat \<times> nat \<times> string) option" where
  "parse_date s =
     (case s of
        y1 # y2 # y3 # y4 # h1 # m1 # m2 # h2 # d1 # d2 # r \<Rightarrow>
          (case (num2 y1 y2, num2 y3 y4, num2 m1 m2, num2 d1 d2) of
             (Some ya, Some yb, Some m, Some d) \<Rightarrow>
               if h1 = CHR ''-'' \<and> h2 = CHR ''-'' \<and> 1 \<le> m \<and> m \<le> 12
                  \<and> 1 \<le> d \<and> d \<le> daysIn m (100 * ya + yb)
               then Some (100 * ya + yb, m, d, r) else None
           | _ \<Rightarrow> None)
      | _ \<Rightarrow> None)"

definition parse_clock :: "string \<Rightarrow> (nat \<times> nat \<times> nat \<times> string) option" where
  "parse_clock s =
     (case getnum s of
        None \<Rightarrow> None
      | Some (h, r) \<Rightarrow>
        (case r of
           c1 # m1 # m2 # c2 # s1 # s2 # r' \<Rightarrow>
             (case (num2 m1 m2, num2 s1 s2) of
                (Some mi, Some se) \<Rightarrow>
                  if c1 = CHR '':'' \<and> c2 = CHR '':'' \<and> h < 24 \<and> mi < 60 \<and> se < 60
                  then Some (h, mi, se, r') else None
              | _ \<Rightarrow> None)
         | _ \<Rightarrow> None))"

definition parse_rfc3339 :: "string \<Rightarrow> gotime option" where
  "parse_rfc3339 s =
     (case parse_date s of
        None \<Rightarrow> None
      | Some (y, mo, d, r) \<Rightarrow>
        (case r of
           [] \<Rightarrow> None
         | t # r1 \<Rightarrow>
           if t \<noteq> CHR ''T'' then None
           else (case parse_clock r1 of
                   None \<Rightarrow> None
                 | Some (h, mi, se, r2) \<Rightarrow>
                   (case parse_frac r2 of
                      (ns, r3) \<Rightarrow>
                        (case parse_zone r3 of
                           None \<Rightarrow> None
                         | Some off \<Rightarrow>
                             Some \<lparr>tm_year = y, tm_month = mo, tm_day = d, tm_hour = h, tm_min = mi,
                                   tm_sec = se, tm_nsec = ns, tm_offset = off\<rparr>)))))"

section \<open>Well-formed times and the round trip\<close>

definition wf_time :: "gotime \<Rightarrow> bool" where
  "wf_time t \<longleftrightarrow> tm_year t \<le> 9999 \<and> 1 \<le> tm_month t \<and> tm_month t \<le> 12 \<and> 1 \<le> tm_day t \<and>
     tm_day t \<le> daysIn (tm_month t) (tm_year t) \<and> tm_hour t < 24 \<and> tm_min t < 60 \<and> tm_sec t < 60 \<and>
     tm_nsec t < 10 ^ 9 \<and> \<bar>tm_offset t\<bar> < 24 * 60"

lemma daysIn_le: "daysIn m y \<le> 31"
  by (simp add: daysIn_def)

lemma num2_two [simp]: "n < 100 \<Longrightarrow> num2 (digit_char (n div 10)) (digit_char (n mod 10)) = Some n"
  by (simp add: num2_def)

lemma fixed_digits_length [simp]: "length (fixed_digits k n) = k"
  by (induction k n rule: fixed_digits.induct) simp_all

lemma fixed_digits_digits: "c \<in> set (fixed_digits k n) \<Longrightarrow> is_digit c"
  by (induction k n rule: fixed_digits.induct) auto

lemma atou_fixed_digits: "n < 10 ^ k \<Longrightarrow> atou_acc 0 (fixed_digits k n) = Some n"
proof (induction k n rule: fixed_digits.induct)
  case (2 k n)
  then have "n div 10 < 10 ^ k" by (simp add: less_mult_imp_div_less mult.commute)
  with 2 show ?case by (simp add: atou_acc_append)
qed simp

lemma rtrim0_pad: "rtrim0 s @ replicate (length s - length (rtrim0 s)) (CHR ''0'') = s"
proof -
  define ws where "ws = takeWhile (\<lambda>c. c = CHR ''0'') (rev s)"
  have "rev s = ws @ dropWhile (\<lambda>c. c = CHR ''0'') (rev s)" by (simp add: ws_def)
  then have s: "s = rtrim0 s @ rev ws" unfolding rtrim0_def by (metis rev_append rev_rev_ident)
  have "set ws \<subseteq> {CHR ''0''}" by (auto simp: ws_def dest: set_takeWhileD)
  then have "rev ws = replicate (length ws) (CHR ''0'')"
    by (metis length_rev replicate_eqI set_rev singletonD subsetD)
  moreover have "length s - length (rtrim0 s) = length ws" by (subst s) simp
  ultimately show ?thesis using s by simp
qed

lemma rtrim0_length: "length (rtrim0 s) \<le> length s"
  by (metis length_dropWhile_le length_rev rtrim0_def)

lemma frac_value_rtrim0:
  assumes "n < 10 ^ 9" shows "frac_value (rtrim0 (fixed_digits 9 n)) = n"
proof -
  have "length (rtrim0 (fixed_digits 9 n)) \<le> 9"
    using rtrim0_length [of "fixed_digits 9 n"] by simp
  then show ?thesis
    using rtrim0_pad [of "fixed_digits 9 n"] atou_fixed_digits [OF assms]
    by (simp add: frac_value_def)
qed

lemma frac_value_Nil: "frac_value [] = 0"
  by code_simp

lemma zone_head: "print_zone off = c # cs \<Longrightarrow> c = CHR ''Z'' \<or> c = CHR ''+'' \<or> c = CHR ''-''"
  by (auto simp: print_zone_def split: if_splits)

lemma print_zone_not_Nil [simp]: "print_zone off \<noteq> []"
  by (simp add: print_zone_def)

lemma parse_frac_print:
  assumes "ns < 10 ^ 9" shows "parse_frac (print_frac ns @ print_zone off) = (ns, print_zone off)"
proof -
  obtain c cs where z: "print_zone off = c # cs" by (cases "print_zone off") auto
  then have c: "\<not> is_digit c" "c \<noteq> CHR ''.''" "c \<noteq> CHR '',''"
    using zone_head [OF z] by (auto simp: is_digit_def)
  show ?thesis
  proof (cases "rtrim0 (fixed_digits 9 ns)")
    case Nil
    then have "ns = 0" using frac_value_rtrim0 [OF assms] by (simp add: frac_value_Nil)
    with Nil z c show ?thesis by (cases cs) (auto simp: print_frac_def parse_frac_def)
  next
    case (Cons d ds)
    have all: "\<forall>x\<in>set (d # ds). is_digit x"
      unfolding Cons [symmetric] rtrim0_def
      by (auto dest!: set_dropWhileD simp: fixed_digits_digits)
    have "takeWhile is_digit ((d # ds) @ c # cs) = d # ds"
      "dropWhile is_digit ((d # ds) @ c # cs) = c # cs"
      using all c by (auto simp: takeWhile_append2 dropWhile_append2)
    then show ?thesis
      using all z frac_value_rtrim0 [OF assms]
      by (simp add: print_frac_def parse_frac_def Cons Let_def)
  qed
qed

lemma two_cases:
  assumes "n < 100" obtains a b where "two n = [a, b]" "num2 a b = Some n"
  using assms that [of "digit_char (n div 10)" "digit_char (n mod 10)"] by (simp add: two_def)

lemma parse_zone_print:
  assumes "\<bar>off\<bar> < 24 * 60" shows "parse_zone (print_zone off) = Some off"
proof -
  define u where "u = nat \<bar>off\<bar>"
  have h: "u div 60 < 24" using assms by (simp add: u_def nat_less_iff less_mult_imp_div_less)
  have m: "u mod 60 < 60" by simp
  obtain a b where ab: "two (u div 60) = [a, b]" "num2 a b = Some (u div 60)"
    by (rule two_cases [of "u div 60"]) (use h in simp_all)
  obtain d e where de: "two (u mod 60) = [d, e]" "num2 d e = Some (u mod 60)"
    by (rule two_cases [of "u mod 60"]) (use m in simp_all)
  have all: "int (u div 60 * 60 + u mod 60) = \<bar>off\<bar>" by (simp add: u_def)
  have "parse_zone (print_zone off)
        = (if off = 0 then Some 0
           else if off < 0 then Some (- int (u div 60 * 60 + u mod 60))
           else Some (int (u div 60 * 60 + u mod 60)))"
    using ab de h m by (simp add: print_zone_def parse_zone_def u_def [symmetric])
  then show ?thesis using all by (simp del: of_nat_add)
qed

lemma parse_date_print:
  assumes "wf_time t"
  shows "parse_date (four (tm_year t) @ CHR ''-'' # two (tm_month t) @ CHR ''-'' # two (tm_day t) @ r)
         = Some (tm_year t, tm_month t, tm_day t, r)"
proof -
  have "tm_day t < 100" using assms daysIn_le [of "tm_month t" "tm_year t"] by (simp add: wf_time_def)
  then obtain d1 d2 where d: "two (tm_day t) = [d1, d2]" "num2 d1 d2 = Some (tm_day t)"
    by (rule two_cases)
  have "tm_month t < 100" using assms by (simp add: wf_time_def)
  then obtain m1 m2 where m: "two (tm_month t) = [m1, m2]" "num2 m1 m2 = Some (tm_month t)"
    by (rule two_cases)
  have "tm_year t div 100 < 100" using assms by (simp add: wf_time_def less_mult_imp_div_less)
  then obtain a b where ya: "two (tm_year t div 100) = [a, b]" "num2 a b = Some (tm_year t div 100)"
    by (rule two_cases)
  have "tm_year t mod 100 = 10 * (tm_year t div 10 mod 10) + tm_year t mod 10"
    using mod_mult2_eq [of "tm_year t" 10 10] by simp
  then obtain c e where yb: "two (tm_year t) = [c, e]" "num2 c e = Some (tm_year t mod 100)"
    by (simp add: two_def num2_def)
  show ?thesis using assms d m ya yb
    by (simp add: parse_date_def four_def wf_time_def)
qed

lemma parse_clock_print:
  assumes "h < 24" "mi < 60" "se < 60"
  shows "parse_clock (two h @ CHR '':'' # two mi @ CHR '':'' # two se @ r) = Some (h, mi, se, r)"
proof -
  have "getnum (two h @ r') = Some (h, r')" for r'
    using assms by (simp add: getnum_def two_def)
  then show ?thesis using assms by (simp add: parse_clock_def two_def)
qed

theorem parse_format_rfc3339:
  assumes "wf_time t" shows "parse_rfc3339 (format_rfc3339nano t) = Some t"
  using assms parse_date_print [OF assms]
  by (simp add: parse_rfc3339_def format_rfc3339nano_def parse_clock_print parse_frac_print
      parse_zone_print wf_time_def)

lemma time_MarshalJSON_wf: "wf_time t \<Longrightarrow> time_MarshalJSON t = Some (format_rfc3339nano t)"
  by (auto simp: time_MarshalJSON_def wf_time_def)

text \<open>Everything \<open>UnmarshalJSON\<close> accepts is well formed, except offsets of a day or more.\<close>

lemma num2_le: "num2 a b = Some n \<Longrightarrow> n \<le> 99"
  by (auto simp: num2_def is_digit_def digit_val_def split: if_splits)

lemma parse_date_wf:
  assumes "parse_date s = Some (y, m, d, r)"
  shows "y \<le> 9999 \<and> 1 \<le> m \<and> m \<le> 12 \<and> 1 \<le> d \<and> d \<le> daysIn m y"
proof -
  from assms obtain ya yb where "y = 100 * ya + yb" "ya \<le> 99" "yb \<le> 99" "1 \<le> m" "m \<le> 12" "1 \<le> d"
    "d \<le> daysIn m y"
    by (auto simp: parse_date_def dest!: num2_le split: list.splits option.splits if_splits)
  then show ?thesis by simp
qed

lemma parse_clock_wf: "parse_clock s = Some (h, mi, se, r) \<Longrightarrow> h < 24 \<and> mi < 60 \<and> se < 60"
  by (auto simp: parse_clock_def split: list.splits option.splits if_splits)

lemma atou_acc_less: "atou_acc a s = Some n \<Longrightarrow> n < (a + 1) * 10 ^ length s"
proof (induction a s rule: atou_acc.induct)
  case (2 a c cs)
  then have c: "is_digit c" and n: "n < (a * 10 + digit_val c + 1) * 10 ^ length cs"
    by (auto split: if_splits)
  have "a * 10 + digit_val c + 1 \<le> (a + 1) * 10" using digit_val_less [OF c] by simp
  then have "(a * 10 + digit_val c + 1) * 10 ^ length cs \<le> (a + 1) * 10 * 10 ^ length cs"
    by (rule mult_le_mono1)
  with n have "n < (a + 1) * 10 * 10 ^ length cs" by (rule less_le_trans)
  then show ?case by (simp only: length_Cons power_Suc mult.assoc)
qed simp

lemma frac_value_less: "frac_value ds < 10 ^ 9"
proof -
  have "length (take 9 ds @ replicate (9 - length ds) (CHR ''0'')) = 9" by simp
  then show ?thesis
    using atou_acc_less [of 0 "take 9 ds @ replicate (9 - length ds) (CHR ''0'')"]
    by (auto simp: frac_value_def split: option.splits)
qed

lemma parse_frac_wf: "parse_frac s = (ns, r) \<Longrightarrow> ns < 10 ^ 9"
  using frac_value_less by (auto simp: parse_frac_def split: list.splits if_splits)

lemma parse_rfc3339_wf:
  assumes "parse_rfc3339 s = Some t" and "\<bar>tm_offset t\<bar> < 24 * 60"
  shows "wf_time t"
  using assms
  by (auto simp: parse_rfc3339_def wf_time_def
      dest!: parse_date_wf parse_clock_wf parse_frac_wf
      split: option.splits list.splits if_splits prod.splits)

lemma IsZero_zero_time: "IsZero zero_time"
  by (simp add: IsZero_def abs_seconds_def zero_time_def daysBeforeYear_def daysBeforeMonth_def)

end
