(* ===== verification/Models.thy ===== *)
theory Models
  imports Go_Json Go_Number Go_Time
begin

text \<open>
  The data that travels through the pipeline: \<open>LogEvent\<close> (\<open>pkg/models/log_event.go\<close>),
  \<open>JobEnvelope\<close> and \<open>DLQEntry\<close> (\<open>internal/queue/types.go\<close>), with the JSON encoding and
  decoding that their struct tags give them under \<open>encoding/json\<close>: field names found exactly or
  by case folding, unknown fields skipped, \<open>null\<close> ignored by plain fields and resetting
  pointers and maps, repeated fields merged into what is there, \<open>omitempty\<close>, map keys
  written in byte order. The round trip of each type is proved.
\<close>

section \<open>Values of type any\<close>

text \<open>
  What \<open>encoding/json\<close> stores in an \<open>interface{}\<close>. A map is an association list in increasing key
  order, the order in which it is written; a nil map and an empty one are not told apart (the
  code only tests emptiness, through \<open>omitempty\<close>). The float64 value minus zero has a
  constructor of its own because \<open>Fin 0\<close> does not show the sign.
\<close>

datatype govalue =
    GoNil
  | GoBool bool
  | GoFloat float64
  | GoNegZero
  | GoStr string
  | GoArr "govalue list"
  | GoMap "(string \<times> govalue) list"

fun bytes_less :: "string \<Rightarrow> string \<Rightarrow> bool" where
  "bytes_less s [] \<longleftrightarrow> False"
| "bytes_less [] (b # bs) \<longleftrightarrow> True"
| "bytes_less (a # as) (b # bs) \<longleftrightarrow> byte a < byte b \<or> (a = b \<and> bytes_less as bs)"

fun map_put :: "string \<Rightarrow> 'a \<Rightarrow> (string \<times> 'a) list \<Rightarrow> (string \<times> 'a) list" where
  "map_put k v [] = [(k, v)]"
| "map_put k v ((k', v') # m) =
     (if k = k' then (k, v) # m
      else if bytes_less k k' then (k, v) # (k', v') # m
      else (k', v') # map_put k v m)"

definition json_of_float :: "float64 \<Rightarrow> json option" where
  "json_of_float f = map_option JNum (json_float f)"

fun json_of_value :: "govalue \<Rightarrow> json option"
  and json_of_values :: "govalue list \<Rightarrow> json list option"
  and json_of_members :: "(string \<times> govalue) list \<Rightarrow> (string \<times> json) list option" where
  "json_of_value GoNil = Some JNull"
| "json_of_value (GoBool b) = Some (JBool b)"
| "json_of_value (GoFloat f) = json_of_float f"
| "json_of_value GoNegZero = Some (JNum ''-0'')"
| "json_of_value (GoStr s) = Some (JStr (quote_body s))"
| "json_of_value (GoArr vs) = map_option JArr (json_of_values vs)"
| "json_of_value (GoMap m) = map_option JObj (json_of_members m)"
| "json_of_values [] = Some []"
| "json_of_values (v # vs) =
     (case json_of_value v of None \<Rightarrow> None | Some j \<Rightarrow> map_option ((#) j) (json_of_values vs))"
| "json_of_members [] = Some []"
| "json_of_members ((k, v) # m) =
     (case json_of_value v of
        None \<Rightarrow> None
      | Some j \<Rightarrow> map_option ((#) (quote_body k, j)) (json_of_members m))"

text \<open>\<open>convertNumber\<close>: a number that does not fit a float64 is an error.\<close>

definition float_of_raw :: "string \<Rightarrow> govalue option" where
  "float_of_raw raw =
     (case ParseFloat raw of
        None \<Rightarrow> None
      | Some f \<Rightarrow> Some (if f = Fin 0 \<and> HasPrefix raw ''-'' then GoNegZero else GoFloat f))"

fun value_of_json :: "json \<Rightarrow> govalue option"
  and values_of_json :: "json list \<Rightarrow> govalue list option"
  and members_of_json :: "(string \<times> json) list \<Rightarrow> (string \<times> govalue) list \<Rightarrow>
                          (string \<times> govalue) list option" where
  "value_of_json JNull = Some GoNil"
| "value_of_json (JBool b) = Some (GoBool b)"
| "value_of_json (JNum raw) = float_of_raw raw"
| "value_of_json (JStr raw) = map_option GoStr (unquote raw)"
| "value_of_json (JArr js) = map_option GoArr (values_of_json js)"
| "value_of_json (JObj ms) = map_option GoMap (members_of_json ms [])"
| "values_of_json [] = Some []"
| "values_of_json (j # js) =
     (case value_of_json j of None \<Rightarrow> None | Some v \<Rightarrow> map_option ((#) v) (values_of_json js))"
| "members_of_json [] m = Some m"
| "members_of_json ((raw, j) # ms) m =
     (case unquote raw of
        None \<Rightarrow> None
      | Some k \<Rightarrow>
        (case value_of_json j of
           None \<Rightarrow> None
         | Some v \<Rightarrow> members_of_json ms (map_put k v m)))"

section \<open>Struct fields\<close>

text \<open>
  \<open>foldName\<close>: the key in upper case, exact for the comparison with ASCII field names: the only
  non-ASCII letters that fold to ASCII are U+017F and U+212A.
\<close>

definition ascii_upper :: "char \<Rightarrow> char" where
  "ascii_upper c = (if 97 \<le> byte c \<and> byte c \<le> 122 then char_of (byte c - 32) else c)"

fun foldName :: "string \<Rightarrow> string" where
  "foldName [] = []"
| "foldName (c # d # cs) =
     (if c = CHR 0xC5 \<and> d = CHR 0xBF then CHR ''S'' # foldName cs
      else if c = CHR 0xE2 \<and> d = CHR 0x84 \<and> cs \<noteq> [] \<and> hd cs = CHR 0xAA
           then CHR ''K'' # foldName (tl cs)
      else ascii_upper c # foldName (d # cs))"
| "foldName [c] = [ascii_upper c]"

type_synonym 'r setter = "'r \<Rightarrow> json \<Rightarrow> 'r option"

definition find_field :: "string \<Rightarrow> (string \<times> 'r setter) list \<Rightarrow> 'r setter option" where
  "find_field key fs =
     (case map_of fs key of
        Some f \<Rightarrow> Some f
      | None \<Rightarrow> map_of (map (\<lambda>(n, f). (foldName n, f)) fs) (foldName key))"

fun decode_members :: "(string \<times> 'r setter) list \<Rightarrow> 'r \<Rightarrow> (string \<times> json) list \<Rightarrow> 'r option" where
  "decode_members fs r [] = Some r"
| "decode_members fs r ((raw, v) # ms) =
     (case unquote raw of
        None \<Rightarrow> None
      | Some key \<Rightarrow>
        (case find_field key fs of
           None \<Rightarrow> decode_members fs r ms
         | Some set_field \<Rightarrow>
           (case set_field r v of None \<Rightarrow> None | Some r' \<Rightarrow> decode_members fs r' ms)))"

definition decode_struct :: "(string \<times> 'r setter) list \<Rightarrow> 'r setter" where
  "decode_struct fs r v =
     (case v of JObj ms \<Rightarrow> decode_members fs r ms | JNull \<Rightarrow> Some r | _ \<Rightarrow> None)"

text \<open>Fields of type \<open>string\<close>, \<open>int64\<close> (and \<open>int\<close>), \<open>time.Time\<close>, map, and pointer to struct.\<close>

definition string_field :: "(string \<Rightarrow> 'r \<Rightarrow> 'r) \<Rightarrow> 'r setter" where
  "string_field upd r v =
     (case v of JStr raw \<Rightarrow> map_option (\<lambda>s. upd s r) (unquote raw) | JNull \<Rightarrow> Some r | _ \<Rightarrow> None)"

definition int_field :: "(int64 \<Rightarrow> 'r \<Rightarrow> 'r) \<Rightarrow> 'r setter" where
  "int_field upd r v =
     (case v of JNum raw \<Rightarrow> map_option (\<lambda>i. upd i r) (ParseInt raw) | JNull \<Rightarrow> Some r | _ \<Rightarrow> None)"

definition time_field :: "(gotime \<Rightarrow> 'r \<Rightarrow> 'r) \<Rightarrow> 'r setter" where
  "time_field upd r v =
     (case v of JStr raw \<Rightarrow> map_option (\<lambda>t. upd t r) (parse_rfc3339 raw) | JNull \<Rightarrow> Some r | _ \<Rightarrow> None)"

definition map_field :: "('r \<Rightarrow> (string \<times> govalue) list) \<Rightarrow> ((string \<times> govalue) list \<Rightarrow> 'r \<Rightarrow> 'r) \<Rightarrow> 'r setter" where
  "map_field get upd r v =
     (case v of
        JObj ms \<Rightarrow> map_option (\<lambda>m. upd m r) (members_of_json ms (get r))
      | JNull \<Rightarrow> Some (upd [] r)
      | _ \<Rightarrow> None)"

definition pointer_field :: "(string \<times> 'a setter) list \<Rightarrow> 'a \<Rightarrow> ('r \<Rightarrow> 'a option) \<Rightarrow>
    ('a option \<Rightarrow> 'r \<Rightarrow> 'r) \<Rightarrow> 'r setter" where
  "pointer_field fs zero get upd r v =
     (case v of
        JNull \<Rightarrow> Some (upd None r)
      | _ \<Rightarrow> map_option (\<lambda>a. upd (Some a) r)
               (decode_struct fs (case get r of None \<Rightarrow> zero | Some a \<Rightarrow> a) v))"

section \<open>LogEvent\<close>

record LogEvent =
  Timestamp :: gotime
  Level :: string
  Service :: string
  Message :: string
  Metadata :: "(string \<times> govalue) list"
  TraceID :: string

definition zero_LogEvent :: LogEvent where
  "zero_LogEvent = \<lparr>Timestamp = zero_time, Level = '''', Service = '''', Message = '''',
                    Metadata = [], TraceID = ''''\<rparr>"

definition LogEvent_fields :: "(string \<times> LogEvent setter) list" where
  "LogEvent_fields =
     [(''timestamp'', time_field (\<lambda>x. Timestamp_update (\<lambda>_. x))),
      (''level'', string_field (\<lambda>x. Level_update (\<lambda>_. x))),
      (''service'', string_field (\<lambda>x. Service_update (\<lambda>_. x))),
      (''message'', string_field (\<lambda>x. Message_update (\<lambda>_. x))),
      (''metadata'', map_field Metadata (\<lambda>x. Metadata_update (\<lambda>_. x))),
      (''trace_id'', string_field (\<lambda>x. TraceID_update (\<lambda>_. x)))]"

definition omitempty :: "string \<Rightarrow> string \<Rightarrow> (string \<times> json) list" where
  "omitempty name s = (if s = '''' then [] else [(name, JStr (quote_body s))])"

definition json_of_LogEvent :: "LogEvent \<Rightarrow> json option" where
  "json_of_LogEvent e =
     (case (time_MarshalJSON (Timestamp e), json_of_members (Metadata e)) of
        (Some t, Some md) \<Rightarrow>
          Some (JObj ([(''timestamp'', JStr t),
                       (''level'', JStr (quote_body (Level e))),
                       (''service'', JStr (quote_body (Service e))),
                       (''message'', JStr (quote_body (Message e)))]
                      @ (if md = [] then [] else [(''metadata'', JObj md)])
                      @ omitempty ''trace_id'' (TraceID e)))
      | _ \<Rightarrow> None)"

section \<open>JobEnvelope and DLQEntry\<close>

record JobEnvelope =
  JobID :: string
  Data :: "LogEvent option"
  EnqueuedAt :: int64
  RetryCount :: int64
  MaxRetries :: int64
  EventType :: string
  LastError :: string

definition zero_JobEnvelope :: JobEnvelope where
  "zero_JobEnvelope = \<lparr>JobID = '''', Data = None, EnqueuedAt = 0, RetryCount = 0, MaxRetries = 0,
                       EventType = '''', LastError = ''''\<rparr>"

definition JobEnvelope_fields :: "(string \<times> JobEnvelope setter) list" where
  "JobEnvelope_fields =
     [(''job_id'', string_field (\<lambda>x. JobID_update (\<lambda>_. x))),
      (''data'', pointer_field LogEvent_fields zero_LogEvent Data (\<lambda>x. Data_update (\<lambda>_. x))),
      (''enqueued_at'', int_field (\<lambda>x. EnqueuedAt_update (\<lambda>_. x))),
      (''retry_count'', int_field (\<lambda>x. RetryCount_update (\<lambda>_. x))),
      (''max_retries'', int_field (\<lambda>x. MaxRetries_update (\<lambda>_. x))),
      (''event_type'', string_field (\<lambda>x. EventType_update (\<lambda>_. x))),
      (''last_error'', string_field (\<lambda>x. LastError_update (\<lambda>_. x)))]"

definition json_of_pointer :: "('a \<Rightarrow> json option) \<Rightarrow> 'a option \<Rightarrow> json option" where
  "json_of_pointer enc p = (case p of None \<Rightarrow> Some JNull | Some a \<Rightarrow> enc a)"

definition json_of_JobEnvelope :: "JobEnvelope \<Rightarrow> json option" where
  "json_of_JobEnvelope env =
     map_option (\<lambda>d. JObj ([(''job_id'', JStr (quote_body (JobID env))),
                            (''data'', d),
                            (''enqueued_at'', JNum (itoa (EnqueuedAt env))),
                            (''retry_count'', JNum (itoa (RetryCount env))),
                            (''max_retries'', JNum (itoa (MaxRetries env))),
                            (''event_type'', JStr (quote_body (EventType env)))]
                           @ omitempty ''last_error'' (LastError env)))
       (json_of_pointer json_of_LogEvent (Data env))"

record DLQEntry =
  OriginalStreamID :: string
  JobData :: "JobEnvelope option"
  FailureReason :: string
  SentToDLQAt :: int64

definition zero_DLQEntry :: DLQEntry where
  "zero_DLQEntry = \<lparr>OriginalStreamID = '''', JobData = None, FailureReason = '''', SentToDLQAt = 0\<rparr>"

definition DLQEntry_fields :: "(string \<times> DLQEntry setter) list" where
  "DLQEntry_fields =
     [(''original_stream_id'', string_field (\<lambda>x. OriginalStreamID_update (\<lambda>_. x))),
      (''job_data'', pointer_field JobEnvelope_fields zero_JobEnvelope JobData (\<lambda>x. JobData_update (\<lambda>_. x))),
      (''failure_reason'', string_field (\<lambda>x. FailureReason_update (\<lambda>_. x))),
      (''sent_to_dlq_at'', int_field (\<lambda>x. SentToDLQAt_update (\<lambda>_. x)))]"

definition json_of_DLQEntry :: "DLQEntry \<Rightarrow> json option" where
  "json_of_DLQEntry en =
     map_option (\<lambda>d. JObj [(''original_stream_id'', JStr (quote_body (OriginalStreamID en))),
                           (''job_data'', d),
                           (''failure_reason'', JStr (quote_body (FailureReason en))),
                           (''sent_to_dlq_at'', JNum (itoa (SentToDLQAt en)))])
       (json_of_pointer json_of_JobEnvelope (JobData en))"

section \<open>Marshal and Unmarshal\<close>

text \<open>
  The error values of \<open>encoding/json\<close> are only logged or wrapped; their texts are not modelled
  and one sentinel stands for each side.
\<close>

definition json_error :: goerror where "json_error = Sentinel ''encoding/json: decode''"
definition marshal_error :: goerror where "marshal_error = Sentinel ''encoding/json: encode''"

definition Marshal :: "json option \<Rightarrow> string go" where
  "Marshal j = (case j of None \<Rightarrow> Err marshal_error | Some v \<Rightarrow> Ok (print_json v))"

definition Unmarshal :: "(string \<times> 'r setter) list \<Rightarrow> 'r \<Rightarrow> string \<Rightarrow> 'r go" where
  "Unmarshal fs zero s =
     (case parse_document s of
        None \<Rightarrow> Err json_error
      | Some v \<Rightarrow> (case decode_struct fs zero v of None \<Rightarrow> Err json_error | Some r \<Rightarrow> Ok r))"

text \<open>\<open>json.NewDecoder(body).Decode(&v)\<close>: the first value of the body, whatever follows.\<close>

definition Decode :: "(string \<times> 'r setter) list \<Rightarrow> 'r \<Rightarrow> string \<Rightarrow> 'r go" where
  "Decode fs zero s =
     (case parse_first s of
        None \<Rightarrow> Err json_error
      | Some v \<Rightarrow> (case decode_struct fs zero v of None \<Rightarrow> Err json_error | Some r \<Rightarrow> Ok r))"

abbreviation "marshal_LogEvent e \<equiv> Marshal (json_of_LogEvent e)"
abbreviation "marshal_JobEnvelope e \<equiv> Marshal (json_of_JobEnvelope e)"
abbreviation "marshal_DLQEntry e \<equiv> Marshal (json_of_DLQEntry e)"
abbreviation "unmarshal_LogEvent s \<equiv> Unmarshal LogEvent_fields zero_LogEvent s"
abbreviation "unmarshal_JobEnvelope s \<equiv> Unmarshal JobEnvelope_fields zero_JobEnvelope s"
abbreviation "unmarshal_DLQEntry s \<equiv> Unmarshal DLQEntry_fields zero_DLQEntry s"

section \<open>Well-formed values\<close>

text \<open>
  A float whose JSON text reads back as the same float: these are the finite floats, all that \<open>json.Marshal\<close> accepts
  (lemma \<open>float_ok_iff\<close> in \<open>Models_Typing\<close>).
\<close>

definition float_ok :: "float64 \<Rightarrow> bool" where
  "float_ok f \<longleftrightarrow>
     (case json_float f of None \<Rightarrow> False | Some raw \<Rightarrow> num_ok raw \<and> float_of_raw raw = Some (GoFloat f))"

text \<open>Nesting at most \<open>d\<close>, valid UTF-8, keys in order and without repetition.\<close>

fun wf_value :: "nat \<Rightarrow> govalue \<Rightarrow> bool" where
  "wf_value d (GoFloat f) \<longleftrightarrow> float_ok f"
| "wf_value d (GoStr s) \<longleftrightarrow> valid_utf8 s"
| "wf_value d (GoArr vs) \<longleftrightarrow> 0 < d \<and> (\<forall>v\<in>set vs. wf_value (d - 1) v)"
| "wf_value d (GoMap m) \<longleftrightarrow> 0 < d \<and> sorted_wrt bytes_less (map fst m) \<and>
     (\<forall>kv\<in>set m. valid_utf8 (fst kv) \<and> wf_value (d - 1) (snd kv))"
| "wf_value d _ \<longleftrightarrow> True"

lemma bytes_less_irrefl [simp]: "\<not> bytes_less s s"
  by (induction s) simp_all

lemma bytes_less_asym: "bytes_less a b \<Longrightarrow> \<not> bytes_less b a"
  by (induction a b rule: bytes_less.induct) auto

lemma map_put_last:
  "\<forall>k'\<in>set (map fst m). bytes_less k' k \<Longrightarrow> map_put k v m = m @ [(k, v)]"
  by (induction k v m rule: map_put.induct) (auto dest: bytes_less_asym)

lemma neg_zero_text: "num_ok ''-0''" "float_of_raw ''-0'' = Some GoNegZero"
  by (code_simp, code_simp)

text \<open>What encoding a list of members promises, for the accumulator of the decoder.\<close>

definition members_ok :: "nat \<Rightarrow> (string \<times> govalue) list \<Rightarrow> bool" where
  "members_ok d m \<longleftrightarrow> (\<forall>kv\<in>set m. valid_utf8 (fst kv) \<and> wf_value d (snd kv))"

lemma value_roundtrip:
  "wf_value d v \<Longrightarrow> \<exists>j. json_of_value v = Some j \<and> wf_json d j \<and> value_of_json j = Some v"
  and values_roundtrip:
  "\<forall>v\<in>set vs. wf_value d v \<Longrightarrow>
   \<exists>js. json_of_values vs = Some js \<and> (\<forall>j\<in>set js. wf_json d j) \<and> values_of_json js = Some vs"
  and members_roundtrip:
  "members_ok d m \<Longrightarrow> sorted_wrt bytes_less (map fst (acc @ m)) \<Longrightarrow>
   \<exists>js. json_of_members m = Some js \<and> (\<forall>j\<in>set js. raw_ok (fst j) \<and> wf_json d (snd j)) \<and>
        members_of_json js acc = Some (acc @ m) \<and> (js = [] \<longleftrightarrow> m = [])"
proof (induction v and vs and m arbitrary: d and d and d acc
       rule: json_of_value_json_of_values_json_of_members.induct)
  case (3 f)
  then show ?case by (auto simp: float_ok_def json_of_float_def split: option.splits)
next
  case (6 vs)
  then have "0 < d" "\<forall>v\<in>set vs. wf_value (d - 1) v" by simp_all
  with "6.IH" [of "d - 1"] show ?case by auto
next
  case (7 m)
  then have "0 < d" "members_ok (d - 1) m" "sorted_wrt bytes_less (map fst ([] @ m))"
    by (simp_all add: members_ok_def)
  with "7.IH" [of "d - 1" "[]"] show ?case by auto
next
  case (9 v vs)
  from "9.IH"(1) [of d] "9.prems" obtain j
    where j: "json_of_value v = Some j" "wf_json d j" "value_of_json j = Some v" by auto
  from "9.IH"(2) [OF j(1), of d] "9.prems" obtain js
    where "json_of_values vs = Some js" "\<forall>j\<in>set js. wf_json d j" "values_of_json js = Some vs" by auto
  with j show ?case by auto
next
  case (11 k v m)
  from "11.IH"(1) [of d] "11.prems" obtain j
    where j: "json_of_value v = Some j" "wf_json d j" "value_of_json j = Some v"
    by (auto simp: members_ok_def)
  have k: "unquote (quote_body k) = Some k"
    using "11.prems" by (simp add: members_ok_def unquote_quote_body)
  have put: "map_put k v acc = acc @ [(k, v)]"
    using "11.prems" by (intro map_put_last) (auto simp: sorted_wrt_append)
  obtain js where "json_of_members m = Some js" "\<forall>j\<in>set js. raw_ok (fst j) \<and> wf_json d (snd j)"
    "members_of_json js (acc @ [(k, v)]) = Some ((acc @ [(k, v)]) @ m)"
    using "11.IH"(2) [OF j(1), of d "acc @ [(k, v)]"] "11.prems" by (auto simp: members_ok_def)
  with j k put show ?case by auto
qed (simp_all add: neg_zero_text unquote_quote_body)

section \<open>Round trips of the structs\<close>

definition wf_event :: "nat \<Rightarrow> LogEvent \<Rightarrow> bool" where
  "wf_event d e \<longleftrightarrow> wf_time (Timestamp e) \<and> valid_utf8 (Level e) \<and> valid_utf8 (Service e) \<and>
     valid_utf8 (Message e) \<and> valid_utf8 (TraceID e) \<and> 1 < d \<and> wf_value (d - 1) (GoMap (Metadata e))"

definition wf_envelope :: "nat \<Rightarrow> JobEnvelope \<Rightarrow> bool" where
  "wf_envelope d env \<longleftrightarrow> valid_utf8 (JobID env) \<and> valid_utf8 (EventType env) \<and>
     valid_utf8 (LastError env) \<and> in64 (EnqueuedAt env) \<and> in64 (RetryCount env) \<and>
     in64 (MaxRetries env) \<and> 0 < d \<and> (case Data env of None \<Rightarrow> True | Some e \<Rightarrow> wf_event (d - 1) e)"

definition wf_entry :: "nat \<Rightarrow> DLQEntry \<Rightarrow> bool" where
  "wf_entry d en \<longleftrightarrow> valid_utf8 (OriginalStreamID en) \<and> valid_utf8 (FailureReason en) \<and>
     in64 (SentToDLQAt en) \<and> 0 < d \<and> (case JobData en of None \<Rightarrow> True | Some env \<Rightarrow> wf_envelope (d - 1) env)"

lemma field_names:
  "unquote ''timestamp'' = Some ''timestamp''" "unquote ''level'' = Some ''level''"
  "unquote ''service'' = Some ''service''" "unquote ''message'' = Some ''message''"
  "unquote ''metadata'' = Some ''metadata''" "unquote ''trace_id'' = Some ''trace_id''"
  "unquote ''job_id'' = Some ''job_id''" "unquote ''data'' = Some ''data''"
  "unquote ''enqueued_at'' = Some ''enqueued_at''" "unquote ''retry_count'' = Some ''retry_count''"
  "unquote ''max_retries'' = Some ''max_retries''" "unquote ''event_type'' = Some ''event_type''"
  "unquote ''last_error'' = Some ''last_error''"
  "unquote ''original_stream_id'' = Some ''original_stream_id''"
  "unquote ''job_data'' = Some ''job_data''" "unquote ''failure_reason'' = Some ''failure_reason''"
  "unquote ''sent_to_dlq_at'' = Some ''sent_to_dlq_at''"
  by code_simp+

lemma field_names_raw:
  "raw_ok ''timestamp''" "raw_ok ''level''" "raw_ok ''service''" "raw_ok ''message''"
  "raw_ok ''metadata''" "raw_ok ''trace_id''" "raw_ok ''job_id''" "raw_ok ''data''"
  "raw_ok ''enqueued_at''" "raw_ok ''retry_count''" "raw_ok ''max_retries''" "raw_ok ''event_type''"
  "raw_ok ''last_error''" "raw_ok ''original_stream_id''" "raw_ok ''job_data''"
  "raw_ok ''failure_reason''" "raw_ok ''sent_to_dlq_at''"
  by code_simp+

lemma string_field_quote [simp]:
  "valid_utf8 s \<Longrightarrow> string_field upd r (JStr (quote_body s)) = Some (upd s r)"
  by (simp add: string_field_def unquote_quote_body)

lemma int_field_itoa [simp]: "in64 i \<Longrightarrow> int_field upd r (JNum (itoa i)) = Some (upd i r)"
  by (simp add: int_field_def)

lemma digits_scan: "\<forall>c\<in>set s. is_digit c \<Longrightarrow> takeWhile is_digit s = s \<and> dropWhile is_digit s = []"
  by (simp add: takeWhile_eq_all_conv)

lemma utoa_hd_zero: "utoa n = CHR ''0'' # cs \<Longrightarrow> cs = []"
proof (induction n arbitrary: cs rule: utoa.induct)
  case (1 n)
  show ?case
  proof (cases "n < 10")
    case True
    with 1 show ?thesis by simp
  next
    case False
    then have eq: "utoa (n div 10) @ [digit_char (n mod 10)] = CHR ''0'' # cs"
      using "1.prems" by (simp add: utoa_big)
    then obtain cs' where "utoa (n div 10) = CHR ''0'' # cs'"
      by (cases "utoa (n div 10)") auto
    with "1.IH" [OF False] have "utoa (n div 10) = ''0''" by simp
    then have "n div 10 = 0" using atou_utoa [of "n div 10"] by (simp add: is_digit_def digit_val_def)
    with False show ?thesis by simp
  qed
qed

lemma scan_int_utoa: "scan_int (utoa n) = Some (utoa n, [])"
proof (cases "utoa n")
  case (Cons c cs)
  then have all: "\<forall>x\<in>set (c # cs). is_digit x" using utoa_digits [of _ n] by simp
  show ?thesis
  proof (cases "c = CHR ''0''")
    case True
    with Cons utoa_hd_zero [of n cs] show ?thesis by (simp add: scan_int_def)
  next
    case False
    with all digits_scan [of "c # cs"] show ?thesis by (simp add: scan_int_def Cons)
  qed
qed simp

lemma num_ok_itoa [simp]: "num_ok (itoa i)"
proof (cases "i < 0")
  case True
  then show ?thesis
    by (simp add: num_ok_def scan_number_def itoa_def scan_int_utoa scan_frac_def scan_exp_def)
next
  case False
  obtain c cs where u: "utoa (nat i) = c # cs" by (cases "utoa (nat i)") auto
  with hd_utoa_digit [of "nat i"] have "c \<noteq> CHR ''-''" by (auto simp: is_digit_def)
  with False u scan_int_utoa [of "nat i"] show ?thesis
    by (simp add: num_ok_def scan_number_def itoa_def scan_frac_def scan_exp_def)
qed

lemma raw_ok_plain: "\<forall>c\<in>set s. c \<noteq> dquote \<and> c \<noteq> backslash \<and> 32 \<le> byte c \<Longrightarrow> raw_ok s"
  by (induction s) (simp_all add: raw_ok_def)

definition rfc3339_char :: "char \<Rightarrow> bool" where
  "rfc3339_char c \<longleftrightarrow> is_digit c \<or> c \<in> set ''-T:.+Z''"

lemma rfc3339_char_digit [simp]: "is_digit c \<Longrightarrow> rfc3339_char c"
  by (simp add: rfc3339_char_def)

lemma two_chars: "c \<in> set (two n) \<Longrightarrow> is_digit c"
  by (auto simp: two_def)

lemma print_frac_chars: "c \<in> set (print_frac n) \<Longrightarrow> rfc3339_char c"
  by (auto simp: print_frac_def Let_def rtrim0_def rfc3339_char_def dest!: set_dropWhileD fixed_digits_digits
      split: if_splits)

lemma print_zone_chars: "c \<in> set (print_zone n) \<Longrightarrow> rfc3339_char c"
  by (auto simp: print_zone_def rfc3339_char_def dest!: two_chars split: if_splits)

lemma format_rfc3339_chars: "c \<in> set (format_rfc3339nano t) \<Longrightarrow> rfc3339_char c"
  by (auto simp: format_rfc3339nano_def four_def dest!: two_chars print_frac_chars print_zone_chars)
     (simp_all add: rfc3339_char_def)

lemma rfc3339_char_plain: "rfc3339_char c \<Longrightarrow> c \<noteq> dquote \<and> c \<noteq> backslash \<and> 32 \<le> byte c"
  by (auto simp: rfc3339_char_def is_digit_def)

lemma raw_ok_rfc3339 [simp]: "raw_ok (format_rfc3339nano t)"
  by (rule raw_ok_plain) (blast dest: format_rfc3339_chars rfc3339_char_plain)

lemma time_field_format [simp]:
  "wf_time t \<Longrightarrow> time_field upd r (JStr (format_rfc3339nano t)) = Some (upd t r)"
  by (simp add: time_field_def parse_format_rfc3339)

lemma omitempty_wf [simp]:
  "raw_ok n \<Longrightarrow> \<forall>m\<in>set (omitempty n s). raw_ok (fst m) \<and> wf_json d (snd m)"
  by (simp add: omitempty_def)

lemma unmarshal_marshal:
  assumes "wf_json maxNestingDepth j" and "decode_struct fs zero j = Some r"
  shows "Unmarshal fs zero (print_json j) = Ok r"
  using assms by (simp add: Unmarshal_def parse_document_print)

lemma find_LogEvent:
  "find_field ''timestamp'' LogEvent_fields = Some (time_field (\<lambda>x. Timestamp_update (\<lambda>_. x)))"
  "find_field ''level'' LogEvent_fields = Some (string_field (\<lambda>x. Level_update (\<lambda>_. x)))"
  "find_field ''service'' LogEvent_fields = Some (string_field (\<lambda>x. Service_update (\<lambda>_. x)))"
  "find_field ''message'' LogEvent_fields = Some (string_field (\<lambda>x. Message_update (\<lambda>_. x)))"
  "find_field ''metadata'' LogEvent_fields = Some (map_field Metadata (\<lambda>x. Metadata_update (\<lambda>_. x)))"
  "find_field ''trace_id'' LogEvent_fields = Some (string_field (\<lambda>x. TraceID_update (\<lambda>_. x)))"
  by (simp_all add: find_field_def LogEvent_fields_def)

lemma find_JobEnvelope:
  "find_field ''job_id'' JobEnvelope_fields = Some (string_field (\<lambda>x. JobID_update (\<lambda>_. x)))"
  "find_field ''data'' JobEnvelope_fields = Some (pointer_field LogEvent_fields zero_LogEvent Data (\<lambda>x. Data_update (\<lambda>_. x)))"
  "find_field ''enqueued_at'' JobEnvelope_fields = Some (int_field (\<lambda>x. EnqueuedAt_update (\<lambda>_. x)))"
  "find_field ''retry_count'' JobEnvelope_fields = Some (int_field (\<lambda>x. RetryCount_update (\<lambda>_. x)))"
  "find_field ''max_retries'' JobEnvelope_fields = Some (int_field (\<lambda>x. MaxRetries_update (\<lambda>_. x)))"
  "find_field ''event_type'' JobEnvelope_fields = Some (string_field (\<lambda>x. EventType_update (\<lambda>_. x)))"
  "find_field ''last_error'' JobEnvelope_fields = Some (string_field (\<lambda>x. LastError_update (\<lambda>_. x)))"
  by (simp_all add: find_field_def JobEnvelope_fields_def)

lemma find_DLQEntry:
  "find_field ''original_stream_id'' DLQEntry_fields = Some (string_field (\<lambda>x. OriginalStreamID_update (\<lambda>_. x)))"
  "find_field ''job_data'' DLQEntry_fields = Some (pointer_field JobEnvelope_fields zero_JobEnvelope JobData (\<lambda>x. JobData_update (\<lambda>_. x)))"
  "find_field ''failure_reason'' DLQEntry_fields = Some (string_field (\<lambda>x. FailureReason_update (\<lambda>_. x)))"
  "find_field ''sent_to_dlq_at'' DLQEntry_fields = Some (int_field (\<lambda>x. SentToDLQAt_update (\<lambda>_. x)))"
  by (simp_all add: find_field_def DLQEntry_fields_def)

lemma LogEvent_decode:
  assumes e: "wf_event d e" and md: "members_of_json md [] = Some (Metadata e)" "md = [] \<longleftrightarrow> Metadata e = []"
  shows "decode_struct LogEvent_fields zero_LogEvent
           (JObj ([(''timestamp'', JStr (format_rfc3339nano (Timestamp e))),
                   (''level'', JStr (quote_body (Level e))),
                   (''service'', JStr (quote_body (Service e))),
                   (''message'', JStr (quote_body (Message e)))]
                  @ (if md = [] then [] else [(''metadata'', JObj md)])
                  @ omitempty ''trace_id'' (TraceID e))) = Some e"
  using assms
  by (cases e)
     (simp add: decode_struct_def field_names find_LogEvent wf_event_def omitempty_def
       zero_LogEvent_def map_field_def)

lemma LogEvent_roundtrip:
  assumes "wf_event d e"
  shows "\<exists>j. json_of_LogEvent e = Some j \<and> wf_json d j \<and>
             decode_struct LogEvent_fields zero_LogEvent j = Some e \<and> (\<exists>ms. j = JObj ms)"
proof -
  from assms have d: "1 < d" and "members_ok (d - 2) (Metadata e)"
    and "sorted_wrt bytes_less (map fst ([] @ Metadata e))"
    by (auto simp: wf_event_def members_ok_def numeral_2_eq_2)
  from members_roundtrip [OF this(2,3)] obtain md
    where md: "json_of_members (Metadata e) = Some md"
      "\<forall>j\<in>set md. raw_ok (fst j) \<and> wf_json (d - 2) (snd j)"
      "members_of_json md [] = Some (Metadata e)" "md = [] \<longleftrightarrow> Metadata e = []"
    by auto
  have t: "time_MarshalJSON (Timestamp e) = Some (format_rfc3339nano (Timestamp e))"
    using assms by (simp add: wf_event_def time_MarshalJSON_wf)
  show ?thesis
    using md t d LogEvent_decode [OF assms md(3,4), unfolded omitempty_def]
    by (simp add: json_of_LogEvent_def field_names_raw numeral_2_eq_2 ball_Un omitempty_def)
qed

lemma pointer_field_roundtrip:
  assumes "case p of None \<Rightarrow> j = JNull
           | Some a \<Rightarrow> (\<exists>ms. j = JObj ms) \<and> decode_struct fs zero j = Some a"
    and "get r = None"
  shows "pointer_field fs zero get upd r j = Some (upd p r)"
  using assms by (auto simp: pointer_field_def split: option.splits)

lemma JobEnvelope_roundtrip:
  assumes "wf_envelope d env"
  shows "\<exists>j. json_of_JobEnvelope env = Some j \<and> wf_json d j \<and>
             decode_struct JobEnvelope_fields zero_JobEnvelope j = Some env \<and> (\<exists>ms. j = JObj ms)"
proof -
  have "\<exists>j. json_of_pointer json_of_LogEvent (Data env) = Some j \<and> wf_json (d - 1) j \<and>
            (case Data env of None \<Rightarrow> j = JNull
             | Some a \<Rightarrow> (\<exists>ms. j = JObj ms) \<and> decode_struct LogEvent_fields zero_LogEvent j = Some a)"
    using assms LogEvent_roundtrip [of "d - 1"]
    by (cases "Data env") (auto simp: json_of_pointer_def wf_envelope_def)
  then obtain j where j: "json_of_pointer json_of_LogEvent (Data env) = Some j" "wf_json (d - 1) j"
    and c: "case Data env of None \<Rightarrow> j = JNull
            | Some a \<Rightarrow> (\<exists>ms. j = JObj ms) \<and> decode_struct LogEvent_fields zero_LogEvent j = Some a"
    by (elim exE conjE)
  note p = pointer_field_roundtrip [OF c]
  show ?thesis
    using assms j
    by (cases env) (simp add: json_of_JobEnvelope_def wf_envelope_def field_names_raw decode_struct_def field_names
         find_JobEnvelope zero_JobEnvelope_def p omitempty_def)
qed

lemma DLQEntry_roundtrip:
  assumes "wf_entry d en"
  shows "\<exists>j. json_of_DLQEntry en = Some j \<and> wf_json d j \<and>
             decode_struct DLQEntry_fields zero_DLQEntry j = Some en"
proof -
  have "\<exists>j. json_of_pointer json_of_JobEnvelope (JobData en) = Some j \<and> wf_json (d - 1) j \<and>
            (case JobData en of None \<Rightarrow> j = JNull
             | Some a \<Rightarrow> (\<exists>ms. j = JObj ms) \<and> decode_struct JobEnvelope_fields zero_JobEnvelope j = Some a)"
    using assms JobEnvelope_roundtrip [of "d - 1"]
    by (cases "JobData en") (auto simp: json_of_pointer_def wf_entry_def)
  then obtain j where j: "json_of_pointer json_of_JobEnvelope (JobData en) = Some j" "wf_json (d - 1) j"
    and c: "case JobData en of None \<Rightarrow> j = JNull
            | Some a \<Rightarrow> (\<exists>ms. j = JObj ms) \<and> decode_struct JobEnvelope_fields zero_JobEnvelope j = Some a"
    by (elim exE conjE)
  note p = pointer_field_roundtrip [OF c]
  show ?thesis
    using assms j
    by (cases en) (simp add: json_of_DLQEntry_def wf_entry_def field_names_raw decode_struct_def field_names
         find_DLQEntry zero_DLQEntry_def p)
qed

lemma envelope_text:
  assumes "wf_envelope maxNestingDepth env"
  obtains s where "marshal_JobEnvelope env = Ok s" "unmarshal_JobEnvelope s = Ok env"
proof -
  obtain j where j: "json_of_JobEnvelope env = Some j" "wf_json maxNestingDepth j"
    "decode_struct JobEnvelope_fields zero_JobEnvelope j = Some env" using JobEnvelope_roundtrip [OF assms] by auto
  show ?thesis by (rule that [OF _ unmarshal_marshal [OF j(2,3)]]) (simp add: Marshal_def j(1))
qed

lemma entry_text:
  assumes "wf_entry maxNestingDepth en"
  obtains s where "marshal_DLQEntry en = Ok s" "unmarshal_DLQEntry s = Ok en"
proof -
  obtain j where j: "json_of_DLQEntry en = Some j" "wf_json maxNestingDepth j"
    "decode_struct DLQEntry_fields zero_DLQEntry j = Some en" using DLQEntry_roundtrip [OF assms] by auto
  show ?thesis by (rule that [OF _ unmarshal_marshal [OF j(2,3)]]) (simp add: Marshal_def j(1))
qed

section \<open>A sample event\<close>

text \<open>The event the witnesses of the later theories use.\<close>

definition demo_event :: LogEvent where
  "demo_event = \<lparr>
     Timestamp = \<lparr>tm_year = 2024, tm_month = 2, tm_day = 29, tm_hour = 23, tm_min = 59, tm_sec = 58,
                  tm_nsec = 123000000, tm_offset = -330\<rparr>,
     Level = ''INFO'', Service = ''api'', Message = ''started'',
     Metadata = [(''ok'', GoBool True), (''tags'', GoArr [GoStr ''a'', GoNil, GoMap []])],
     TraceID = ''t1''\<rparr>"

lemma wf_demo_event [simp]: "3 < d \<Longrightarrow> wf_event d demo_event"
  by (simp add: wf_event_def demo_event_def wf_time_def daysIn_def isLeap_def)

text \<open>
  C12: What a service puts into the queue is what the other side takes out: the JSON text of a job
  envelope decodes to the same envelope, and the text of a dead letter entry to the same entry,
  for every envelope whose strings are valid UTF-8, whose integers fit 64 bits, whose
  timestamp RFC 3339 can express and whose metadata nests at most as deep as the decoder accepts.
\<close>

theorem envelope_and_entry_roundtrip:
  assumes "wf_envelope maxNestingDepth env" and "wf_entry maxNestingDepth en"
  shows "(\<exists>t. marshal_JobEnvelope env = Ok t \<and> unmarshal_JobEnvelope t = Ok env) \<and>
         (\<exists>t. marshal_DLQEntry en = Ok t \<and> unmarshal_DLQEntry t = Ok en)"
  using envelope_text [OF assms(1)] entry_text [OF assms(2)] by metis

definition demo_envelope :: JobEnvelope where
  "demo_envelope = \<lparr>JobID = ''3f2a'', Data = Some demo_event, EnqueuedAt = 1700000000, RetryCount = 1,
     MaxRetries = 3, EventType = ''log_event'', LastError = ''timeout''\<rparr>"

definition demo_entry :: DLQEntry where
  "demo_entry = \<lparr>OriginalStreamID = ''1700000000000-1'', JobData = Some demo_envelope,
     FailureReason = ''timeout'', SentToDLQAt = 1700000100\<rparr>"

lemma wf_demo_envelope [simp]: "4 < d \<Longrightarrow> wf_envelope d demo_envelope"
  by (simp add: wf_envelope_def demo_envelope_def in64_def)

lemma wf_demo_entry [simp]: "5 < d \<Longrightarrow> wf_entry d demo_entry"
  by (simp add: wf_entry_def demo_entry_def in64_def)

theorem envelope_and_entry_roundtrip_witness:
  "(\<exists>t. marshal_JobEnvelope demo_envelope = Ok t \<and> unmarshal_JobEnvelope t = Ok demo_envelope) \<and>
   (\<exists>t. marshal_DLQEntry demo_entry = Ok t \<and> unmarshal_DLQEntry t = Ok demo_entry)"
  by (rule envelope_and_entry_roundtrip) (simp_all add: maxNestingDepth_def)

end
