(* ===== verification/Go_Float_Text.thy ===== *)
theory Go_Float_Text
  imports Go_Number Go_Json
begin

text \<open>
  Floats as JSON text: what \<open>encoding/json\<close> prints for a finite float is a number of the grammar, and \<open>ParseFloat\<close> reads it back as
  the same float. The proof shows that seventeen decimal digits determine a binary64 number.
\<close>

section \<open>Finite binary64 numbers\<close>

text \<open>A finite number that rounding leaves as it is; every result of rounding is one.\<close>

definition binary64 :: "float64 \<Rightarrow> bool" where
  "binary64 f \<longleftrightarrow> (\<exists>x. f = Fin x \<and> round64 x = Fin x)"

lemma round_pos_multiple: "\<lbrakk>0 < y; y = pow2 (quantum y) * of_int n\<rbrakk> \<Longrightarrow> round_pos y = y"
proof -
  assume "0 < y" and n: "y = pow2 (quantum y) * of_int n"
  then have "y / pow2 (quantum y) = of_int n" by (metis nonzero_mult_div_cancel_left pow2_pos less_irrefl)
  then show ?thesis using n unfolding round_pos_def by (simp only: round_half_even_of_int)
qed

lemma round_pos_idem:
  assumes "0 < x" "0 < round_pos x" shows "round_pos (round_pos x) = round_pos x"
proof -
  define y where "y = round_pos x"
  define q where "q = quantum x"
  have y0: "0 < y" using assms(2) by (simp add: y_def)
  obtain n where n: "y = pow2 q * of_int n" by (simp add: y_def q_def round_pos_def)
  have "\<exists>m. y = pow2 (quantum y) * of_int m"
  proof (cases "quantum y \<le> q")
    case True
    then obtain k where "pow2 q / pow2 (quantum y) = of_int k" using pow2_div_int by blast
    then have "pow2 q = pow2 (quantum y) * of_int k" by (simp add: field_simps)
    with n show ?thesis by (metis mult.assoc of_int_mult)
  next
    case False
    then have e: "exponent y - 52 = quantum y" "exponent x < exponent y" by (auto simp: quantum_def q_def max_def split: if_splits)
    have q: "q \<le> exponent x + 1"
    proof (rule ccontr)
      assume "\<not> ?thesis"
      then have q1: "q = -1074" "exponent x + 1 \<le> - 1074" by (auto simp: q_def quantum_def max_def split: if_splits)
      have "x \<le> pow2 (-1074)" using exponent_spec [OF assms(1)] pow2_mono [OF q1(2)] by linarith
      then have "y \<le> pow2 (-1074)" unfolding y_def using q1(1) by (intro round_pos_le) (simp_all add: q_def)
      with exponent_spec [OF y0] have "pow2 (exponent y) \<le> pow2 (-1074)" by linarith
      then have "exponent y \<le> -1074" using power_int_strict_increasing [of "-1074" "exponent y" "2::rat"] by fastforce
      with e False q1 show False by simp
    qed
    have "y \<le> pow2 (exponent x + 1)" unfolding y_def using exponent_spec [OF assms(1)] q
      by (intro round_pos_le) (simp_all add: q_def)
    moreover have "pow2 (exponent x + 1) \<le> y" using exponent_spec [OF y0] pow2_mono [of "exponent x + 1" "exponent y"] e(2) by linarith
    ultimately have y2: "y = pow2 (exponent x + 1)" by simp
    have "pow2 (exponent y) \<le> pow2 (exponent x + 1)" using exponent_spec [OF y0] y2 by simp
    then have "exponent y = exponent x + 1"
      using power_int_strict_increasing [of "exponent x + 1" "exponent y" "2::rat"] e(2) by fastforce
    then have "quantum y \<le> exponent x + 1" using e(1) by simp
    then obtain k where "pow2 (exponent x + 1) / pow2 (quantum y) = of_int k" using pow2_div_int by blast
    then show ?thesis using y2 by (auto simp: field_simps)
  qed
  then show ?thesis using round_pos_multiple [OF y0] unfolding y_def [symmetric] by blast
qed

lemma round64_idem: "round64 x = Fin y \<Longrightarrow> round64 y = Fin y"
proof (cases "x = 0")
  case False
  assume r: "round64 x = Fin y"
  let ?r = "round_pos \<bar>x\<bar>"
  have y: "y = (if x < 0 then - ?r else ?r)" "exponent ?r < 1024" using r False by (auto simp: round64_def Let_def split: if_splits)
  have pos: "0 \<le> ?r" using round_pos_nonneg False by simp
  show ?thesis
  proof (cases "?r = 0")
    case False
    with round_pos_idem [of "\<bar>x\<bar>"] pos \<open>x \<noteq> 0\<close> have "round_pos ?r = ?r" by simp
    with y False pos show ?thesis by (auto simp: round64_def Let_def)
  next
    case True
    with y(1) have "y = 0" by (simp split: if_splits)
    then show ?thesis by (simp add: round64_def)
  qed
qed (simp add: round64_def)

lemma ParseFloat_binary64: "ParseFloat s = Some (Fin x) \<Longrightarrow> binary64 (Fin x)"
  unfolding ParseFloat_def binary64_def
  by (auto simp: Let_def split: prod.splits option.splits if_splits float64.splits list.splits dest: round64_idem)

section \<open>Powers of ten\<close>

lemma pow10_power_int: "pow10 k = power_int 10 k"
  by (simp add: pow10_def power_int_def inverse_eq_divide power_divide)

lemma pow10_pos [simp]: "0 < pow10 k"
  by (simp add: pow10_power_int zero_less_power_int)

lemma pow10_not_0 [simp]: "pow10 k \<noteq> 0"
  by (metis less_irrefl pow10_pos)

lemma pow10_add: "pow10 (i + j) = pow10 i * pow10 j"
  by (simp add: pow10_power_int power_int_add)

lemma pow10_mono: "i \<le> j \<Longrightarrow> pow10 i \<le> pow10 j"
  by (simp add: pow10_power_int power_int_increasing)

text \<open>The decimal exponents of powers of two, from \<open>10 ^ 59 <= 2 ^ 196\<close> and \<open>2 ^ 93 <= 10 ^ 28\<close>.\<close>

lemma ten_le_two_nat:
  assumes "196 * e \<le> 59 * n" shows "(10::rat) ^ e \<le> 2 ^ n"
proof -
  have "((10::rat) ^ e) ^ 59 = (10 ^ 59) ^ e" by (metis power_mult mult.commute)
  also have "\<dots> \<le> (2 ^ 196) ^ e" by (intro power_mono) simp_all
  also have "\<dots> = 2 ^ (196 * e)" by (simp only: power_mult)
  also have "\<dots> \<le> 2 ^ (59 * n)" using assms by (intro power_increasing) simp_all
  also have "\<dots> = (2 ^ n) ^ 59" by (metis power_mult mult.commute)
  finally show ?thesis by simp
qed

lemma two_le_ten_nat:
  assumes "28 * n \<le> 93 * e" shows "(2::rat) ^ n \<le> 10 ^ e"
proof -
  have "((2::rat) ^ n) ^ 93 = (2 ^ 93) ^ n" by (metis power_mult mult.commute)
  also have "\<dots> \<le> (10 ^ 28) ^ n" by (intro power_mono) simp_all
  also have "\<dots> = 10 ^ (28 * n)" by (simp only: power_mult)
  also have "\<dots> \<le> 10 ^ (93 * e)" using assms by (intro power_increasing) simp_all
  also have "\<dots> = (10 ^ e) ^ 93" by (metis power_mult mult.commute)
  finally show ?thesis by simp
qed

lemma ten_le_two:
  assumes "196 * e \<le> 59 * n" "28 * (- n) \<le> 93 * (- e)" shows "pow10 e \<le> pow2 n"
proof (cases "0 \<le> e")
  case True
  with assms(1) have n: "0 \<le> n" by linarith
  with True assms(1) have "196 * nat e \<le> 59 * nat n" by linarith
  from ten_le_two_nat [OF this] True n show ?thesis by (simp add: pow10_def power_int_def)
next
  case e: False
  show ?thesis
  proof (cases "0 \<le> n")
    case True
    have "pow10 e \<le> pow10 0" using e by (intro pow10_mono) simp
    also have "\<dots> = pow2 0" by (simp add: pow10_def)
    also have "\<dots> \<le> pow2 n" using True by (rule pow2_mono)
    finally show ?thesis .
  next
    case False
    with e assms(2) have "28 * nat (- n) \<le> 93 * nat (- e)" by linarith
    from two_le_ten_nat [OF this] e False show ?thesis by (simp add: pow10_def power_int_def field_simps)
  qed
qed

lemma two_le_ten:
  assumes "28 * n \<le> 93 * e" "196 * (- e) \<le> 59 * (- n)" shows "pow2 n \<le> pow10 e"
proof (cases "0 \<le> n")
  case True
  with assms(1) have e: "0 \<le> e" by linarith
  with True assms(1) have "28 * nat n \<le> 93 * nat e" by linarith
  from two_le_ten_nat [OF this] True e show ?thesis by (simp add: pow10_def power_int_def)
next
  case n: False
  show ?thesis
  proof (cases "0 \<le> e")
    case True
    have "pow2 n \<le> pow2 0" using n by (intro pow2_mono) simp
    also have "\<dots> = pow10 0" by (simp add: pow10_def)
    also have "\<dots> \<le> pow10 e" using True by (rule pow10_mono)
    finally show ?thesis .
  next
    case False
    with n assms(2) have "196 * nat (- e) \<le> 59 * nat (- n)" by linarith
    from ten_le_two_nat [OF this] n False show ?thesis by (simp add: pow10_def power_int_def field_simps)
  qed
qed

lemma dec_exp_spec:
  assumes "0 < x" "- 1074 \<le> exponent x" "exponent x \<le> 1023"
  shows "pow10 (dec_exp x) \<le> x \<and> x < pow10 (dec_exp x + 1)"
proof -
  define E where "E = exponent x"
  define e0 where "e0 = (E * 30103) div 100000"
  have E: "- 1074 \<le> E" "E \<le> 1023" using assms by (simp_all add: E_def)
  define r where "r = (E * 30103) mod 100000"
  have "E * 30103 = e0 * 100000 + r" "0 \<le> r" "r < 100000" by (simp_all add: e0_def r_def)
  then have e0: "e0 * 100000 \<le> E * 30103" "E * 30103 < e0 * 100000 + 100000" by linarith+
  have "pow2 (E + 1) \<le> pow10 (e0 + 2)" 
  proof (rule two_le_ten)
    have "28 * E + 28 \<le> 93 * e0 + 186" using E e0 by linarith
    then show "28 * (E + 1) \<le> 93 * (e0 + 2)" by simp
    have "- 196 * e0 - 392 \<le> - 59 * E - 59" using E e0 by linarith
    then show "196 * - (e0 + 2) \<le> 59 * - (E + 1)" by simp
  qed
  moreover have "pow10 (e0 - 1) \<le> pow2 E" 
  proof (rule ten_le_two)
    have "196 * e0 - 196 \<le> 59 * E" using E e0 by linarith
    then show "196 * (e0 - 1) \<le> 59 * E" by simp
    have "- 28 * E \<le> 93 - 93 * e0" using E e0 by linarith
    then show "28 * - E \<le> 93 * - (e0 - 1)" by simp
  qed
  moreover note exponent_spec [OF assms(1), folded E_def]
  ultimately have "x < pow10 (e0 + 2)" "pow10 (e0 - 1) \<le> x" by linarith+
  then show ?thesis unfolding dec_exp_def E_def [symmetric] e0_def [symmetric] Let_def
    by (auto simp: add.commute)
qed

section \<open>Seventeen digits\<close>

lemma round_half_even_near: "\<bar>t - of_int n\<bar> < 1 / 2 \<Longrightarrow> round_half_even t = n"
proof -
  assume t: "\<bar>t - of_int n\<bar> < 1 / 2"
  show ?thesis
  proof (cases "of_int n \<le> t")
    case True
    with t have "\<lfloor>t\<rfloor> = n" by (intro floor_unique) linarith+
    with t True show ?thesis by (simp add: round_half_even_def Let_def)
  next
    case False
    with t have "of_int (n - 1) \<le> t" "t < of_int (n - 1) + 1" by auto
    then have "\<lfloor>t\<rfloor> = n - 1" by (rule floor_unique)
    with t False show ?thesis by (simp add: round_half_even_def Let_def)
  qed
qed

lemma round_pos_near:
  assumes "x = pow2 (quantum v) * of_int n" "\<bar>v - x\<bar> < pow2 (quantum v) / 2" shows "round_pos v = x"
proof -
  have "v / pow2 (quantum v) - of_int n = (v - x) / pow2 (quantum v)"
    using pow2_pos [of "quantum v"] unfolding diff_divide_distrib by (metis assms(1) less_irrefl nonzero_mult_div_cancel_left)
  then have "\<bar>v / pow2 (quantum v) - of_int n\<bar> = \<bar>v - x\<bar> / pow2 (quantum v)" by (simp add: abs_divide)
  also have "\<dots> < 1 / 2" using assms(2) by (simp add: pos_divide_less_eq)
  finally have "round_half_even (v / pow2 (quantum v)) = n" by (rule round_half_even_near)
  then show ?thesis by (simp add: round_pos_def assms(1))
qed

lemma exponent_unique:
  assumes "pow2 e \<le> v" "v < pow2 (e + 1)" shows "exponent v = e"
proof -
  have v: "0 < v" using assms(1) pow2_pos [of e] by linarith
  have "pow2 (exponent v) < pow2 (e + 1)" "pow2 e < pow2 (exponent v + 1)" using exponent_spec [OF v] assms by linarith+
  then have "exponent v < e + 1" "e < exponent v + 1"
    using pow2_mono [of "e + 1" "exponent v"] pow2_mono [of "exponent v + 1" e] by linarith+
  then show ?thesis by simp
qed

text \<open>A value that is closer to a binary64 number than half the distance to its neighbours rounds to it.\<close>

lemma round_pos_close:
  assumes x: "0 < x" "round_pos x = x" and close: "\<bar>v - x\<bar> \<le> x / (2 * 10 ^ 16)" shows "round_pos v = x"
proof -
  define E where "E = exponent x"
  define Q where "Q = quantum x"
  have E: "pow2 E \<le> x" "x < pow2 (E + 1)" using exponent_spec [OF x(1)] by (simp_all add: E_def)
  have Q: "E - 52 \<le> Q" "- 1074 \<le> Q" by (simp_all add: Q_def quantum_def E_def)
  obtain n where n: "x = pow2 Q * of_int n" using x(2) by (metis round_pos_def Q_def)
  have "x / (2 * 10 ^ 16) < x" using x(1) by (simp add: field_simps)
  then have v: "0 < v" using close by linarith
  have n0: "1 \<le> n" using x(1) n pow2_pos [of Q] by (simp add: zero_less_mult_iff)
  then have "pow2 Q * 1 \<le> pow2 Q * of_int n" by (intro mult_left_mono) (simp_all add: less_imp_le)
  then have "pow2 Q < pow2 (E + 1)" using n E(2) by linarith
  then have QE: "Q \<le> E" using pow2_mono [of "E + 1" Q] by linarith
  have small: "x / (2 * 10 ^ 16) < pow2 (E - 53)"
  proof -
    have "x / (2 * 10 ^ 16) < pow2 (E + 1) / (2 * 10 ^ 16)" using E(2) by (simp add: divide_strict_right_mono)
    also have "\<dots> = pow2 (E - 53) * (2 ^ 54 / (2 * 10 ^ 16))" by (simp add: power_int_diff power_int_add)
    also have "\<dots> \<le> pow2 (E - 53) * 1" by (intro mult_left_mono) (simp_all add: less_imp_le)
    finally show ?thesis by simp
  qed
  have half: "pow2 (Q - 1) = pow2 Q / 2" by (simp add: power_int_diff)
  have "pow2 (E - 53) \<le> pow2 (Q - 1)" using Q by (intro pow2_mono) simp
  then have near: "\<bar>v - x\<bar> < pow2 Q / 2" using small close half by linarith
  have grid: "pow2 k + pow2 Q \<le> pow2 Q * of_int m" if lt: "pow2 k < pow2 Q * of_int m" and le: "Q \<le> k" for k m
  proof -
    obtain l where l: "pow2 k / pow2 Q = of_int l" using pow2_div_int [OF le] by blast
    then have k: "pow2 k = pow2 Q * of_int l" by (simp add: field_simps)
    with lt have "of_int l < (of_int m :: rat)" by (simp add: mult_less_cancel_left_pos)
    then have "l + 1 \<le> m" by simp
    then have "of_int (l + 1) \<le> (of_int m :: rat)" by (simp only: of_int_le_iff)
    then have "pow2 Q * of_int (l + 1) \<le> pow2 Q * of_int m" by (intro mult_left_mono) (simp_all add: less_imp_le)
    then show ?thesis by (simp add: k distrib_left)
  qed
  show ?thesis
  proof (cases "pow2 E \<le> v")
    case True
    have "x + pow2 Q \<le> pow2 (E + 1)"
    proof -
      obtain l where l: "pow2 (E + 1) / pow2 Q = of_int l" using pow2_div_int [of Q "E + 1"] QE by auto
      then have k: "pow2 (E + 1) = pow2 Q * of_int l" by (simp add: field_simps)
      with E(2) n have "of_int n < (of_int l :: rat)" by (simp add: mult_less_cancel_left_pos)
      then have "of_int (n + 1) \<le> (of_int l :: rat)" by (simp only: of_int_le_iff of_int_less_iff)
      then have "pow2 Q * of_int (n + 1) \<le> pow2 Q * of_int l" by (intro mult_left_mono) (simp_all add: less_imp_le)
      then show ?thesis by (simp add: k n distrib_left)
    qed
    then have "v < pow2 (E + 1)" using near pow2_pos [of Q] by linarith
    then have "exponent v = E" using exponent_unique True by blast
    then have "quantum v = Q" by (simp add: quantum_def Q_def E_def)
    with round_pos_near n near show ?thesis by simp
  next
    case False
    have xE: "x = pow2 E"
    proof (rule ccontr)
      assume "x \<noteq> pow2 E"
      with E(1) grid [of E n] QE n have "pow2 E + pow2 Q \<le> x" by simp
      with False near pow2_pos [of Q] show False by linarith
    qed
    have "pow2 Q \<le> pow2 E" using QE by (rule pow2_mono)
    then have "pow2 E \<le> v * 2" using near xE by linarith
    then have "pow2 (E - 1) \<le> v" by (simp add: power_int_diff)
    then have ev: "exponent v = E - 1" using False by (intro exponent_unique) simp_all
    define Q' where "Q' = quantum v"
    have Q': "Q' = max (E - 53) (- 1074)" by (simp add: Q'_def quantum_def ev)
    then have "Q' \<le> E" using QE Q by simp
    then obtain l where "pow2 E / pow2 Q' = of_int l" using pow2_div_int by blast
    then have l: "x = pow2 Q' * of_int l" by (simp add: xE field_simps)
    have "x / (2 * 10 ^ 16) = pow2 (E - 54) * (2 ^ 54 / (2 * 10 ^ 16))" by (simp add: xE power_int_diff)
    also have "\<dots> < pow2 (E - 54) * 1" by (intro mult_strict_left_mono) simp_all
    finally have "\<bar>v - x\<bar> < pow2 (E - 54)" using close by simp
    also have "\<dots> \<le> pow2 (Q' - 1)" using Q' by (intro pow2_mono) simp
    also have "\<dots> = pow2 Q' / 2" by (simp add: power_int_diff)
    finally show ?thesis using round_pos_near l by (simp add: Q'_def)
  qed
qed

definition positive64 :: "rat \<Rightarrow> bool" where
  "positive64 x \<longleftrightarrow> 0 < x \<and> round_pos x = x \<and> exponent x < 1024"

lemma positive64_round: "positive64 x \<Longrightarrow> \<bar>v - x\<bar> \<le> x / (2 * 10 ^ 16) \<Longrightarrow> round64 v = Fin x"
proof -
  assume x: "positive64 x" and c: "\<bar>v - x\<bar> \<le> x / (2 * 10 ^ 16)"
  have "x / (2 * 10 ^ 16) < x" using x by (simp add: positive64_def field_simps)
  then have "0 < v" using c by linarith
  with round_pos_close [OF _ _ c] x show ?thesis by (simp add: positive64_def round64_def)
qed

lemma positive64_exponent: "positive64 x \<Longrightarrow> - 1074 \<le> exponent x"
proof -
  assume x: "positive64 x"
  then obtain n where n: "x = pow2 (quantum x) * of_int n" by (metis positive64_def round_pos_def)
  then have "0 < pow2 (quantum x) * of_int n" using x by (metis positive64_def)
  then have "1 \<le> n" using pow2_pos [of "quantum x"] by (simp add: zero_less_mult_iff)
  then have "pow2 (quantum x) * 1 \<le> pow2 (quantum x) * of_int n" by (intro mult_left_mono) (simp_all add: less_imp_le)
  then have "pow2 (quantum x) \<le> x" using n by simp
  moreover have "pow2 (- 1074) \<le> pow2 (quantum x)" by (intro pow2_mono) (simp add: quantum_def)
  moreover have "x < pow2 (exponent x + 1)" using exponent_spec x by (simp add: positive64_def)
  ultimately have "pow2 (- 1074) < pow2 (exponent x + 1)" by linarith
  then show ?thesis using pow2_mono [of "exponent x + 1" "- 1074"] by linarith
qed

lemma seventeen_digits:
  assumes "positive64 x" "q = dec_exp x - 16" "m = nat \<lfloor>x / pow10 q\<rfloor>"
  shows "rounds_back x m q \<or> rounds_back x (Suc m) q"
proof -
  have x: "0 < x" "exponent x \<le> 1023" using assms(1) by (simp_all add: positive64_def)
  note e = dec_exp_spec [OF x(1) positive64_exponent [OF assms(1)] x(2)]
  define t where "t = x / pow10 q"
  have t: "0 \<le> t" "x = t * pow10 q" using x(1) by (simp_all add: t_def less_imp_le)
  have m: "of_nat m \<le> t" "t < of_nat m + 1" using t(1) unfolding assms(3) t_def [symmetric]
    by (simp_all add: of_nat_floor) linarith
  have small: "pow10 q \<le> x / 10 ^ 16"
  proof -
    have "pow10 q * 10 ^ 16 = pow10 (q + 16)" by (simp add: pow10_add) (simp add: pow10_def)
    also have "\<dots> \<le> x" using e assms(2) by simp
    finally show ?thesis by (simp add: field_simps)
  qed
  have rb: "rounds_back x k q" if "\<bar>of_nat k - t\<bar> \<le> 1 / 2" for k
  proof -
    have "of_nat k * pow10 q - x = (of_nat k - t) * pow10 q" by (simp add: t(2) left_diff_distrib)
    then have "\<bar>of_nat k * pow10 q - x\<bar> = \<bar>of_nat k - t\<bar> * pow10 q"
      by (simp only: abs_mult abs_of_pos [OF pow10_pos])
    also have "\<dots> \<le> 1 / 2 * pow10 q" using that by (intro mult_right_mono) (simp_all add: less_imp_le)
    also have "\<dots> \<le> x / (2 * 10 ^ 16)" using small by simp
    finally show ?thesis unfolding rounds_back_def by (rule positive64_round [OF assms(1)])
  qed
  show ?thesis
  proof (cases "t - of_nat m \<le> 1 / 2")
    case True
    with m rb [of m] show ?thesis by simp
  next
    case False
    with m rb [of "Suc m"] show ?thesis by (simp add: abs_le_iff)
  qed
qed

lemma dec_exp_range: "positive64 x \<Longrightarrow> - 400 \<le> dec_exp x \<and> dec_exp x \<le> 400"
proof -
  assume x: "positive64 x"
  define E where "E = exponent x"
  have "- 1074 \<le> E" "E \<le> 1023" using positive64_exponent [OF x] x by (simp_all add: E_def positive64_def)
  then have "- 399 \<le> (E * 30103) div 100000" "(E * 30103) div 100000 \<le> 399" by linarith+
  then show ?thesis by (simp add: dec_exp_def Let_def flip: E_def)
qed

text \<open>What the search for the shortest digits finds.\<close>

definition digits_for :: "rat \<Rightarrow> nat \<times> int \<Rightarrow> bool" where
  "digits_for x mq \<longleftrightarrow> rounds_back x (fst mq) (snd mq) \<and> 0 < fst mq \<and> fst mq \<le> 10 ^ 17 \<and> \<bar>snd mq\<bar> \<le> 500"

lemma candidate_range:
  assumes "positive64 x" "1 \<le> n" "n \<le> 17" "q = dec_exp x - int n + 1" "m = nat \<lfloor>x / pow10 q\<rfloor>"
  shows "0 < m \<and> m < 10 ^ 17 \<and> \<bar>q\<bar> \<le> 500"
proof -
  have x: "0 < x" "exponent x \<le> 1023" using assms(1) by (simp_all add: positive64_def)
  note e = dec_exp_spec [OF x(1) positive64_exponent [OF assms(1)] x(2)]
  have "pow10 q * 1 \<le> pow10 (dec_exp x)" using assms(2,4) by (simp add: pow10_mono)
  with e have "1 \<le> x / pow10 q" by (simp add: pos_le_divide_eq)
  then have "1 \<le> \<lfloor>x / pow10 q\<rfloor>" by simp
  moreover have "x / pow10 q < 10 ^ 17"
  proof -
    have "x < pow10 (q + int n)" using e assms(4) by simp
    also have "\<dots> \<le> pow10 (q + 17)" using assms(3) by (intro pow10_mono) simp
    also have "\<dots> = pow10 q * 10 ^ 17" by (simp add: pow10_add) (simp add: pow10_def)
    finally show ?thesis by (simp add: pos_divide_less_eq mult.commute)
  qed
  then have "\<lfloor>x / pow10 q\<rfloor> < int (10 ^ 17)" by (simp add: floor_less_iff)
  ultimately have "0 < m" "m < 10 ^ 17" unfolding assms(5) by (simp, metis nat_less_iff zero_le_one order_trans)
  moreover have "\<bar>q\<bar> \<le> 500" using dec_exp_range [OF assms(1)] assms(2-4) by linarith
  ultimately show ?thesis by simp
qed

lemma shortest_digits_found:
  assumes "positive64 x" "n + k = 18" "0 < k" "1 \<le> n"
  shows "\<exists>mq. shortest_digits k n x = Some mq \<and> digits_for x mq"
  using assms
proof (induction k arbitrary: n)
  case (Suc k)
  define q where "q = dec_exp x - int n + 1"
  define m where "m = nat \<lfloor>x / pow10 q\<rfloor>"
  have r: "0 < m" "m < 10 ^ 17" "\<bar>q\<bar> \<le> 500" using candidate_range [OF Suc(2) _ _ q_def m_def] Suc by simp_all
  then have lo: "rounds_back x m q \<Longrightarrow> digits_for x (m, q)" and hi: "rounds_back x (Suc m) q \<Longrightarrow> digits_for x (Suc m, q)"
    by (simp_all add: digits_for_def)
  show ?case
  proof (cases "rounds_back x m q \<or> rounds_back x (Suc m) q")
    case True
    with lo hi show ?thesis by (auto simp: Let_def simp flip: q_def m_def)
  next
    case False
    have "k \<noteq> 0"
    proof
      assume "k = 0"
      with Suc have "q = dec_exp x - 16" by (simp add: q_def)
      from seventeen_digits [OF Suc(2) this m_def] False show False by simp
    qed
    with Suc(1) [of "Suc n"] Suc False show ?thesis by (simp add: Let_def flip: q_def m_def)
  qed
qed simp

lemma strip_zeros_spec:
  "0 < m \<Longrightarrow> \<exists>m' j. strip_zeros m q = (m', q + int j) \<and> 0 < m' \<and> m = m' * 10 ^ j"
proof (induction m q rule: strip_zeros.induct)
  case (1 m q)
  show ?case
  proof (cases "m mod 10 \<noteq> 0")
    case True
    then show ?thesis using 1(2) by (intro exI [of _ m] exI [of _ 0]) (simp add: strip_zeros.simps)
  next
    case False
    then have m: "m = m div 10 * 10" by auto
    with 1(2) have "0 < m div 10" by (metis mult_zero_left neq0_conv)
    with 1(1) 1(2) False obtain m' j where "strip_zeros (m div 10) (q + 1) = (m', q + 1 + int j)" "0 < m'" "m div 10 = m' * 10 ^ j" by auto
    with False 1(2) have "strip_zeros m q = (m', q + int (Suc j))" by (simp add: strip_zeros.simps [of m])
    moreover have "m = m' * 10 ^ Suc j" using m \<open>m div 10 = m' * 10 ^ j\<close> by simp
    ultimately show ?thesis using \<open>0 < m'\<close> by blast
  qed
qed

lemma strip_zeros_digits:
  assumes "digits_for x (m, q)" "strip_zeros m q = (m', q')"
  shows "round64 (of_nat m' * pow10 q') = Fin x \<and> 0 < m' \<and> m' \<le> 10 ^ 17 \<and> \<bar>q'\<bar> \<le> 600"
proof -
  obtain j where j: "q' = q + int j" "0 < m'" "m = m' * 10 ^ j"
    using strip_zeros_spec [of m q] assms by (auto simp: digits_for_def)
  have le: "10 ^ j \<le> m" "m' \<le> m" using j by simp_all
  then have "(10::nat) ^ j \<le> 10 ^ 17" using assms(1) by (simp add: digits_for_def)
  then have "j \<le> 17" by (rule power_le_imp_le_exp [rotated]) simp
  moreover have "of_nat m * pow10 q = of_nat m' * pow10 q'" by (simp add: j pow10_add) (simp add: pow10_def)
  then have "round64 (of_nat m' * pow10 q') = Fin x" using assms(1) by (simp add: digits_for_def rounds_back_def)
  moreover have "m' \<le> 10 ^ 17" using assms(1) le(2) by (simp add: digits_for_def)
  moreover have "\<bar>q\<bar> \<le> 500" using assms(1) by (simp add: digits_for_def)
  ultimately show ?thesis using j by auto
qed

section \<open>Reading the text back\<close>

definition dval :: "nat \<Rightarrow> string \<Rightarrow> nat" where
  "dval a ds = foldl (\<lambda>a c. a * 10 + digit_val c) a ds"

lemma dval_simps [simp]: "dval a [] = a" "dval a (c # cs) = dval (a * 10 + digit_val c) cs" "dval a (cs @ ds) = dval (dval a cs) ds"
  by (simp_all add: dval_def)

lemma dval_utoa: "dval 0 (utoa m) = m"
proof (induction m rule: utoa.induct)
  case (1 m)
  then show ?case by (cases "m < 10") (simp_all add: utoa_big)
qed

lemma digit_val_0 [simp]: "digit_val (CHR ''0'') = 0"
  by (simp add: digit_val_def)

lemma dval_zeros: "dval a (replicate k (CHR ''0'')) = a * 10 ^ k"
  by (induction k arbitrary: a) simp_all

lemma digit_plain:
  assumes "is_digit c" shows "c \<noteq> CHR ''_''" "c \<noteq> CHR ''.''" "ascii_lower c \<noteq> CHR ''x''" "ascii_lower c \<noteq> CHR ''e''"
    "c \<noteq> CHR ''+''" "c \<noteq> CHR ''-''" "ascii_lower c = c"
  using assms by (auto simp: is_digit_def ascii_lower_def)

lemma scan_mantissa_digits:
  assumes "\<forall>c\<in>set ds. is_digit c"
  shows "scan_mantissa False m (ds @ r) = scan_mantissa False
    (m\<lparr>m_val := dval (m_val m) ds, m_frac := m_frac m + (if m_dot m then length ds else 0), m_digits := m_digits m \<or> ds \<noteq> []\<rparr>) r"
  using assms
proof (induction ds arbitrary: m)
  case (Cons c cs)
  then have "is_digit c" by simp
  with Cons show ?case by (simp add: digit_plain digit_of_def)
qed simp

lemma dval_ge: "a \<le> dval a ds"
proof (induction ds arbitrary: a)
  case (Cons c cs)
  have "a \<le> a * 10 + digit_val c" by simp
  also note Cons [of "a * 10 + digit_val c"]
  finally show ?case by simp
qed simp

lemma scan_exp_digits_all:
  "\<lbrakk>\<forall>c\<in>set ds. is_digit c; dval e ds < 100000\<rbrakk> \<Longrightarrow> scan_exp_digits e ds = (dval e ds, [])"
proof (induction ds arbitrary: e)
  case (Cons c cs)
  have "e * 10 + digit_val c < 100000" using dval_ge [of "e * 10 + digit_val c" cs] Cons(3) by simp
  then have "e < 10000" by simp
  with Cons show ?case by (simp add: digit_plain)
qed simp

text \<open>The shape of the texts: an integer part, perhaps a fraction and perhaps an exponent.\<close>

definition exp_text :: "int option \<Rightarrow> string" where
  "exp_text ex = (case ex of None \<Rightarrow> [] | Some e \<Rightarrow> CHR ''e'' # (if e < 0 then CHR ''-'' else CHR ''+'') # utoa (nat \<bar>e\<bar>))"

definition number_text :: "string \<Rightarrow> string \<Rightarrow> int option \<Rightarrow> string" where
  "number_text ds fs ex = ds @ (if fs = [] then [] else CHR ''.'' # fs) @ exp_text ex"

abbreviation exp_val :: "int option \<Rightarrow> int" where
  "exp_val ex \<equiv> (case ex of None \<Rightarrow> 0 | Some e \<Rightarrow> e)"

lemma read_exp_text:
  assumes "\<bar>e\<bar> < 10000" shows "read_exp ((if e < 0 then CHR ''-'' else CHR ''+'') # utoa (nat \<bar>e\<bar>)) = Some (e, [])"
proof -
  obtain d ds where u: "utoa (nat \<bar>e\<bar>) = d # ds" by (meson neq_Nil_conv utoa_not_Nil)
  then have d: "is_digit d" using utoa_digits [of d "nat \<bar>e\<bar>"] by simp
  have "scan_exp_digits 0 (utoa (nat \<bar>e\<bar>)) = (nat \<bar>e\<bar>, [])"
    using scan_exp_digits_all [of "utoa (nat \<bar>e\<bar>)" 0] assms utoa_digits by (simp add: dval_utoa)
  with u d show ?thesis by (simp add: read_exp_def)
qed

lemma scan_mantissa_stop: "scan_mantissa False m (exp_text ex) = (m, exp_text ex)"
  by (simp add: exp_text_def digit_of_def is_digit_def split: option.splits)

lemma not_hex:
  assumes "ds \<noteq> []" "\<forall>c\<in>set ds. is_digit c"
  shows "(case number_text ds fs ex of a # b # _ # _ \<Rightarrow> a = CHR ''0'' \<and> ascii_lower b = CHR ''x'' | _ \<Rightarrow> False) = False"
proof -
  have "ascii_lower b \<noteq> CHR ''x''" if "number_text ds fs ex = a # b # r" for a b r
  proof -
    obtain c cs where ds: "ds = c # cs" using assms(1) by (cases ds) simp_all
    show ?thesis
    proof (cases cs)
      case (Cons c' cs')
      then have "b = c'" "is_digit c'" using assms(2) that by (simp_all add: number_text_def ds)
      then show ?thesis using digit_plain(3) [of c'] by simp
    next
      case Nil
      with that show ?thesis by (auto simp: number_text_def ds exp_text_def ascii_lower_def split: if_splits option.splits)
    qed
  qed
  then show ?thesis by (auto split: list.splits)
qed

lemma read_number_text:
  assumes "ds \<noteq> []" "\<forall>c\<in>set (ds @ fs). is_digit c" "\<bar>exp_val ex\<bar> < 10000"
  shows "read_float (number_text ds fs ex) = Some (of_nat (dval 0 (ds @ fs)) * pow10 (exp_val ex - int (length fs)), [])"
proof -
  let ?m = "\<lparr>m_val = dval 0 (ds @ fs), m_frac = length fs, m_dot = (fs \<noteq> []), m_digits = True\<rparr>"
  have sm: "scan_mantissa False \<lparr>m_val = 0, m_frac = 0, m_dot = False, m_digits = False\<rparr> (number_text ds fs ex) = (?m, exp_text ex)"
    using assms(1,2) by (cases "fs = []") (simp_all add: number_text_def scan_mantissa_digits scan_mantissa_stop)
  have hex: "(case number_text ds fs ex of a # b # _ # _ \<Rightarrow> a = CHR ''0'' \<and> ascii_lower b = CHR ''x'' | _ \<Rightarrow> False) = False"
    using assms by (intro not_hex) simp_all
  show ?thesis
  proof (cases ex)
    case None
    then have e: "exp_text ex = []" by (simp add: exp_text_def)
    show ?thesis unfolding read_float_def hex Let_def if_False sm prod.case e by (simp add: None)
  next
    case (Some e)
    then have e: "exp_text ex = CHR ''e'' # (if e < 0 then CHR ''-'' else CHR ''+'') # utoa (nat \<bar>e\<bar>)" by (simp add: exp_text_def)
    show ?thesis unfolding read_float_def hex Let_def if_False sm prod.case e list.case
      using read_exp_text [of e] assms(3) Some by (simp add: ascii_lower_def)
  qed
qed

lemma scan_int_text:
  assumes "ds \<noteq> []" "\<forall>c\<in>set ds. is_digit c" "ds = ''0'' \<or> hd ds \<noteq> CHR ''0''" "r = [] \<or> \<not> is_digit (hd r)"
  shows "scan_int (ds @ r) = Some (ds, r)"
proof -
  obtain c cs where ds: "ds = c # cs" using assms(1) by (cases ds) simp_all
  have r: "takeWhile is_digit r = []" "dropWhile is_digit r = r" using assms(4) by (cases r; simp)+
  have "takeWhile is_digit (ds @ r) = ds" "dropWhile is_digit (ds @ r) = r"
    using assms(2) r by (simp_all add: takeWhile_append2 dropWhile_append2)
  with assms ds show ?thesis by (auto simp: scan_int_def)
qed

lemma scan_number_text:
  assumes "ds \<noteq> []" "\<forall>c\<in>set (ds @ fs). is_digit c" "ds = ''0'' \<or> hd ds \<noteq> CHR ''0''"
  shows "scan_number (number_text ds fs ex) = Some (number_text ds fs ex, [])"
    "scan_number (CHR ''-'' # number_text ds fs ex) = Some (CHR ''-'' # number_text ds fs ex, [])"
proof -
  define t where "t = (if fs = [] then [] else CHR ''.'' # fs) @ exp_text ex"
  have ex: "scan_exp (exp_text ex) = Some (exp_text ex, [])"
  proof (cases ex)
    case (Some e)
    have all: "takeWhile is_digit (utoa n) = utoa n" "dropWhile is_digit (utoa n) = []" for n
      using utoa_digits by (simp_all add: takeWhile_eq_all_conv)
    show ?thesis by (simp add: Some exp_text_def scan_exp_def take_sign_def all)
  qed (simp add: exp_text_def scan_exp_def)
  have nd: "exp_text ex = [] \<or> \<not> is_digit (hd (exp_text ex))" by (simp add: exp_text_def is_digit_def split: option.splits)
  have frac: "scan_frac t = Some (if fs = [] then [] else CHR ''.'' # fs, exp_text ex)"
  proof (cases "fs = []")
    case True
    then show ?thesis by (simp add: t_def scan_frac_def exp_text_def split: option.splits)
  next
    case False
    have "takeWhile is_digit (exp_text ex) = [] \<and> dropWhile is_digit (exp_text ex) = exp_text ex"
      using nd by (cases "exp_text ex") simp_all
    then have "takeWhile is_digit (fs @ exp_text ex) = fs" "dropWhile is_digit (fs @ exp_text ex) = exp_text ex"
      using assms(2) by (simp_all add: takeWhile_append2 dropWhile_append2)
    with False show ?thesis by (simp add: t_def scan_frac_def)
  qed
  have "t = [] \<or> \<not> is_digit (hd t)" using nd by (simp add: t_def is_digit_def)
  with assms have int: "scan_int (ds @ t) = Some (ds, t)" by (intro scan_int_text) simp_all
  have shape: "number_text ds fs ex = ds @ t" by (simp add: number_text_def t_def)
  obtain c cs where ds: "ds = c # cs" using assms(1) by (cases ds) simp_all
  have "c \<noteq> CHR ''-''" using assms(2) ds digit_plain(6) [of c] by auto
  then show "scan_number (number_text ds fs ex) = Some (number_text ds fs ex, [])"
    "scan_number (CHR ''-'' # number_text ds fs ex) = Some (CHR ''-'' # number_text ds fs ex, [])"
    using int frac ex unfolding shape by (simp_all add: scan_number_def ds t_def)
qed

section \<open>The round trip of floats\<close>

lemma utoa_hd: "0 < m \<Longrightarrow> hd (utoa m) \<noteq> CHR ''0''"
proof (induction m rule: utoa.induct)
  case (1 m)
  have z: "digit_char d \<noteq> CHR ''0''" if "d < 10" "0 < d" for d
  proof
    assume "digit_char d = CHR ''0''"
    then have "(of_char (digit_char d) :: nat) = of_char (CHR ''0'')" by simp
    with that show False by simp
  qed
  show ?case
  proof (cases "m < 10")
    case True
    with z [of m] 1(2) show ?thesis by simp
  next
    case False
    then have "0 < m div 10" by simp
    with 1(1) False show ?thesis by (simp add: utoa_big)
  qed
qed

lemma utoa_length_le: "m < 10 ^ n \<Longrightarrow> 0 < n \<Longrightarrow> length (utoa m) \<le> n"
proof (induction n arbitrary: m)
  case (Suc n)
  show ?case
  proof (cases "m < 10")
    case False
    then have "m div 10 < 10 ^ n" using Suc(2) by (simp add: less_mult_imp_div_less mult.commute)
    moreover have "0 < n" using False Suc(2) by (cases n) simp_all
    ultimately show ?thesis using Suc(1) [of "m div 10"] False by (simp add: utoa_big)
  qed simp
qed simp

text \<open>What the two formats write.\<close>

lemma format_f_text:
  assumes "0 < m"
  shows "\<exists>ds fs. format_f m q = number_text ds fs None \<and> ds \<noteq> [] \<and> (\<forall>c\<in>set (ds @ fs). is_digit c) \<and> (ds = ''0'' \<or> hd ds \<noteq> CHR ''0'') \<and>
    of_nat (dval 0 (ds @ fs)) * pow10 (- int (length fs)) = of_nat m * pow10 q"
proof -
  define n where "n = length (utoa m)"
  have z: "is_digit (CHR ''0'')" by (simp add: is_digit_def)
  consider "0 \<le> q" | "q < 0" "nat (- q) < n" | "q < 0" "n \<le> nat (- q)" by linarith
  then show ?thesis
  proof cases
    case 1
    let ?ds = "utoa m @ replicate (nat q) (CHR ''0'')"
    have "format_f m q = number_text ?ds [] None" using 1 by (simp add: format_f_def number_text_def exp_text_def)
    moreover have "of_nat (dval 0 ?ds) * pow10 0 = of_nat m * pow10 q" using 1 by (simp add: dval_utoa dval_zeros pow10_def)
    ultimately show ?thesis using utoa_hd [OF assms] utoa_digits z by (intro exI [of _ ?ds] exI [of _ "[]"]) (auto simp: hd_append)
  next
    case 2
    let ?ds = "take (n - nat (- q)) (utoa m)" and ?fs = "drop (n - nat (- q)) (utoa m)"
    have len: "length ?fs = nat (- q)" using 2 by (simp add: n_def)
    then have "?fs \<noteq> []" using 2 by auto
    then have "format_f m q = number_text ?ds ?fs None" using 2 by (simp add: format_f_def number_text_def exp_text_def n_def Let_def)
    moreover have "dval 0 (?ds @ ?fs) = m" by (simp only: append_take_drop_id dval_utoa)
    moreover have "\<forall>c\<in>set (?ds @ ?fs). is_digit c" unfolding append_take_drop_id using utoa_digits by blast
    moreover have "hd ?ds = hd (utoa m)" "?ds \<noteq> []" using 2 by (simp_all add: n_def)
    moreover have "- int (length ?fs) = q" using len 2 by simp
    moreover note utoa_hd [OF assms]
    ultimately show ?thesis by metis
  next
    case 3
    let ?fs = "replicate (nat (- q) - n) (CHR ''0'') @ utoa m"
    have "format_f m q = number_text ''0'' ?fs None" using 3 by (simp add: format_f_def number_text_def exp_text_def n_def Let_def)
    moreover have "dval 0 (''0'' @ ?fs) = m" by (simp add: dval_zeros dval_utoa)
    moreover have "- int (length ?fs) = q" using 3 by (simp add: n_def)
    ultimately show ?thesis using utoa_digits z by (intro exI [of _ "''0''"] exI [of _ ?fs]) auto
  qed
qed

lemma format_e_text:
  assumes "0 < m" "m \<le> 10 ^ 17" "\<bar>q\<bar> \<le> 600"
  shows "\<exists>ds fs e. format_e m q = number_text ds fs (Some e) \<and> ds \<noteq> [] \<and> (\<forall>c\<in>set (ds @ fs). is_digit c) \<and> (ds = ''0'' \<or> hd ds \<noteq> CHR ''0'') \<and>
    \<bar>e\<bar> < 10000 \<and> of_nat (dval 0 (ds @ fs)) * pow10 (e - int (length fs)) = of_nat m * pow10 q"
proof -
  obtain d ds where u: "utoa m = d # ds" by (meson neq_Nil_conv utoa_not_Nil)
  let ?e = "q + int (length (utoa m)) - 1"
  have "format_e m q = number_text [d] ds (Some ?e)" by (simp add: format_e_def number_text_def exp_text_def u Let_def)
  moreover have "dval 0 ([d] @ ds) = m" using dval_utoa [of m] by (simp add: u)
  moreover have "length (utoa m) \<le> 18" using assms(2) by (intro utoa_length_le) simp_all
  then have "\<bar>?e\<bar> < 10000" using assms(3) by linarith
  moreover have "?e - int (length ds) = q" by (simp add: u)
  ultimately show ?thesis using utoa_hd [OF assms(1)] utoa_digits [of _ m] u
    by (intro exI [of _ "[d]"] exI [of _ ds] exI [of _ ?e]) auto
qed

lemma digit_not_letter:
  assumes "is_digit c" shows "ascii_lower c = c" "c \<noteq> CHR ''i''" "c \<noteq> CHR ''n''" "c \<noteq> CHR ''+''" "c \<noteq> CHR ''-''"
  using assms by (auto simp: is_digit_def ascii_lower_def)

definition finite_or_None :: "rat \<Rightarrow> float64 option" where
  "finite_or_None v = (case round64 v of Fin x \<Rightarrow> Some (Fin x) | _ \<Rightarrow> None)"

lemma finite_or_None_Some: "finite_or_None v = Some f \<Longrightarrow> \<exists>x. f = Fin x"
  by (cases "round64 v") (auto simp: finite_or_None_def)

lemma ParseFloat_digit:
  assumes "is_digit c"
  shows "ParseFloat (c # cs) = (case read_float (c # cs) of None \<Rightarrow> None
      | Some (v, rest) \<Rightarrow> if rest \<noteq> [] \<or> (CHR ''_'' \<in> set (c # cs) \<and> \<not> underscoreOK (c # cs)) then None else finite_or_None v)"
    and "ParseFloat (CHR ''-'' # c # cs) = (case read_float (c # cs) of None \<Rightarrow> None
      | Some (v, rest) \<Rightarrow> if rest \<noteq> [] \<or> (CHR ''_'' \<in> set (CHR ''-'' # c # cs) \<and> \<not> underscoreOK (CHR ''-'' # c # cs)) then None
         else finite_or_None (- v))"
  using digit_not_letter [OF assms] unfolding ParseFloat_def finite_or_None_def
  by (cases "read_float (c # cs)"; force simp: Let_def ascii_lower_def)+

lemma round64_minus: "round64 v = Fin x \<Longrightarrow> round64 (- v) = Fin (- x)"
  by (auto simp: round64_def Let_def split: if_splits)

lemma text_chars: "c \<in> set (number_text ds fs ex) \<Longrightarrow> \<forall>c\<in>set (ds @ fs). is_digit c \<Longrightarrow> c \<noteq> CHR ''_''"
  using utoa_digits digit_plain(1)
  by (auto simp: number_text_def exp_text_def split: if_splits option.splits)

lemma ParseFloat_text:
  assumes "ds \<noteq> []" "\<forall>c\<in>set (ds @ fs). is_digit c" "\<bar>exp_val ex\<bar> < 10000"
    and "round64 (of_nat (dval 0 (ds @ fs)) * pow10 (exp_val ex - int (length fs))) = Fin x"
  shows "ParseFloat (number_text ds fs ex) = Some (Fin x)" "ParseFloat (CHR ''-'' # number_text ds fs ex) = Some (Fin (- x))"
proof -
  obtain c cs where n: "number_text ds fs ex = c # cs" "is_digit c" using assms(1,2) by (cases ds) (auto simp: number_text_def)
  have u: "CHR ''_'' \<notin> set (number_text ds fs ex)" using text_chars assms(2) by blast
  show "ParseFloat (number_text ds fs ex) = Some (Fin x)" "ParseFloat (CHR ''-'' # number_text ds fs ex) = Some (Fin (- x))"
    using ParseFloat_digit [OF n(2), of cs] read_number_text [OF assms(1-3)] u assms(4) round64_minus [OF assms(4)]
    unfolding n(1) by (simp_all add: finite_or_None_def)
qed

theorem json_float_roundtrip:
  assumes "round64 x = Fin x"
  shows "\<exists>raw. json_float (Fin x) = Some raw \<and> num_ok raw \<and> ParseFloat raw = Some (Fin x)"
proof (cases "x = 0")
  case True
  have "num_ok ''0''" "ParseFloat ''0'' = Some (Fin 0)" by code_simp+
  with True show ?thesis by (simp add: json_float_def)
next
  case False
  have "round_pos \<bar>x\<bar> = \<bar>x\<bar>" "exponent (round_pos \<bar>x\<bar>) < 1024" using assms False
    by (auto simp: round64_def Let_def split: if_splits)
  then have p: "positive64 \<bar>x\<bar>" using False by (simp add: positive64_def)
  obtain m0 q0 where s: "shortest_digits 17 1 \<bar>x\<bar> = Some (m0, q0)" "digits_for \<bar>x\<bar> (m0, q0)"
    using shortest_digits_found [OF p, of 1 17] by auto
  obtain m q where z: "strip_zeros m0 q0 = (m, q)" by fastforce
  note d = strip_zeros_digits [OF s(2) z]
  define body where "body = (if \<bar>x\<bar> < 1 / 1000000 \<or> 10 ^ 21 \<le> \<bar>x\<bar> then format_e m q else format_f m q)"
  have raw: "json_float (Fin x) = Some (if x < 0 then CHR ''-'' # body else body)"
    using False s(1) z by (simp add: json_float_def body_def)
  have "\<exists>ds fs ex. body = number_text ds fs ex \<and> ds \<noteq> [] \<and> (\<forall>c\<in>set (ds @ fs). is_digit c) \<and> (ds = ''0'' \<or> hd ds \<noteq> CHR ''0'') \<and>
      \<bar>exp_val ex\<bar> < 10000 \<and> of_nat (dval 0 (ds @ fs)) * pow10 (exp_val ex - int (length fs)) = of_nat m * pow10 q"
  proof (cases "\<bar>x\<bar> < 1 / 1000000 \<or> 10 ^ 21 \<le> \<bar>x\<bar>")
    case True
    then have b: "body = format_e m q" by (simp add: body_def)
    from format_e_text [of m q] d obtain ds fs e where "format_e m q = number_text ds fs (Some e)" "ds \<noteq> []" "\<forall>c\<in>set (ds @ fs). is_digit c"
      "ds = ''0'' \<or> hd ds \<noteq> CHR ''0''" "\<bar>e\<bar> < 10000" "of_nat (dval 0 (ds @ fs)) * pow10 (e - int (length fs)) = of_nat m * pow10 q" by auto
    then show ?thesis unfolding b by (intro exI [of _ ds] exI [of _ fs] exI [of _ "Some e"]) simp
  next
    case False
    then have b: "body = format_f m q" by (simp add: body_def)
    from format_f_text [of m q] d obtain ds fs where "format_f m q = number_text ds fs None" "ds \<noteq> []" "\<forall>c\<in>set (ds @ fs). is_digit c"
      "ds = ''0'' \<or> hd ds \<noteq> CHR ''0''" "of_nat (dval 0 (ds @ fs)) * pow10 (- int (length fs)) = of_nat m * pow10 q" by auto
    then show ?thesis unfolding b by (intro exI [of _ ds] exI [of _ fs] exI [of _ None]) simp
  qed
  then obtain ds fs ex where b: "body = number_text ds fs ex" "ds \<noteq> []" "\<forall>c\<in>set (ds @ fs). is_digit c" "ds = ''0'' \<or> hd ds \<noteq> CHR ''0''"
    "\<bar>exp_val ex\<bar> < 10000" "of_nat (dval 0 (ds @ fs)) * pow10 (exp_val ex - int (length fs)) = of_nat m * pow10 q" by blast
  have "round64 (of_nat (dval 0 (ds @ fs)) * pow10 (exp_val ex - int (length fs))) = Fin \<bar>x\<bar>" using d b(6) by simp
  from ParseFloat_text [OF b(2,3,5) this] scan_number_text [OF b(2,3,4), of ex] raw b(1) show ?thesis
    by (cases "x < 0") (simp_all add: num_ok_def)
qed

text \<open>A number token starts like a number, so it is none of the words that \<open>ParseFloat\<close> accepts.\<close>

lemma number_token_head:
  assumes "number_token n" shows "\<exists>c cs. is_digit c \<and> (n = c # cs \<or> n = CHR ''-'' # c # cs)"
proof -
  obtain s r where s: "scan_number s = Some (n, r)" using assms by (auto simp: number_token_def)
  obtain sg s0 where p: "(case s of [] \<Rightarrow> ([], []) | c # cs \<Rightarrow> if c = CHR ''-'' then ([c], cs) else ([], s)) = (sg, s0)" by fastforce
  then have sg: "sg = [] \<or> sg = ''-''" by (auto split: list.splits if_splits)
  obtain i s1 t where i: "scan_int s0 = Some (i, s1)" and n: "n = sg @ i @ t"
    using s by (auto simp: scan_number_def p split: option.splits prod.splits)
  have "is_digit (CHR ''0'')" by (simp add: is_digit_def)
  with i obtain c cs where "i = c # cs" "is_digit c" by (cases s0) (auto simp: scan_int_def split: if_splits)
  with n sg show ?thesis by (intro exI [of _ c] exI [of _ "cs @ t"]) auto
qed

end
