(* ===== verification/Models_Typing.thy ===== *)
theory Models_Typing
  imports Models Go_Float_Text
begin

text \<open>
  The types of decoded data (\<open>pkg/models/log_event.go\<close>, \<open>internal/queue/types.go\<close>): whatever bytes are decoded, the strings of the result are
  valid UTF-8, its integers fit, its floats are finite, maps have their keys in order, and the nesting is bounded. This is the
  well-formedness that the round trips and the queue operations ask for, up to the zone offsets that only the decoder accepts.
\<close>

section \<open>Values\<close>

text \<open>The floats that survive a round trip are the finite ones.\<close>

lemma float_ok_iff: "float_ok f \<longleftrightarrow> binary64 f"
proof
  assume "float_ok f"
  then obtain raw where raw: "json_float f = Some raw" "float_of_raw raw = Some (GoFloat f)" by (auto simp: float_ok_def split: option.splits)
  then obtain x where "f = Fin x" by (cases f) (simp_all add: json_float_def)
  moreover have "ParseFloat raw = Some f" using raw(2) by (auto simp: float_of_raw_def split: option.splits if_splits)
  ultimately show "binary64 f" using ParseFloat_binary64 by blast
next
  assume "binary64 f"
  then obtain x where x: "f = Fin x" "round64 x = Fin x" by (auto simp: binary64_def)
  from json_float_roundtrip [OF x(2)] obtain raw where raw: "json_float f = Some raw" "num_ok raw" "ParseFloat raw = Some f" using x(1) by blast
  have "f = Fin 0 \<longrightarrow> raw = ''0''" using raw(1) by (auto simp: json_float_def)
  with raw show "float_ok f" by (auto simp: float_ok_def float_of_raw_def)
qed

lemma bytes_less_linear: "bytes_less a b \<or> a = b \<or> bytes_less b a"
proof (induction a b rule: bytes_less.induct)
  case (1 s)
  then show ?case by (cases s) auto
next
  case (3 a as b bs)
  then show ?case using linorder_less_linear [of "byte a" "byte b"] by auto
qed simp

lemma bytes_less_trans: "bytes_less a b \<Longrightarrow> bytes_less b c \<Longrightarrow> bytes_less a c"
proof (induction a b arbitrary: c rule: bytes_less.induct)
  case (3 a as b bs)
  then show ?case by (cases c) auto
next
  case (2 b bs)
  then show ?case by (cases c) auto
qed simp

lemma set_map_put: "set (map_put k v m) \<subseteq> insert (k, v) (set m)"
  by (induction k v m rule: map_put.induct) auto

lemma sorted_map_put:
  "sorted_wrt bytes_less (map fst m) \<Longrightarrow> sorted_wrt bytes_less (map fst (map_put k v m))"
proof (induction k v m rule: map_put.induct)
  case (2 k v k' v' m)
  then have m: "sorted_wrt bytes_less (map fst m)" "\<forall>x\<in>fst ` set m. bytes_less k' x" by simp_all
  consider "k = k'" | "k \<noteq> k'" "bytes_less k k'" | "k \<noteq> k'" "\<not> bytes_less k k'" by blast
  then show ?case
  proof cases
    case 2
    with m bytes_less_trans show ?thesis by (auto intro: bytes_less_trans)
  next
    case 3
    then have "bytes_less k' k" using bytes_less_linear by blast
    then have "\<forall>x\<in>fst ` set (map_put k v m). bytes_less k' x" using m(2) set_map_put [of k v m] by fastforce
    with 3 m "2.IH" show ?thesis by simp
  qed (use m in simp)
qed simp

lemma float_of_raw_typed:
  assumes "float_of_raw raw = Some v" "number_token raw" shows "wf_value d v"
proof -
  obtain f where f: "ParseFloat raw = Some f" using assms(1) by (auto simp: float_of_raw_def split: option.splits)
  from number_token_head [OF assms(2)] obtain c cs where c: "is_digit c" "raw = c # cs \<or> raw = CHR ''-'' # c # cs" by blast
  have "\<exists>x. f = Fin x" using f c(2) ParseFloat_digit [OF c(1), of cs]
    by (auto split: option.splits if_splits simp del: list.set dest: finite_or_None_Some finite_or_None_Some [OF sym])
  then obtain x where "f = Fin x" by blast
  with f ParseFloat_binary64 assms(1) show ?thesis by (auto simp: float_of_raw_def float_ok_iff)
qed

lemma value_typed:
  "\<lbrakk>value_of_json j = Some v; nested d j\<rbrakk> \<Longrightarrow> wf_value d v"
  and values_typed: "\<lbrakk>values_of_json js = Some vs; \<forall>j\<in>set js. nested d j\<rbrakk> \<Longrightarrow> \<forall>v\<in>set vs. wf_value d v"
  and members_typed: "\<lbrakk>members_of_json ms m = Some m'; \<forall>j\<in>set ms. nested d (snd j); wf_value (Suc d) (GoMap m)\<rbrakk> \<Longrightarrow>
    wf_value (Suc d) (GoMap m')"
proof (induction j and js and ms m arbitrary: v d and vs d and m' d
    rule: value_of_json_values_of_json_members_of_json.induct)
  case (3 raw)
  then show ?case using float_of_raw_typed by simp
next
  case (4 raw)
  then show ?case by (auto dest: unquote_valid)
next
  case (5 js)
  then show ?case by (cases d) auto
next
  case (6 ms)
  then show ?case by (cases d) auto
next
  case (10 raw j ms m)
  from "10.prems"(1) obtain k v where k: "unquote raw = Some k" and v: "value_of_json j = Some v"
    and rest: "members_of_json ms (map_put k v m) = Some m'" by (auto split: option.splits)
  have "wf_value d v" using "10.IH"(1) [OF k v] "10.prems"(2) by simp
  then have "wf_value (Suc d) (GoMap (map_put k v m))"
    using "10.prems"(3) unquote_valid [OF k] sorted_map_put set_map_put [of k v m] by fastforce
  from "10.IH"(2) [OF k v rest _ this] "10.prems"(2) show ?case by simp
qed (auto split: option.splits)

section \<open>Structs\<close>

text \<open>A decoder keeps an invariant of its record if every field does.\<close>

lemma find_field_in: "find_field key fs = Some f \<Longrightarrow> \<exists>n. (n, f) \<in> set fs"
  by (force simp: find_field_def split: option.splits dest: map_of_SomeD)

lemma decode_members_keeps:
  assumes "\<forall>f\<in>snd ` set fs. \<forall>r v r'. Q v \<and> P r \<and> f r v = Some r' \<longrightarrow> P r'"
  shows "\<lbrakk>decode_members fs r ms = Some r'; P r; \<forall>m\<in>set ms. Q (snd m)\<rbrakk> \<Longrightarrow> P r'"
  using assms
proof (induction fs r ms rule: decode_members.induct)
  case (2 fs r raw v ms)
  obtain key where key: "unquote raw = Some key" using 2(3) by (auto split: option.splits)
  show ?case
  proof (cases "find_field key fs")
    case None
    with 2(1) [OF key None] 2(3-) key show ?thesis by auto
  next
    case (Some f)
    then obtain r1 where r1: "f r v = Some r1" "decode_members fs r1 ms = Some r'"
      using 2(3) key by (auto split: option.splits)
    have "f \<in> snd ` set fs" using find_field_in [OF Some] by force
    then have "P r1" using 2(4-6) r1(1) by auto
    from 2(2) [OF key Some r1(1) r1(2) this _ 2(6)] 2(5) show ?thesis by auto
  qed
qed simp

definition typed_time :: "gotime \<Rightarrow> bool" where
  "typed_time t \<longleftrightarrow> wf_time (t\<lparr>tm_offset := 0\<rparr>) \<and> \<bar>tm_offset t\<bar> \<le> 25 * 60"

lemma parse_zone_range: "parse_zone s = Some off \<Longrightarrow> \<bar>off\<bar> \<le> 25 * 60"
  by (auto simp: parse_zone_def split: list.splits if_splits option.splits dest!: num2_le)

lemma parse_rfc3339_typed: "parse_rfc3339 s = Some t \<Longrightarrow> typed_time t"
  by (auto simp: parse_rfc3339_def typed_time_def wf_time_def
      dest!: parse_date_wf parse_clock_wf parse_frac_wf parse_zone_range
      split: option.splits list.splits if_splits prod.splits)

definition typed_event :: "nat \<Rightarrow> LogEvent \<Rightarrow> bool" where
  "typed_event d e \<longleftrightarrow> typed_time (Timestamp e) \<and> valid_utf8 (Level e) \<and> valid_utf8 (Service e) \<and>
     valid_utf8 (Message e) \<and> valid_utf8 (TraceID e) \<and> wf_value (Suc d) (GoMap (Metadata e))"

definition typed_envelope :: "nat \<Rightarrow> JobEnvelope \<Rightarrow> bool" where
  "typed_envelope d env \<longleftrightarrow> valid_utf8 (JobID env) \<and> valid_utf8 (EventType env) \<and>
     valid_utf8 (LastError env) \<and> in64 (EnqueuedAt env) \<and> in64 (RetryCount env) \<and>
     in64 (MaxRetries env) \<and> (\<forall>e. Data env = Some e \<longrightarrow> typed_event d e)"

definition typed_entry :: "nat \<Rightarrow> DLQEntry \<Rightarrow> bool" where
  "typed_entry d en \<longleftrightarrow> valid_utf8 (OriginalStreamID en) \<and> valid_utf8 (FailureReason en) \<and>
     in64 (SentToDLQAt en) \<and> (\<forall>env. JobData en = Some env \<longrightarrow> typed_envelope d env)"

text \<open>Each kind of field keeps its type. \<open>nested d\<close> is what the parser gives for the value of a field.\<close>

lemma string_field_typed: "string_field upd r v = Some r' \<Longrightarrow> (\<exists>s. valid_utf8 s \<and> r' = upd s r) \<or> r' = r"
  by (auto simp: string_field_def dest: unquote_valid split: json.splits)

lemma int_field_typed: "int_field upd r v = Some r' \<Longrightarrow> (\<exists>i. in64 i \<and> r' = upd i r) \<or> r' = r"
  by (auto simp: int_field_def dest: ParseInt_in64 split: json.splits)

lemma time_field_typed: "time_field upd r v = Some r' \<Longrightarrow> (\<exists>t. typed_time t \<and> r' = upd t r) \<or> r' = r"
  by (auto simp: time_field_def dest: parse_rfc3339_typed split: json.splits)

lemma map_field_typed:
  assumes "map_field get upd r v = Some r'" "nested (Suc d) v" "wf_value (Suc d) (GoMap (get r))"
  shows "\<exists>m. wf_value (Suc d) (GoMap m) \<and> r' = upd m r"
proof (cases v)
  case JNull
  then have "r' = upd [] r" "wf_value (Suc d) (GoMap [])" using assms(1) by (simp_all add: map_field_def)
  then show ?thesis by blast
next
  case (JObj ms)
  then obtain m where m: "members_of_json ms (get r) = Some m" "r' = upd m r" using assms(1) by (auto simp: map_field_def)
  from members_typed [OF m(1) _ assms(3)] assms(2) JObj have "wf_value (Suc d) (GoMap m)" by simp
  with m(2) show ?thesis by blast
qed (use assms(1) in \<open>simp_all add: map_field_def\<close>)

lemma pointer_field_typed:
  assumes "pointer_field fs zero get upd r v = Some r'"
    and "\<And>a a'. \<lbrakk>decode_struct fs a v = Some a'; T a\<rbrakk> \<Longrightarrow> T a'" "T zero" "\<And>a. get r = Some a \<Longrightarrow> T a"
  shows "\<exists>p. (\<forall>a. p = Some a \<longrightarrow> T a) \<and> r' = upd p r"
proof (cases "v = JNull")
  case True
  with assms(1) have "r' = upd None r" by (simp add: pointer_field_def)
  then show ?thesis by blast
next
  case False
  then obtain a where a: "decode_struct fs (case get r of None \<Rightarrow> zero | Some a \<Rightarrow> a) v = Some a" "r' = upd (Some a) r"
    using assms(1) by (auto simp: pointer_field_def split: json.splits)
  have "T (case get r of None \<Rightarrow> zero | Some a \<Rightarrow> a)" using assms(3,4) by (cases "get r") simp_all
  from assms(2) [OF a(1) this] a(2) show ?thesis by blast
qed

lemma zero_typed: "typed_event d zero_LogEvent" "typed_envelope d zero_JobEnvelope" "typed_entry d zero_DLQEntry"
  by (simp_all add: typed_event_def typed_envelope_def typed_entry_def zero_LogEvent_def zero_JobEnvelope_def zero_DLQEntry_def
      typed_time_def wf_time_def zero_time_def daysIn_def in64_def)

lemma event_decoded:
  assumes "decode_struct LogEvent_fields e v = Some e'" "nested (Suc (Suc d)) v" "typed_event d e" shows "typed_event d e'"
proof (cases v)
  case (JObj ms)
  have "\<forall>f\<in>snd ` set LogEvent_fields. \<forall>r v r'. nested (Suc d) v \<and> typed_event d r \<and> f r v = Some r' \<longrightarrow> typed_event d r'"
    by (auto simp: LogEvent_fields_def typed_event_def simp del: wf_value.simps
        dest!: string_field_typed time_field_typed map_field_typed)
  from decode_members_keeps [OF this] assms JObj show ?thesis by (simp add: decode_struct_def)
qed (use assms in \<open>simp_all add: decode_struct_def\<close>)

lemma envelope_decoded:
  assumes "decode_struct JobEnvelope_fields env v = Some env'" "nested (Suc (Suc (Suc d))) v" "typed_envelope d env"
  shows "typed_envelope d env'"
proof (cases v)
  case (JObj ms)
  have ptr: "\<exists>p. (\<forall>a. p = Some a \<longrightarrow> typed_event d a) \<and> r' = Data_update (\<lambda>_. p) r"
    if "pointer_field LogEvent_fields zero_LogEvent Data (\<lambda>x. Data_update (\<lambda>_. x)) r v = Some r'" "nested (Suc (Suc d)) v" "typed_envelope d r"
    for r v and r' :: JobEnvelope
    using pointer_field_typed [OF that(1), of "typed_event d"] event_decoded that(2,3) zero_typed(1)
    by (simp add: typed_envelope_def)
  have "\<forall>f\<in>snd ` set JobEnvelope_fields. \<forall>r v r'. nested (Suc (Suc d)) v \<and> typed_envelope d r \<and> f r v = Some r' \<longrightarrow> typed_envelope d r'"
    by (auto simp: JobEnvelope_fields_def typed_envelope_def dest!: string_field_typed int_field_typed ptr)
  from decode_members_keeps [OF this] assms JObj show ?thesis by (simp add: decode_struct_def)
qed (use assms in \<open>simp_all add: decode_struct_def\<close>)

lemma entry_decoded:
  assumes "decode_struct DLQEntry_fields en v = Some en'" "nested (Suc (Suc (Suc (Suc d)))) v" "typed_entry d en"
  shows "typed_entry d en'"
proof (cases v)
  case (JObj ms)
  have ptr: "\<exists>p. (\<forall>a. p = Some a \<longrightarrow> typed_envelope d a) \<and> r' = JobData_update (\<lambda>_. p) r"
    if "pointer_field JobEnvelope_fields zero_JobEnvelope JobData (\<lambda>x. JobData_update (\<lambda>_. x)) r v = Some r'" "nested (Suc (Suc (Suc d))) v"
      "typed_entry d r"
    for r v and r' :: DLQEntry
    using pointer_field_typed [OF that(1), of "typed_envelope d"] envelope_decoded that(2,3) zero_typed(2)
    by (simp add: typed_entry_def)
  have "\<forall>f\<in>snd ` set DLQEntry_fields. \<forall>r v r'. nested (Suc (Suc (Suc d))) v \<and> typed_entry d r \<and> f r v = Some r' \<longrightarrow> typed_entry d r'"
    by (auto simp: DLQEntry_fields_def typed_entry_def dest!: string_field_typed int_field_typed ptr)
  from decode_members_keeps [OF this] assms JObj show ?thesis by (simp add: decode_struct_def)
qed (use assms in \<open>simp_all add: decode_struct_def\<close>)

section \<open>Decoded values are typed, and encode again\<close>

text \<open>The offsets \<open>Time.MarshalJSON\<close> accepts: less than a day. \<open>UnmarshalJSON\<close> accepts up to a day and an hour.\<close>

definition zone_event :: "LogEvent \<Rightarrow> bool" where
  "zone_event e \<longleftrightarrow> \<bar>tm_offset (Timestamp e)\<bar> < 24 * 60"

definition zone_envelope :: "JobEnvelope \<Rightarrow> bool" where
  "zone_envelope env \<longleftrightarrow> (\<forall>e. Data env = Some e \<longrightarrow> zone_event e)"

definition zone_entry :: "DLQEntry \<Rightarrow> bool" where
  "zone_entry en \<longleftrightarrow> (\<forall>env. JobData en = Some env \<longrightarrow> zone_envelope env)"

lemma typed_event_wf: "\<lbrakk>typed_event d e; zone_event e\<rbrakk> \<Longrightarrow> wf_event (Suc (Suc d)) e"
  by (auto simp: typed_event_def wf_event_def zone_event_def typed_time_def wf_time_def)

lemma typed_envelope_wf: "\<lbrakk>typed_envelope d env; zone_envelope env\<rbrakk> \<Longrightarrow> wf_envelope (Suc (Suc (Suc d))) env"
  by (auto simp: typed_envelope_def wf_envelope_def zone_envelope_def typed_event_wf split: option.splits)

lemma typed_entry_wf: "\<lbrakk>typed_entry d en; zone_entry en\<rbrakk> \<Longrightarrow> wf_entry (Suc (Suc (Suc (Suc d)))) en"
  by (auto simp: typed_entry_def wf_entry_def zone_entry_def typed_envelope_wf split: option.splits)

lemma marshal_needs_zone:
  "marshal_LogEvent e = Ok t \<Longrightarrow> zone_event e"
  "marshal_JobEnvelope env = Ok t \<Longrightarrow> zone_envelope env"
  "marshal_DLQEntry en = Ok t \<Longrightarrow> zone_entry en"
  by (auto simp: Marshal_def json_of_LogEvent_def json_of_JobEnvelope_def json_of_DLQEntry_def json_of_pointer_def
      zone_event_def zone_envelope_def zone_entry_def time_MarshalJSON_def split: option.splits if_splits)

lemma event_text:
  assumes "wf_event maxNestingDepth e"
  obtains s where "marshal_LogEvent e = Ok s" "unmarshal_LogEvent s = Ok e"
proof -
  obtain j where j: "json_of_LogEvent e = Some j" "wf_json maxNestingDepth j"
    "decode_struct LogEvent_fields zero_LogEvent j = Some e" using LogEvent_roundtrip [OF assms] by auto
  show ?thesis by (rule that [OF _ unmarshal_marshal [OF j(2,3)]]) (simp add: Marshal_def j(1))
qed

lemma Unmarshal_tree:
  "Unmarshal fs z s = Ok r \<Longrightarrow> \<exists>v. nested maxNestingDepth v \<and> decode_struct fs z v = Some r"
  by (auto simp: Unmarshal_def parse_document_def dest: parse_nested split: option.splits if_splits)

lemma Decode_tree:
  "Decode fs z s = Ok r \<Longrightarrow> \<exists>v. nested maxNestingDepth v \<and> decode_struct fs z v = Some r"
  by (auto simp: Decode_def parse_first_def dest: parse_nested split: option.splits)

text \<open>A value with an offset the encoder accepts has a text that decodes to it; another has none.\<close>

definition reencodes :: "('a \<Rightarrow> string go) \<Rightarrow> (string \<Rightarrow> 'a go) \<Rightarrow> ('a \<Rightarrow> bool) \<Rightarrow> 'a \<Rightarrow> bool" where
  "reencodes enc dec zone a \<longleftrightarrow> (case enc a of Ok t \<Rightarrow> zone a \<and> dec t = Ok a | _ \<Rightarrow> \<not> zone a)"

lemma reencodesI:
  assumes "\<And>t. enc a = Ok t \<Longrightarrow> zone a" and "zone a \<Longrightarrow> \<exists>t. enc a = Ok t \<and> dec t = Ok a"
  shows "reencodes enc dec zone a"
  using assms by (fastforce simp: reencodes_def split: go.splits)

lemma event_typing:
  assumes "Decode LogEvent_fields zero_LogEvent body = Ok e"
  shows "typed_event (maxNestingDepth - 2) e \<and> reencodes (\<lambda>e. marshal_LogEvent e) (\<lambda>t. unmarshal_LogEvent t) zone_event e"
proof -
  have d: "maxNestingDepth = Suc (Suc (maxNestingDepth - 2))" by (simp add: maxNestingDepth_def)
  have t: "typed_event (maxNestingDepth - 2) e"
    using Decode_tree [OF assms] event_decoded [OF _ _ zero_typed(1)] d by metis
  have "\<exists>t. marshal_LogEvent e = Ok t \<and> unmarshal_LogEvent t = Ok e" if "zone_event e"
    using typed_event_wf [OF t that] event_text d by metis
  with t show ?thesis using marshal_needs_zone(1) by (blast intro: reencodesI)
qed

lemma envelope_typing:
  assumes "unmarshal_JobEnvelope job = Ok env"
  shows "typed_envelope (maxNestingDepth - 3) env \<and>
    reencodes (\<lambda>e. marshal_JobEnvelope e) (\<lambda>t. unmarshal_JobEnvelope t) zone_envelope env"
proof -
  have d: "maxNestingDepth = Suc (Suc (Suc (maxNestingDepth - 3)))" by (simp add: maxNestingDepth_def)
  have t: "typed_envelope (maxNestingDepth - 3) env"
    using Unmarshal_tree [OF assms] envelope_decoded [OF _ _ zero_typed(2)] d by metis
  have "\<exists>t. marshal_JobEnvelope env = Ok t \<and> unmarshal_JobEnvelope t = Ok env" if "zone_envelope env"
    using typed_envelope_wf [OF t that] envelope_text d by metis
  with t show ?thesis using marshal_needs_zone(2) by (blast intro: reencodesI)
qed

lemma entry_typing:
  assumes "unmarshal_DLQEntry entry = Ok en"
  shows "typed_entry (maxNestingDepth - 4) en \<and>
    reencodes (\<lambda>e. marshal_DLQEntry e) (\<lambda>t. unmarshal_DLQEntry t) zone_entry en"
proof -
  have d: "maxNestingDepth = Suc (Suc (Suc (Suc (maxNestingDepth - 4))))" by (simp add: maxNestingDepth_def)
  have t: "typed_entry (maxNestingDepth - 4) en"
    using Unmarshal_tree [OF assms] entry_decoded [OF _ _ zero_typed(3)] d by metis
  have "\<exists>t. marshal_DLQEntry en = Ok t \<and> unmarshal_DLQEntry t = Ok en" if "zone_entry en"
    using typed_entry_wf [OF t that] entry_text d by metis
  with t show ?thesis using marshal_needs_zone(3) by (blast intro: reencodesI)
qed

text \<open>
  C13: Decoding is typed: whatever bytes arrive, a request body that decodes to an event, a message that decodes to a job
  envelope and a dead letter entry that decodes to an entry are well formed. Their strings are valid UTF-8, their integers fit
  64 bits, their floats are finite, the keys of the metadata are in order and without repetition, and the nesting is within
  the decoder's bound. Encoding the value again succeeds exactly when its zone offset is below a day (the decoder accepts up
  to a day and an hour, the encoder does not), and gives a text that decodes to the same value.
\<close>

theorem decoding_is_typed:
  shows "(Decode LogEvent_fields zero_LogEvent body = Ok e \<longrightarrow>
      typed_event (maxNestingDepth - 2) e \<and>
      reencodes (\<lambda>e. marshal_LogEvent e) (\<lambda>t. unmarshal_LogEvent t) zone_event e) \<and>
    (unmarshal_JobEnvelope job = Ok env \<longrightarrow>
      typed_envelope (maxNestingDepth - 3) env \<and>
      reencodes (\<lambda>e. marshal_JobEnvelope e) (\<lambda>t. unmarshal_JobEnvelope t) zone_envelope env) \<and>
    (unmarshal_DLQEntry entry = Ok en \<longrightarrow>
      typed_entry (maxNestingDepth - 4) en \<and>
      reencodes (\<lambda>e. marshal_DLQEntry e) (\<lambda>t. unmarshal_DLQEntry t) zone_entry en)"
  using event_typing envelope_typing entry_typing by blast

text \<open>
  A body with a repeated key, a field name in capitals, text after the value and the offset 24:30, which the decoder accepts
  and the encoder refuses.
\<close>

definition demo_tree :: json where
  "demo_tree = JObj [(''timestamp'', JStr ''2024-02-29T23:59:58+24:30''), (''LEVEL'', JStr ''A''),
     (''metadata'', JObj [(''b'', JBool True), (''a'', JArr [JNull]), (''b'', JStr ''c'')])]"

definition demo_decoded :: LogEvent where
  "demo_decoded = \<lparr>Timestamp = \<lparr>tm_year = 2024, tm_month = 2, tm_day = 29, tm_hour = 23, tm_min = 59, tm_sec = 58,
                  tm_nsec = 0, tm_offset = 1470\<rparr>,
     Level = ''A'', Service = '''', Message = '''',
     Metadata = [(''a'', GoArr [GoNil]), (''b'', GoStr ''c'')], TraceID = ''''\<rparr>"

lemma demo_body_decodes: "Decode LogEvent_fields zero_LogEvent (print_json demo_tree @ '',x'') = Ok demo_decoded"
proof -
  have "wf_json 5 demo_tree" by code_simp
  then have "wf_json maxNestingDepth demo_tree" by (simp add: demo_tree_def maxNestingDepth_def)
  from parse_print(1) [OF this, of "'',x''"] have p: "parse_first (print_json demo_tree @ '',x'') = Some demo_tree"
    by (simp add: parse_first_def)
  have t: "parse_rfc3339 ''2024-02-29T23:59:58+24:30'' = Some (Timestamp demo_decoded)" by code_simp
  have u: "unquote ''A'' = Some ''A''" "unquote ''timestamp'' = Some ''timestamp''" "unquote ''LEVEL'' = Some ''LEVEL''"
    "unquote ''metadata'' = Some ''metadata''" "unquote ''a'' = Some ''a''" "unquote ''b'' = Some ''b''" "unquote ''c'' = Some ''c''" by code_simp+
  have l: "find_field ''LEVEL'' LogEvent_fields = Some (string_field (\<lambda>x. Level_update (\<lambda>_. x)))"
    by (simp add: find_field_def LogEvent_fields_def ascii_upper_def of_char_def char_of_def bit_0)
  have "decode_struct LogEvent_fields zero_LogEvent demo_tree = Some demo_decoded"
    by (simp add: decode_struct_def demo_tree_def u l t find_LogEvent time_field_def string_field_def map_field_def zero_LogEvent_def)
       (simp add: demo_decoded_def)
  with p show ?thesis by (simp add: Decode_def)
qed

theorem decoding_is_typed_witness:
  "Decode LogEvent_fields zero_LogEvent (print_json demo_tree @ '',x'') = Ok demo_decoded \<and>
   typed_event (maxNestingDepth - 2) demo_decoded \<and> (\<forall>t. marshal_LogEvent demo_decoded \<noteq> Ok t) \<and>
   (\<exists>job entry. unmarshal_JobEnvelope job = Ok demo_envelope \<and> typed_envelope (maxNestingDepth - 3) demo_envelope \<and>
      unmarshal_DLQEntry entry = Ok demo_entry \<and> typed_entry (maxNestingDepth - 4) demo_entry)"
proof -
  have "wf_envelope maxNestingDepth demo_envelope" "wf_entry maxNestingDepth demo_entry" by (simp_all add: maxNestingDepth_def)
  with envelope_text entry_text obtain job entry where j: "unmarshal_JobEnvelope job = Ok demo_envelope"
    and e: "unmarshal_DLQEntry entry = Ok demo_entry" by metis
  have "\<not> zone_event demo_decoded" by (simp add: zone_event_def demo_decoded_def)
  with demo_body_decodes j e
    decoding_is_typed [of "print_json demo_tree @ '',x''" demo_decoded job demo_envelope entry demo_entry]
  show ?thesis by (auto simp: reencodes_def split: go.splits)
qed

section \<open>Events at the nesting limit\<close>

text \<open>
  An envelope nests two levels more than the metadata of its event, so an event that was itself decoded at the
  limit gives an envelope that \<open>Marshal\<close> writes and \<open>Unmarshal\<close> refuses. \<open>shallow\<close> is the bound that an envelope allows.
\<close>

definition shallow :: "LogEvent \<Rightarrow> bool" where
  "shallow e \<longleftrightarrow> wf_value (maxNestingDepth - 2) (GoMap (Metadata e))"

lemma parse_print_deep:
  assumes "parse_value d (print_json v) = Some (w, r)" "wf_json d' v"
  shows "w = v \<and> r = [] \<and> nested d v"
proof -
  have "parse_value (d + d') (print_json v) = Some (w, r)" using parse_deeper [OF assms(1)] .
  moreover have "parse_value (d' + d) (print_json v) = Some (v, [])"
    using parse_deeper [OF parse_print(1) [OF assms(2), of "[]"]] by (simp add: delim_def)
  ultimately show ?thesis using parse_nested [OF assms(1)] by (simp add: add.commute)
qed

lemma envelope_shallow_iff:
  assumes "typed_event (maxNestingDepth - 2) e" "zone_event e" "Data env = Some e"
    and env: "valid_utf8 (JobID env)" "valid_utf8 (EventType env)" "valid_utf8 (LastError env)"
      "in64 (EnqueuedAt env)" "in64 (RetryCount env)" "in64 (MaxRetries env)"
  obtains t where "marshal_JobEnvelope env = Ok t" "unmarshal_JobEnvelope t = Ok env \<longleftrightarrow> shallow e"
    "\<not> shallow e \<Longrightarrow> \<exists>x. unmarshal_JobEnvelope t = Err x"
proof -
  have d: "maxNestingDepth = Suc (Suc (maxNestingDepth - 2))" "maxNestingDepth = Suc (Suc (Suc (maxNestingDepth - 3)))"
    by (simp_all add: maxNestingDepth_def)
  have "wf_event maxNestingDepth e" using typed_event_wf [OF assms(1,2)] d(1) by simp
  then have "wf_envelope (Suc maxNestingDepth) env" using assms(3) env by (simp add: wf_envelope_def)
  from JobEnvelope_roundtrip [OF this] obtain j where j: "json_of_JobEnvelope env = Some j" "wf_json (Suc maxNestingDepth) j"
    "decode_struct JobEnvelope_fields zero_JobEnvelope j = Some env" by auto
  let ?t = "print_json j"
  have t: "marshal_JobEnvelope env = Ok ?t" by (simp add: Marshal_def j(1))
  have deep: "shallow e" if "parse_document ?t = Some w" for w
  proof -
    from that obtain r where "parse_value maxNestingDepth ?t = Some (w, r)"
      by (auto simp: parse_document_def split: option.splits if_splits)
    from parse_print_deep [OF this j(2)] have "nested maxNestingDepth j" by simp
    then have "nested (Suc (Suc (Suc (maxNestingDepth - 3)))) j" using d(2) by simp
    from envelope_decoded [OF j(3) this zero_typed(2)] assms(3) have "typed_event (maxNestingDepth - 3) e"
      by (simp add: typed_envelope_def)
    then show ?thesis by (simp add: typed_event_def shallow_def maxNestingDepth_def del: wf_value.simps)
  qed
  have ok: "unmarshal_JobEnvelope ?t = Ok env" if "shallow e"
  proof -
    have "wf_event (maxNestingDepth - 1) e" using that assms(1,2)
      by (simp add: wf_event_def shallow_def typed_event_def zone_event_def typed_time_def wf_time_def maxNestingDepth_def del: wf_value.simps)
    then have "wf_envelope maxNestingDepth env" using assms(3) env by (simp add: wf_envelope_def maxNestingDepth_def)
    from envelope_text [OF this] t show ?thesis by auto
  qed
  show ?thesis
  proof (rule that [OF t])
    show "unmarshal_JobEnvelope ?t = Ok env \<longleftrightarrow> shallow e"
      using ok deep by (auto simp: Unmarshal_def split: option.splits)
    show "\<exists>x. unmarshal_JobEnvelope ?t = Err x" if "\<not> shallow e"
      using that deep by (auto simp: Unmarshal_def split: option.splits)
  qed
qed

end
