(* ===== verification/Redis_Client.thy ===== *)
theory Redis_Client
  imports Go_Strconv
begin

text \<open>
  The Redis server behind \<open>github.com/redis/go-redis/v9\<close>. The client library is not part of the
  repository, so every component of the model takes it as an argument: a record of the commands
  the code calls, each a function of the context, the arguments and the state \<open>'s\<close> of the
  server that returns the reply or an error with the next state. What the code relies on is
  stated once, as the laws of the locales \<open>redis_streams\<close>, \<open>redis_keys\<close>,
  \<open>redis_hashes\<close>, \<open>redis_server\<close> and \<open>redis_service\<close>: the documented effect of each command on an abstract view of
  the data, and that a command that reports an error may or may not have been carried out.
  \<open>Redis_Memory\<close> interprets the locales on a concrete in-memory server.
\<close>

section \<open>The commands\<close>

type_synonym fields = "(string \<times> string) list"
type_synonym 'a reply = "goerror + 'a"
type_synonym ('s, 'a) cmd = "'s \<Rightarrow> 'a reply \<times> 's"

record xmessage =
  msg_ID :: string
  msg_Values :: fields

record 's redis_client =
  XAdd :: "ctx \<Rightarrow> string \<Rightarrow> int64 \<Rightarrow> fields \<Rightarrow> ('s, string) cmd"
  PipeXAdd :: "ctx \<Rightarrow> (string \<times> int64 \<times> fields) list \<Rightarrow> ('s, string list) cmd"
  XLen :: "ctx \<Rightarrow> string \<Rightarrow> ('s, int64) cmd"
  XReadGroup :: "ctx \<Rightarrow> string \<Rightarrow> string \<Rightarrow> string \<Rightarrow> int64 \<Rightarrow> duration \<Rightarrow> ('s, (string \<times> xmessage list) list) cmd"
  XAck :: "ctx \<Rightarrow> string \<Rightarrow> string \<Rightarrow> string \<Rightarrow> ('s, int64) cmd"
  XAutoClaim :: "ctx \<Rightarrow> string \<Rightarrow> string \<Rightarrow> string \<Rightarrow> duration \<Rightarrow> string \<Rightarrow> int64 \<Rightarrow> ('s, xmessage list \<times> string) cmd"
  XPending :: "ctx \<Rightarrow> string \<Rightarrow> string \<Rightarrow> ('s, int64 \<times> string) cmd"
  XRange :: "ctx \<Rightarrow> string \<Rightarrow> string \<Rightarrow> string \<Rightarrow> ('s, xmessage list) cmd"
  XDel :: "ctx \<Rightarrow> string \<Rightarrow> string \<Rightarrow> ('s, int64) cmd"
  XGroupCreateMkStream :: "ctx \<Rightarrow> string \<Rightarrow> string \<Rightarrow> string \<Rightarrow> ('s, unit) cmd"
  SetNX :: "ctx \<Rightarrow> string \<Rightarrow> string \<Rightarrow> duration \<Rightarrow> ('s, bool) cmd"
  Get :: "ctx \<Rightarrow> string \<Rightarrow> ('s, string) cmd"
  Expire :: "ctx \<Rightarrow> string \<Rightarrow> duration \<Rightarrow> ('s, bool) cmd"
  Del :: "ctx \<Rightarrow> string \<Rightarrow> ('s, int64) cmd"
  HSet :: "ctx \<Rightarrow> string \<Rightarrow> fields \<Rightarrow> ('s, int64) cmd"
  HGetAll :: "ctx \<Rightarrow> string \<Rightarrow> ('s, fields) cmd"
  Keys :: "ctx \<Rightarrow> string \<Rightarrow> ('s, string list) cmd"
  Ping :: "ctx \<Rightarrow> ('s, unit) cmd"

section \<open>The abstract view of the streams\<close>

text \<open>
  The entries of each stream in order, and for each consumer group the entries it has not been
  given yet, the identifiers given out but not acknowledged (the pending entries list), and
  whether the group exists.
\<close>

record stream_db =
  ents :: "string \<Rightarrow> (string \<times> fields) list"
  fresh :: "string \<Rightarrow> string \<Rightarrow> (string \<times> fields) list"
  pend :: "string \<Rightarrow> string \<Rightarrow> string list"
  grp :: "string \<Rightarrow> string \<Rightarrow> bool"

text \<open>\<open>XADD\<close> appends; with a length limit it first drops the \<open>n\<close> oldest entries.\<close>

definition db_trim :: "string \<Rightarrow> nat \<Rightarrow> stream_db \<Rightarrow> stream_db" where
  "db_trim k n d = d\<lparr>
     ents := (ents d)(k := drop n (ents d k)),
     fresh := (fresh d)(k := \<lambda>g. filter (\<lambda>e. e \<notin> set (take n (ents d k))) (fresh d k g))\<rparr>"

definition db_add :: "string \<Rightarrow> string \<Rightarrow> fields \<Rightarrow> stream_db \<Rightarrow> stream_db" where
  "db_add k i v d = d\<lparr>
     ents := (ents d)(k := ents d k @ [(i, v)]),
     fresh := (fresh d)(k := \<lambda>g. if grp d k g then fresh d k g @ [(i, v)] else fresh d k g)\<rparr>"

text \<open>
  How far trimming may go: never without a positive limit, and never below the limit (the
  approximate \<open>~\<close> form keeps at least as many entries as asked for). The new entry is counted.
\<close>

definition trim_ok :: "int64 \<Rightarrow> nat \<Rightarrow> nat \<Rightarrow> bool" where
  "trim_ok maxLen len n \<longleftrightarrow> n = 0 \<or> (0 < maxLen \<and> maxLen \<le> int (Suc len) - int n)"

definition db_deliver :: "string \<Rightarrow> string \<Rightarrow> stream_db \<Rightarrow> stream_db" where
  "db_deliver k g d = d\<lparr>
     fresh := (fresh d)(k := (fresh d k)(g := tl (fresh d k g))),
     pend := (pend d)(k := (pend d k)(g := pend d k g @ [fst (hd (fresh d k g))]))\<rparr>"

definition db_ack :: "string \<Rightarrow> string \<Rightarrow> string \<Rightarrow> stream_db \<Rightarrow> stream_db" where
  "db_ack k g i d = d\<lparr>pend := (pend d)(k := (pend d k)(g := removeAll i (pend d k g)))\<rparr>"

definition db_del :: "string \<Rightarrow> string \<Rightarrow> stream_db \<Rightarrow> stream_db" where
  "db_del k i d = d\<lparr>
     ents := (ents d)(k := filter (\<lambda>e. fst e \<noteq> i) (ents d k)),
     fresh := (fresh d)(k := \<lambda>g. filter (\<lambda>e. fst e \<noteq> i) (fresh d k g))\<rparr>"

text \<open>\<open>XGROUP CREATE k g 0 MKSTREAM\<close>: a group that has seen nothing yet.\<close>

definition db_group :: "string \<Rightarrow> string \<Rightarrow> stream_db \<Rightarrow> stream_db" where
  "db_group k g d = d\<lparr>
     grp := (grp d)(k := (grp d k)(g := True)),
     fresh := (fresh d)(k := (fresh d k)(g := ents d k)),
     pend := (pend d)(k := (pend d k)(g := []))\<rparr>"

text \<open>\<open>XAUTOCLAIM\<close> may drop from the pending list what is no longer in the stream.\<close>

definition db_claim :: "string \<Rightarrow> string \<Rightarrow> string set \<Rightarrow> stream_db \<Rightarrow> stream_db" where
  "db_claim k g gone d = d\<lparr>pend := (pend d)(k := (pend d k)(g := filter (\<lambda>i. i \<notin> gone) (pend d k g)))\<rparr>"

definition xmsg :: "string \<times> fields \<Rightarrow> xmessage" where
  "xmsg e = \<lparr>msg_ID = fst e, msg_Values = snd e\<rparr>"

text \<open>What a successful \<open>XADD\<close> may do, and the effect of a batch of them.\<close>

definition added :: "string \<Rightarrow> int64 \<Rightarrow> fields \<Rightarrow> string \<Rightarrow> stream_db \<Rightarrow> stream_db \<Rightarrow> bool" where
  "added k maxLen v i d d' \<longleftrightarrow>
     i \<notin> fst ` set (ents d k) \<and> (\<forall>g. i \<notin> set (pend d k g)) \<and> (\<forall>g. i \<notin> fst ` set (fresh d k g)) \<and>
     (\<exists>n. trim_ok maxLen (length (ents d k)) n \<and> d' = db_add k i v (db_trim k n d))"

fun added_all :: "(string \<times> int64 \<times> fields) list \<Rightarrow> string list \<Rightarrow> stream_db \<Rightarrow> stream_db \<Rightarrow> bool" where
  "added_all [] [] d d' \<longleftrightarrow> d' = d"
| "added_all ((k, maxLen, v) # as) (i # is) d d' \<longleftrightarrow>
     (\<exists>d1. added k maxLen v i d d1 \<and> added_all as is d1 d')"
| "added_all _ _ d d' \<longleftrightarrow> False"

section \<open>Laws of the stream commands\<close>

locale redis_streams =
  fixes R :: "'s redis_client"
    and db :: "'s \<Rightarrow> stream_db"
    and invar :: "'s \<Rightarrow> bool"
    and rank :: "'s \<Rightarrow> string \<Rightarrow> string \<Rightarrow> string \<Rightarrow> nat"
  assumes xadd_ok: "\<lbrakk>invar s; XAdd R c k m v s = (Inr i, s')\<rbrakk> \<Longrightarrow> invar s' \<and> added k m v i (db s) (db s')"
    and xadd_err: "\<lbrakk>invar s; XAdd R c k m v s = (Inl e, s')\<rbrakk> \<Longrightarrow>
                   invar s' \<and> (db s' = db s \<or> (\<exists>i. added k m v i (db s) (db s')))"
    and pipe_ok: "\<lbrakk>invar s; PipeXAdd R c as s = (Inr is, s')\<rbrakk> \<Longrightarrow> invar s' \<and> added_all as is (db s) (db s')"
    and pipe_err: "\<lbrakk>invar s; PipeXAdd R c as s = (Inl e, s')\<rbrakk> \<Longrightarrow>
                   invar s' \<and> (\<exists>as' is. set as' \<subseteq> set as \<and> added_all as' is (db s) (db s'))"
    and xlen: "\<lbrakk>invar s; XLen R c k s = (rl, s')\<rbrakk> \<Longrightarrow>
               invar s' \<and> db s' = db s \<and> (\<forall>n. rl = Inr n \<longrightarrow> n = int (length (ents (db s) k)))"
    and xread_ok: "\<lbrakk>invar s; XReadGroup R c g w k 1 b s = (Inr res, s')\<rbrakk> \<Longrightarrow>
                   invar s' \<and> grp (db s) k g \<and> fresh (db s) k g \<noteq> [] \<and>
                   res = [(k, [xmsg (hd (fresh (db s) k g))])] \<and> db s' = db_deliver k g (db s)"
    and xread_nil: "\<lbrakk>invar s; XReadGroup R c g w k 1 b s = (Inl RedisNil, s')\<rbrakk> \<Longrightarrow>
                    invar s' \<and> db s' = db s \<and> fresh (db s) k g = []"
    and xread_err: "\<lbrakk>invar s; XReadGroup R c g w k 1 b s = (Inl e, s')\<rbrakk> \<Longrightarrow>
                    invar s' \<and> (db s' = db s \<or> (fresh (db s) k g \<noteq> [] \<and> db s' = db_deliver k g (db s)))"
    and xack_ok: "\<lbrakk>invar s; XAck R c k g i s = (Inr n, s')\<rbrakk> \<Longrightarrow> invar s' \<and> db s' = db_ack k g i (db s)"
    and xack_err: "\<lbrakk>invar s; XAck R c k g i s = (Inl e, s')\<rbrakk> \<Longrightarrow>
                   invar s' \<and> (db s' = db s \<or> db s' = db_ack k g i (db s))"
    and xclaim_ok: "\<lbrakk>invar s; XAutoClaim R c k g w idle start n s = (Inr (ms, nxt), s')\<rbrakk> \<Longrightarrow>
                    invar s' \<and> (\<forall>m\<in>set ms. msg_ID m \<in> set (pend (db s) k g) \<and>
                                        (msg_ID m, msg_Values m) \<in> set (ents (db s) k)) \<and>
                    (\<exists>gone. gone \<inter> fst ` set (ents (db s) k) = {} \<and> db s' = db_claim k g gone (db s)) \<and>
                    (nxt \<noteq> ''0-0'' \<longrightarrow> rank s' k g nxt < rank s k g start)"
    and xclaim_err: "\<lbrakk>invar s; XAutoClaim R c k g w idle start n s = (Inl e, s')\<rbrakk> \<Longrightarrow>
                     invar s' \<and> (\<exists>gone. gone \<inter> fst ` set (ents (db s) k) = {} \<and>
                                      db s' = db_claim k g gone (db s))"
    and xpending: "\<lbrakk>invar s; XPending R c k g s = (rp, s')\<rbrakk> \<Longrightarrow>
                   invar s' \<and> db s' = db s \<and>
                   (\<forall>n low. rp = Inr (n, low) \<longrightarrow> n = int (length (pend (db s) k g)) \<and>
                            (n = 0 \<longrightarrow> low = '''') \<and> (0 < n \<longrightarrow> low \<in> set (pend (db s) k g)))"
    and xrange_id: "\<lbrakk>invar s; XRange R c k i i s = (r, s')\<rbrakk> \<Longrightarrow>
                    invar s' \<and> db s' = db s \<and>
                    (\<forall>ms. r = Inr ms \<longrightarrow> i \<noteq> ''-'' \<longrightarrow> i \<noteq> ''+'' \<longrightarrow>
                          ms = map xmsg (filter (\<lambda>e. fst e = i) (ents (db s) k)))"
    and xrange_all: "\<lbrakk>invar s; XRange R c k ''-'' ''+'' s = (r, s')\<rbrakk> \<Longrightarrow>
                     invar s' \<and> db s' = db s \<and> (\<forall>ms. r = Inr ms \<longrightarrow> ms = map xmsg (ents (db s) k))"
    and xdel_ok: "\<lbrakk>invar s; XDel R c k i s = (Inr n, s')\<rbrakk> \<Longrightarrow>
                  invar s' \<and> db s' = db_del k i (db s) \<and>
                  n = int (length (filter (\<lambda>e. fst e = i) (ents (db s) k)))"
    and xdel_err: "\<lbrakk>invar s; XDel R c k i s = (Inl e, s')\<rbrakk> \<Longrightarrow>
                   invar s' \<and> (db s' = db s \<or> db s' = db_del k i (db s))"
    and xgroup_ok: "\<lbrakk>invar s; XGroupCreateMkStream R c k g ''0'' s = (Inr u, s')\<rbrakk> \<Longrightarrow>
                    invar s' \<and> \<not> grp (db s) k g \<and> db s' = db_group k g (db s)"
    and xgroup_err: "\<lbrakk>invar s; XGroupCreateMkStream R c k g ''0'' s = (Inl e, s')\<rbrakk> \<Longrightarrow>
                     invar s' \<and> (db s' = db s \<or> (\<not> grp (db s) k g \<and> db s' = db_group k g (db s))) \<and>
                     (Contains (Error e) ''BUSYGROUP'' \<longrightarrow> grp (db s) k g \<and> db s' = db s)"
    and xadd_id: "\<lbrakk>invar s; XAdd R c k m v s = (Inr i, s')\<rbrakk> \<Longrightarrow> i \<noteq> ''-'' \<and> i \<noteq> ''+''"

section \<open>Laws of the key commands\<close>

text \<open>
  \<open>go-redis\<close> sends a lifetime of \<open>SET NX\<close> in whole milliseconds and one of \<open>EXPIRE\<close> in whole
  seconds, rounded down, but at least one unit.
\<close>

definition set_ttl :: "duration \<Rightarrow> duration" where
  "set_ttl d = (if 0 < d \<and> d < Millisecond then Millisecond else d - d mod Millisecond)"

definition expire_ttl :: "duration \<Rightarrow> duration" where
  "expire_ttl d = (if 0 < d \<and> d < Second then Second else d - d mod Second)"

text \<open>
  The view of a string key is its value and the instant at which it stops existing; it is live
  while the server's clock is before that instant. A command is carried out at an instant between
  the clock before and the clock after it.
\<close>

type_synonym keyview = "string \<Rightarrow> (string \<times> int) option"

definition live_at :: "keyview \<Rightarrow> int \<Rightarrow> string \<Rightarrow> string option" where
  "live_at kv t key = (case kv key of None \<Rightarrow> None | Some (v, dl) \<Rightarrow> if t < dl then Some v else None)"

locale redis_keys =
  fixes R :: "'s redis_client"
    and now :: "'s \<Rightarrow> int"
    and kv :: "'s \<Rightarrow> keyview"
  assumes clock: "SetNX R c key v d s = (r1, s') \<Longrightarrow> now s \<le> now s'"
      "Get R c key s = (r2, s') \<Longrightarrow> now s \<le> now s'"
      "Expire R c key d s = (r3, s') \<Longrightarrow> now s \<le> now s'"
      "Del R c key s = (r4, s') \<Longrightarrow> now s \<le> now s'"
    and setnx_new: "\<lbrakk>SetNX R c key v d s = (Inr True, s'); 0 < d\<rbrakk> \<Longrightarrow>
        \<exists>t. now s \<le> t \<and> t \<le> now s' \<and> live_at (kv s) t key = None \<and>
            kv s' = (kv s)(key := Some (v, t + set_ttl d))"
    and setnx_old: "SetNX R c key v d s = (Inr False, s') \<Longrightarrow>
        kv s' = kv s \<and> (\<exists>t. now s \<le> t \<and> t \<le> now s' \<and> live_at (kv s) t key \<noteq> None)"
    and setnx_err: "\<lbrakk>SetNX R c key v d s = (Inl e, s'); 0 < d\<rbrakk> \<Longrightarrow>
        kv s' = kv s \<or> (\<exists>t. now s \<le> t \<and> t \<le> now s' \<and> live_at (kv s) t key = None \<and>
                             kv s' = (kv s)(key := Some (v, t + set_ttl d)))"
    and get_same: "Get R c key s = (r, s') \<Longrightarrow> kv s' = kv s"
    and get_ok: "Get R c key s = (Inr v, s') \<Longrightarrow>
        \<exists>t. now s \<le> t \<and> t \<le> now s' \<and> live_at (kv s) t key = Some v"
    and get_nil: "Get R c key s = (Inl RedisNil, s') \<Longrightarrow>
        \<exists>t. now s \<le> t \<and> t \<le> now s' \<and> live_at (kv s) t key = None"
    and expire_ok: "\<lbrakk>Expire R c key d s = (Inr b, s'); 0 < d\<rbrakk> \<Longrightarrow>
        \<exists>t. now s \<le> t \<and> t \<le> now s' \<and>
            (case live_at (kv s) t key of
               None \<Rightarrow> \<not> b \<and> kv s' = kv s
             | Some v \<Rightarrow> b \<and> kv s' = (kv s)(key := Some (v, t + expire_ttl d)))"
    and expire_err: "\<lbrakk>Expire R c key d s = (Inl e, s'); 0 < d\<rbrakk> \<Longrightarrow>
        kv s' = kv s \<or>
        (\<exists>t v. now s \<le> t \<and> t \<le> now s' \<and> live_at (kv s) t key = Some v \<and>
               kv s' = (kv s)(key := Some (v, t + expire_ttl d)))"
    and del_ok: "Del R c key s = (Inr n, s') \<Longrightarrow> kv s' = (kv s)(key := None)"
    and del_err: "Del R c key s = (Inl e, s') \<Longrightarrow> kv s' = kv s \<or> kv s' = (kv s)(key := None)"

section \<open>Laws of the hash commands\<close>

type_synonym hashview = "string \<Rightarrow> string \<Rightarrow> string option"

definition hash_put :: "fields \<Rightarrow> (string \<Rightarrow> string option) \<Rightarrow> string \<Rightarrow> string option" where
  "hash_put fs h = (\<lambda>f. case map_of fs f of None \<Rightarrow> h f | Some v \<Rightarrow> Some v)"

definition glob_chars :: "char set" where
  "glob_chars = {CHR ''*'', CHR ''?'', CHR ''['', CHR '']'', CHR ''^'', CHR 0x5C}"

locale redis_hashes =
  fixes R :: "'s redis_client"
    and hv :: "'s \<Rightarrow> hashview"
  assumes hset_ok: "HSet R c key fs s = (Inr n, s') \<Longrightarrow> hv s' = (hv s)(key := hash_put fs (hv s key))"
    and hset_err: "HSet R c key fs s = (Inl e, s') \<Longrightarrow>
        hv s' = hv s \<or> hv s' = (hv s)(key := hash_put fs (hv s key))"
    and hgetall_same: "HGetAll R c key s = (r, s') \<Longrightarrow> hv s' = hv s"
    and hgetall_ok: "HGetAll R c key s = (Inr fs, s') \<Longrightarrow> map_of fs = hv s key"
    and keys_same: "Keys R c pat s = (rk, s') \<Longrightarrow> hv s' = hv s"
    and keys_ok: "\<lbrakk>Keys R c (p @ ''*'') s = (Inr ks, s'); \<forall>x\<in>set p. x \<notin> glob_chars; hv s key \<noteq> Map.empty;
                   HasPrefix key p\<rbrakk> \<Longrightarrow> key \<in> set ks"
    and keys_prefix: "\<lbrakk>Keys R c (p @ ''*'') s = (Inr ks, s'); \<forall>x\<in>set p. x \<notin> glob_chars; key \<in> set ks\<rbrakk> \<Longrightarrow>
                      HasPrefix key p"
    and hdel_ok: "Del R c key s = (Inr n, s') \<Longrightarrow> hv s' = (hv s)(key := Map.empty)"
    and hdel_err: "Del R c key s = (Inl e, s') \<Longrightarrow> hv s' = hv s \<or> hv s' = (hv s)(key := Map.empty)"

section \<open>The whole server\<close>

text \<open>Streams and string keys do not interfere, and the clock never goes back.\<close>

locale redis_server = redis_streams R db invar rank + redis_keys R now kv
  for R :: "'s redis_client" and db invar rank now kv +
  assumes setnx_streams: "\<lbrakk>invar s; SetNX R c key v d s = (r, s')\<rbrakk> \<Longrightarrow> invar s' \<and> db s' = db s"
    and streams_keys:
      "XAdd R c k m fs s = (ra, s') \<Longrightarrow> kv s' = kv s \<and> now s \<le> now s'"
      "XAck R c k g i s = (rb, s') \<Longrightarrow> kv s' = kv s \<and> now s \<le> now s'"
      "XReadGroup R c g w k n b s = (rc, s') \<Longrightarrow> kv s' = kv s \<and> now s \<le> now s'"

text \<open>Streams and hashes do not interfere either; \<open>PING\<close> changes nothing.\<close>

locale redis_service = redis_streams R db invar rank + redis_hashes R hv
  for R :: "'s redis_client" and db invar rank hv +
  assumes hset_streams: "\<lbrakk>invar s; HSet R c key fs s = (r1, s')\<rbrakk> \<Longrightarrow> invar s' \<and> db s' = db s"
    and del_streams: "\<lbrakk>invar s; Del R c key s = (r2, s')\<rbrakk> \<Longrightarrow> invar s' \<and> db s' = db s"
    and ping_streams: "\<lbrakk>invar s; Ping R c s = (r3, s')\<rbrakk> \<Longrightarrow> invar s' \<and> db s' = db s \<and> hv s' = hv s"
    and xgroup_hashes: "XGroupCreateMkStream R c k g i s = (r4, s') \<Longrightarrow> hv s' = hv s"

text \<open>A client for all of these commands.\<close>

locale redis_backend = redis_server R db invar rank now kv + redis_service R db invar rank hv
  for R :: "'s redis_client" and db invar rank now kv hv

section \<open>Locks\<close>

text \<open>\<open>SET NX\<close> is refused while the key is live, and succeeds at most once within the lifetime it sets.\<close>

context redis_keys
begin

lemma setnx_live:
  assumes "SetNX R c key v d s = (x, s')" "0 < d" "kv s key = Some (w, dl)" "now s' < dl"
  shows "x \<noteq> Inr True"
proof
  assume "x = Inr True"
  from setnx_new [OF assms(1) [unfolded this] assms(2)] obtain t
    where "t \<le> now s'" "live_at (kv s) t key = None" by auto
  with assms(3,4) show False by (auto simp: live_at_def split: if_splits)
qed

lemma setnx_sets:
  assumes "SetNX R c key v d s = (Inr True, s')" "0 < d"
  obtains t where "now s \<le> t" "t \<le> now s'" "kv s' key = Some (v, t + set_ttl d)"
  using setnx_new [OF assms] by auto

lemma setnx_once:
  assumes "SetNX R c1 key v1 d1 s1 = (Inr True, s1')" "0 < d1" "0 < d2"
    and "kv s2 key = kv s1' key"
    and "SetNX R c2 key v2 d2 s2 = (x, s2')" "now s2' < now s1 + set_ttl d1"
  shows "x \<noteq> Inr True"
proof (rule setnx_sets [OF assms(1,2)])
  fix t assume "now s1 \<le> t" "kv s1' key = Some (v1, t + set_ttl d1)"
  then show ?thesis using setnx_live [OF assms(5,3)] assms(4,6) by auto
qed

end

section \<open>Facts about the view\<close>

lemma db_simps [simp]:
  "ents (db_deliver k g d) = ents d" "grp (db_deliver k g d) = grp d"
  "ents (db_ack k g i d) = ents d" "fresh (db_ack k g i d) = fresh d" "grp (db_ack k g i d) = grp d"
  "pend (db_del k i d) = pend d" "grp (db_del k i d) = grp d"
  "pend (db_add k i v d) = pend d" "grp (db_add k i v d) = grp d"
  "pend (db_trim k n d) = pend d" "grp (db_trim k n d) = grp d"
  "ents (db_claim k g X d) = ents d" "fresh (db_claim k g X d) = fresh d" "grp (db_claim k g X d) = grp d"
  "ents (db_group k g d) = ents d"
  by (simp_all add: db_deliver_def db_ack_def db_del_def db_add_def db_trim_def db_claim_def db_group_def)

lemma db_trim_0 [simp]: "db_trim k 0 d = d"
  by (simp add: db_trim_def fun_upd_idem)

lemma trim_ok_none [simp]: "m \<le> 0 \<Longrightarrow> trim_ok m len n \<longleftrightarrow> n = 0"
  by (auto simp: trim_ok_def)

lemma pend_db_ack: "pend (db_ack k g i d) k g = removeAll i (pend d k g)"
  by (simp add: db_ack_def)

lemma ents_db_add_same: "ents (db_add k i v d) k = ents d k @ [(i, v)]"
  by (simp add: db_add_def)

lemma ents_db_add_other: "k' \<noteq> k \<Longrightarrow> ents (db_add k i v d) k' = ents d k'"
  by (simp add: db_add_def)

lemma ents_db_trim: "ents (db_trim k n d) = (ents d)(k := drop n (ents d k))"
  by (simp add: db_trim_def)

lemma added_no_limit: "\<lbrakk>added k m v i d d'; m \<le> 0\<rbrakk> \<Longrightarrow> d' = db_add k i v d"
  by (auto simp: added_def)

lemma added_in: "added k m v i d d' \<Longrightarrow> (i, v) \<in> set (ents d' k)"
  by (auto simp: added_def ents_db_add_same)

lemma added_last: "added k m v i d d' \<Longrightarrow> \<exists>n. ents d' k = drop n (ents d k) @ [(i, v)]"
  by (auto simp: added_def ents_db_add_same ents_db_trim)

lemma added_pend: "added k m v i d d' \<Longrightarrow> pend d' = pend d"
  by (auto simp: added_def)

lemma added_other: "\<lbrakk>added k m v i d d'; k' \<noteq> k\<rbrakk> \<Longrightarrow> ents d' k' = ents d k' \<and> fresh d' k' = fresh d k'"
  by (auto simp: added_def ents_db_add_other ents_db_trim) (simp add: db_add_def db_trim_def)

lemma added_length:
  assumes "added k m v i d d'"
  shows "length (ents d' k) \<le> Suc (length (ents d k)) \<and> min m (int (Suc (length (ents d k)))) \<le> int (length (ents d' k))"
  using assms by (auto simp: added_def ents_db_add_same ents_db_trim trim_ok_def)

end
