(* ===== verification/Redis_Memory.thy ===== *)
theory Redis_Memory
  imports Redis_Client
begin

text \<open>
  A Redis server in memory, on which the laws of \<open>Redis_Client\<close> are interpreted. It has a clock, a
  schedule of connection failures (one flag for each coming command), streams with consumer groups,
  string keys with a lifetime and hashes. Entry identifiers have the form of Redis,
  milliseconds, a dash and a sequence number.
\<close>

record mem =
  m_now :: int
  m_faults :: "bool list"
  m_db :: stream_db
  m_seq :: "string \<Rightarrow> nat"
  m_since :: "string \<Rightarrow> int"
  m_kv :: keyview
  m_hash :: "(string \<times> fields) list"

definition empty_db :: stream_db where
  "empty_db = \<lparr>ents = (\<lambda>_. []), fresh = (\<lambda>_ _. []), pend = (\<lambda>_ _. []), grp = (\<lambda>_ _. False)\<rparr>"

definition mem_init :: "int \<Rightarrow> bool list \<Rightarrow> mem" where
  "mem_init t faults = \<lparr>m_now = t, m_faults = faults, m_db = empty_db, m_seq = (\<lambda>_. 0),
     m_since = (\<lambda>_. 0), m_kv = (\<lambda>_. None), m_hash = []\<rparr>"

definition mem_advance :: "duration \<Rightarrow> mem \<Rightarrow> mem" where
  "mem_advance d s = s\<lparr>m_now := m_now s + d\<rparr>"

section \<open>Commands\<close>

text \<open>A cancelled context or a broken connection: no effect and an error.\<close>

definition mem_cmd :: "ctx \<Rightarrow> (mem, 'a) cmd \<Rightarrow> (mem, 'a) cmd" where
  "mem_cmd c f s =
     (case c of
        Some e \<Rightarrow> (Inl (if e = DeadlineExceeded then DeadlineExceeded else ContextCanceled), s)
      | None \<Rightarrow>
        (case m_faults s of
           [] \<Rightarrow> f s
         | b # bs \<Rightarrow> if b then (Inl (ErrorString ''connection refused''), s\<lparr>m_faults := bs\<rparr>)
                     else f (s\<lparr>m_faults := bs\<rparr>)))"

definition mem_id :: "int \<Rightarrow> nat \<Rightarrow> string" where
  "mem_id t n = itoa (t div Millisecond) @ CHR ''-'' # utoa n"

definition mem_trim :: "int64 \<Rightarrow> nat \<Rightarrow> nat" where
  "mem_trim maxLen len = (if 0 < maxLen then nat (int (Suc len) - maxLen) else 0)"

definition mem_add :: "string \<Rightarrow> int64 \<Rightarrow> fields \<Rightarrow> mem \<Rightarrow> string \<times> mem" where
  "mem_add k maxLen v s =
     (let n = Suc (m_seq s k); i = mem_id (m_now s) n; d = m_db s
      in (i, s\<lparr>m_seq := (m_seq s)(k := n),
               m_db := db_add k i v (db_trim k (mem_trim maxLen (length (ents d k))) d)\<rparr>))"

definition mem_XAdd :: "ctx \<Rightarrow> string \<Rightarrow> int64 \<Rightarrow> fields \<Rightarrow> (mem, string) cmd" where
  "mem_XAdd c k m v = mem_cmd c (\<lambda>s. let (i, s') = mem_add k m v s in (Inr i, s'))"

fun mem_adds :: "(string \<times> int64 \<times> fields) list \<Rightarrow> mem \<Rightarrow> string list \<times> mem" where
  "mem_adds [] s = ([], s)"
| "mem_adds ((k, m, v) # as) s =
     (let (i, s1) = mem_add k m v s; (is, s2) = mem_adds as s1 in (i # is, s2))"

definition mem_PipeXAdd :: "ctx \<Rightarrow> (string \<times> int64 \<times> fields) list \<Rightarrow> (mem, string list) cmd" where
  "mem_PipeXAdd c as = mem_cmd c (\<lambda>s. let (is, s') = mem_adds as s in (Inr is, s'))"

definition mem_XLen :: "ctx \<Rightarrow> string \<Rightarrow> (mem, int64) cmd" where
  "mem_XLen c k = mem_cmd c (\<lambda>s. (Inr (int (length (ents (m_db s) k))), s))"

definition mem_XReadGroup ::
  "ctx \<Rightarrow> string \<Rightarrow> string \<Rightarrow> string \<Rightarrow> int64 \<Rightarrow> duration \<Rightarrow> (mem, (string \<times> xmessage list) list) cmd" where
  "mem_XReadGroup c g w k n b = mem_cmd c (\<lambda>s.
     let d = m_db s in
     if \<not> grp d k g then (Inl (ErrorString ''NOGROUP No such key or consumer group''), s)
     else case fresh d k g of
            [] \<Rightarrow> (Inl RedisNil, s)
          | e # _ \<Rightarrow> (Inr [(k, [xmsg e])],
                      s\<lparr>m_db := db_deliver k g d, m_since := (m_since s)(fst e := m_now s)\<rparr>))"

definition mem_XAck :: "ctx \<Rightarrow> string \<Rightarrow> string \<Rightarrow> string \<Rightarrow> (mem, int64) cmd" where
  "mem_XAck c k g i = mem_cmd c (\<lambda>s.
     (Inr (if i \<in> set (pend (m_db s) k g) then 1 else 0), s\<lparr>m_db := db_ack k g i (m_db s)\<rparr>))"

text \<open>The pending identifiers from a cursor on; the cursor is the next identifier to look at.\<close>

definition pend_from :: "string \<Rightarrow> string list \<Rightarrow> string list" where
  "pend_from cur p = (if cur = ''0-0'' then p else dropWhile (\<lambda>i. i \<noteq> cur) p)"

definition mem_XAutoClaim ::
  "ctx \<Rightarrow> string \<Rightarrow> string \<Rightarrow> string \<Rightarrow> duration \<Rightarrow> string \<Rightarrow> int64 \<Rightarrow> (mem, xmessage list \<times> string) cmd" where
  "mem_XAutoClaim c k g w idle start cnt = mem_cmd c (\<lambda>s.
     let d = m_db s; n = max 1 (nat cnt); p = pend_from start (pend d k g);
         win = take n p; rest = drop n p;
         stale = (\<lambda>i. idle \<le> m_now s - m_since s i);
         gone = {i \<in> set win. i \<notin> fst ` set (ents d k)};
         ms = concat (map (\<lambda>i. map xmsg (filter (\<lambda>e. fst e = i) (ents d k))) (filter stale win))
     in (Inr (ms, case rest of [] \<Rightarrow> ''0-0'' | i # _ \<Rightarrow> i),
         s\<lparr>m_db := db_claim k g gone d,
           m_since := (\<lambda>i. if i \<in> set (map msg_ID ms) then m_now s else m_since s i)\<rparr>))"

definition mem_XPending :: "ctx \<Rightarrow> string \<Rightarrow> string \<Rightarrow> (mem, int64 \<times> string) cmd" where
  "mem_XPending c k g = mem_cmd c (\<lambda>s.
     let p = pend (m_db s) k g in
     (Inr (int (length p), case p of [] \<Rightarrow> '''' | i # _ \<Rightarrow> i), s))"

definition mem_XRange :: "ctx \<Rightarrow> string \<Rightarrow> string \<Rightarrow> string \<Rightarrow> (mem, xmessage list) cmd" where
  "mem_XRange c k a b = mem_cmd c (\<lambda>s.
     let es = ents (m_db s) k;
         lo = (if a = ''-'' then es else dropWhile (\<lambda>e. fst e \<noteq> a) es);
         hi = (if b = ''+'' then lo else if a = b then filter (\<lambda>e. fst e = a) es
               else rev (dropWhile (\<lambda>e. fst e \<noteq> b) (rev lo)))
     in (Inr (map xmsg hi), s))"

definition mem_XDel :: "ctx \<Rightarrow> string \<Rightarrow> string \<Rightarrow> (mem, int64) cmd" where
  "mem_XDel c k i = mem_cmd c (\<lambda>s.
     (Inr (int (length (filter (\<lambda>e. fst e = i) (ents (m_db s) k)))), s\<lparr>m_db := db_del k i (m_db s)\<rparr>))"

definition mem_XGroupCreateMkStream :: "ctx \<Rightarrow> string \<Rightarrow> string \<Rightarrow> string \<Rightarrow> (mem, unit) cmd" where
  "mem_XGroupCreateMkStream c k g start = mem_cmd c (\<lambda>s.
     if grp (m_db s) k g then (Inl (ErrorString ''BUSYGROUP Consumer Group name already exists''), s)
     else (Inr (), s\<lparr>m_db := db_group k g (m_db s)\<rparr>))"

definition mem_SetNX :: "ctx \<Rightarrow> string \<Rightarrow> string \<Rightarrow> duration \<Rightarrow> (mem, bool) cmd" where
  "mem_SetNX c key v d = mem_cmd c (\<lambda>s.
     case live_at (m_kv s) (m_now s) key of
       Some _ \<Rightarrow> (Inr False, s)
     | None \<Rightarrow> (Inr True, s\<lparr>m_kv := (m_kv s)(key := Some (v, m_now s + set_ttl d))\<rparr>))"

definition mem_Get :: "ctx \<Rightarrow> string \<Rightarrow> (mem, string) cmd" where
  "mem_Get c key = mem_cmd c (\<lambda>s.
     case live_at (m_kv s) (m_now s) key of None \<Rightarrow> (Inl RedisNil, s) | Some v \<Rightarrow> (Inr v, s))"

definition mem_Expire :: "ctx \<Rightarrow> string \<Rightarrow> duration \<Rightarrow> (mem, bool) cmd" where
  "mem_Expire c key d = mem_cmd c (\<lambda>s.
     case live_at (m_kv s) (m_now s) key of
       None \<Rightarrow> (Inr False, s)
     | Some v \<Rightarrow> (Inr True, s\<lparr>m_kv := (m_kv s)(key := Some (v, m_now s + expire_ttl d))\<rparr>))"

definition hash_fields :: "mem \<Rightarrow> string \<Rightarrow> fields" where
  "hash_fields s key = (case map_of (m_hash s) key of None \<Rightarrow> [] | Some fs \<Rightarrow> fs)"

definition mem_Del :: "ctx \<Rightarrow> string \<Rightarrow> (mem, int64) cmd" where
  "mem_Del c key = mem_cmd c (\<lambda>s.
     (Inr (if live_at (m_kv s) (m_now s) key \<noteq> None \<or> hash_fields s key \<noteq> [] then 1 else 0),
      s\<lparr>m_kv := (m_kv s)(key := None), m_hash := filter (\<lambda>h. fst h \<noteq> key) (m_hash s)\<rparr>))"

fun put_field :: "string \<Rightarrow> string \<Rightarrow> fields \<Rightarrow> fields" where
  "put_field f v [] = [(f, v)]"
| "put_field f v ((f', v') # fs) = (if f = f' then (f, v) # fs else (f', v') # put_field f v fs)"

fun put_fields :: "fields \<Rightarrow> fields \<Rightarrow> fields" where
  "put_fields [] h = h"
| "put_fields ((f, v) # fs) h = put_field f v (put_fields fs h)"

definition mem_HSet :: "ctx \<Rightarrow> string \<Rightarrow> fields \<Rightarrow> (mem, int64) cmd" where
  "mem_HSet c key fs = mem_cmd c (\<lambda>s.
     let h = put_fields fs (hash_fields s key) in
     (Inr (int (length h - length (hash_fields s key))),
      s\<lparr>m_hash := (key, h) # filter (\<lambda>h. fst h \<noteq> key) (m_hash s)\<rparr>))"

definition mem_HGetAll :: "ctx \<Rightarrow> string \<Rightarrow> (mem, fields) cmd" where
  "mem_HGetAll c key = mem_cmd c (\<lambda>s. (Inr (hash_fields s key), s))"

definition mem_Keys :: "ctx \<Rightarrow> string \<Rightarrow> (mem, string list) cmd" where
  "mem_Keys c pat = mem_cmd c (\<lambda>s. (Inr (filter (\<lambda>k. HasPrefix k (butlast pat)) (map fst (m_hash s))), s))"

definition mem_Ping :: "ctx \<Rightarrow> (mem, unit) cmd" where
  "mem_Ping c = mem_cmd c (\<lambda>s. (Inr (), s))"

definition memory :: "mem redis_client" where
  "memory = \<lparr>XAdd = mem_XAdd, PipeXAdd = mem_PipeXAdd, XLen = mem_XLen, XReadGroup = mem_XReadGroup,
     XAck = mem_XAck, XAutoClaim = mem_XAutoClaim, XPending = mem_XPending, XRange = mem_XRange,
     XDel = mem_XDel, XGroupCreateMkStream = mem_XGroupCreateMkStream, SetNX = mem_SetNX,
     Get = mem_Get, Expire = mem_Expire, Del = mem_Del, HSet = mem_HSet, HGetAll = mem_HGetAll,
     Keys = mem_Keys, Ping = mem_Ping\<rparr>"

section \<open>The invariant\<close>

text \<open>
  Every identifier of a stream comes from its sequence counter, and a pending list has no
  repetition and nothing that is still to be delivered.
\<close>

definition known_id :: "mem \<Rightarrow> string \<Rightarrow> string \<Rightarrow> bool" where
  "known_id s k i \<longleftrightarrow> (\<exists>t n. i = mem_id t n \<and> 0 < n \<and> n \<le> m_seq s k)"

definition group_ok :: "(string \<Rightarrow> bool) \<Rightarrow> (string \<times> fields) list \<Rightarrow> bool \<Rightarrow> (string \<times> fields) list \<Rightarrow> string list \<Rightarrow> bool" where
  "group_ok P es ex fr pe \<longleftrightarrow> set fr \<subseteq> set es \<and> distinct (map fst fr) \<and> (\<forall>i\<in>set pe. P i) \<and>
     distinct pe \<and> set pe \<inter> fst ` set fr = {} \<and> (\<not> ex \<longrightarrow> fr = [])"

definition db_ok :: "(string \<Rightarrow> string \<Rightarrow> bool) \<Rightarrow> stream_db \<Rightarrow> bool" where
  "db_ok P d \<longleftrightarrow> (\<forall>k. (\<forall>e\<in>set (ents d k). P k (fst e)) \<and> distinct (map fst (ents d k)) \<and>
     (\<forall>g. group_ok (P k) (ents d k) (grp d k g) (fresh d k g) (pend d k g)))"

definition mem_inv :: "mem \<Rightarrow> bool" where
  "mem_inv s \<longleftrightarrow> db_ok (known_id s) (m_db s)"

definition mem_rank :: "mem \<Rightarrow> string \<Rightarrow> string \<Rightarrow> string \<Rightarrow> nat" where
  "mem_rank s k g cur = length (pend_from cur (pend (m_db s) k g))"

definition mem_hv :: "mem \<Rightarrow> hashview" where
  "mem_hv s key = map_of (hash_fields s key)"

section \<open>The laws\<close>

lemma no_busygroup:
  "\<not> Contains (Error DeadlineExceeded) ''BUSYGROUP''" "\<not> Contains (Error ContextCanceled) ''BUSYGROUP''"
  "\<not> Contains (Error (ErrorString ''connection refused'')) ''BUSYGROUP''"
  "Contains (Error (ErrorString ''BUSYGROUP Consumer Group name already exists'')) ''BUSYGROUP''"
  by code_simp+

lemma mem_cmdE:
  assumes "mem_cmd c f s = (r, s')"
  obtains (fail) e bs where "r = Inl e" "e \<noteq> RedisNil" "\<not> Contains (Error e) ''BUSYGROUP''"
      "s' = s\<lparr>m_faults := bs\<rparr>"
    | (run) bs where "f (s\<lparr>m_faults := bs\<rparr>) = (r, s')"
proof (cases c)
  case (Some e)
  then have "r = Inl (if e = DeadlineExceeded then DeadlineExceeded else ContextCanceled)" "s' = s"
    using assms by (auto simp: mem_cmd_def)
  then show ?thesis
    using fail [of "if e = DeadlineExceeded then DeadlineExceeded else ContextCanceled" "m_faults s"]
      no_busygroup by auto
next
  case None
  note c = None
  show ?thesis
  proof (cases "m_faults s")
    case Nil
    then have eq: "s\<lparr>m_faults := []\<rparr> = s" by (cases s) simp
    have "f s = (r, s')" using assms c Nil by (simp add: mem_cmd_def)
    then show ?thesis using run [of "[]", unfolded eq] by blast
  next
    case (Cons b bs)
    show ?thesis
    proof (cases b)
      case True
      then have "r = Inl (ErrorString ''connection refused'')" "s' = s\<lparr>m_faults := bs\<rparr>"
        using assms c Cons by (auto simp: mem_cmd_def)
      then show ?thesis using fail [of _ bs] no_busygroup by auto
    next
      case False
      then show ?thesis using assms c Cons run [of bs] by (simp add: mem_cmd_def)
    qed
  qed
qed

lemma mem_inv_faults [simp]: "mem_inv (s\<lparr>m_faults := bs\<rparr>) \<longleftrightarrow> mem_inv s"
  by (simp add: mem_inv_def known_id_def [abs_def])

lemma utoa_no_dash [simp]: "CHR ''-'' \<notin> set (utoa n)"
  by (auto simp: is_digit_def dest!: utoa_digits)

lemma mem_id_inj: "mem_id t n = mem_id t' n' \<Longrightarrow> n = n'"
  using split_at_last [of "itoa (t div Millisecond)" "CHR ''-''" "utoa n" "itoa (t' div Millisecond)" "utoa n'"]
    utoa_inj by (auto simp: mem_id_def)

lemma mem_id_neq: "0 < n \<Longrightarrow> mem_id t n \<noteq> ''0-0'' \<and> mem_id t n \<noteq> ''-'' \<and> mem_id t n \<noteq> ''+''"
proof (intro conjI)
  have "''0-0'' = mem_id 0 0" by code_simp
  then show "0 < n \<Longrightarrow> mem_id t n \<noteq> ''0-0''" using mem_id_inj by force
  have len: "2 < length (mem_id t n)"
    by (cases "itoa (t div Millisecond)"; cases "utoa n") (simp_all add: mem_id_def)
  then show "mem_id t n \<noteq> ''-''" "mem_id t n \<noteq> ''+''" by auto
qed

lemma known_new: "\<not> known_id s k (mem_id t (Suc (m_seq s k)))"
  by (auto simp: known_id_def dest!: mem_id_inj)

lemma db_ok_mono: "\<lbrakk>db_ok P d; \<And>k i. P k i \<Longrightarrow> Q k i\<rbrakk> \<Longrightarrow> db_ok Q d"
  unfolding db_ok_def group_ok_def by blast

lemma group_ok_filter_fresh:
  assumes "group_ok P es ex fr pe" "set (filter Q fr) \<subseteq> set es'"
  shows "group_ok P es' ex (filter Q fr) pe"
  using assms by (auto simp: group_ok_def distinct_map_filter)

lemma group_ok_filter_pend: "group_ok P es ex fr pe \<Longrightarrow> group_ok P es ex fr (filter Q pe)"
  by (auto simp: group_ok_def)

lemma group_ok_fresh: "group_ok P es ex fr pe \<Longrightarrow> set fr \<subseteq> set es"
  by (simp add: group_ok_def)

lemma db_ok_group_ok: "db_ok P d \<Longrightarrow> group_ok (P k) (ents d k) (grp d k g) (fresh d k g) (pend d k g)"
  by (simp add: db_ok_def)

lemma db_ok_trim:
  assumes "db_ok P d" shows "db_ok P (db_trim k n d)"
proof -
  have sub: "set es - set (take n es) \<subseteq> set (drop n es)" for es :: "(string \<times> fields) list"
    by (metis Diff_subset_conv append_take_drop_id set_append subset_refl)
  have "group_ok (P k) (drop n (ents d k)) (grp d k g)
        (filter (\<lambda>e. e \<notin> set (take n (ents d k))) (fresh d k g)) (pend d k g)" for g
    using group_ok_fresh [OF db_ok_group_ok [OF assms, of k g]] sub [of "ents d k"]
    by (intro group_ok_filter_fresh [OF db_ok_group_ok [OF assms]]) auto
  moreover have "\<forall>e\<in>set (drop n (ents d k)). P k (fst e)" "distinct (map fst (drop n (ents d k)))"
    using assms by (auto simp: db_ok_def drop_map [symmetric] dest: in_set_dropD)
  ultimately show ?thesis using assms by (simp add: db_ok_def db_trim_def)
qed

lemma db_ok_fresh_id:
  assumes "db_ok P d" "\<not> P k i"
  shows "i \<notin> fst ` set (ents d k) \<and> (\<forall>g. i \<notin> set (pend d k g)) \<and> (\<forall>g. i \<notin> fst ` set (fresh d k g))"
  using assms unfolding db_ok_def group_ok_def by (blast | force)+

lemma group_ok_snoc:
  assumes "group_ok P es ex fr pe" "i \<notin> fst ` set fr" "i \<notin> set pe"
  shows "group_ok P (es @ [(i, v)]) ex (if ex then fr @ [(i, v)] else fr) pe"
  using assms by (auto simp: group_ok_def)

lemma db_ok_add:
  assumes "db_ok P d" "\<And>k i. P k i \<Longrightarrow> Q k i" "\<not> P k i" "Q k i"
  shows "db_ok Q (db_add k i v d)"
proof -
  have new: "i \<notin> fst ` set (ents d k)" "i \<notin> set (pend d k g)" "i \<notin> fst ` set (fresh d k g)" for g
    using db_ok_fresh_id [OF assms(1,3)] by auto
  have ok: "db_ok Q d" by (rule db_ok_mono [OF assms(1)]) (rule assms(2))
  have "group_ok (Q k) (ents d k @ [(i, v)]) (grp d k g)
          (if grp d k g then fresh d k g @ [(i, v)] else fresh d k g) (pend d k g)" for g
    by (rule group_ok_snoc [OF db_ok_group_ok [OF ok] new(3) new(2)])
  then show ?thesis using ok assms(4) new(1) by (auto simp: db_ok_def db_add_def)
qed

lemma group_ok_deliver:
  "\<lbrakk>group_ok P es ex (e # fr) pe; P (fst e)\<rbrakk> \<Longrightarrow> group_ok P es ex fr (pe @ [fst e])"
  by (auto simp: group_ok_def)

lemma db_ok_deliver:
  assumes "db_ok P d" "fresh d k g \<noteq> []" shows "db_ok P (db_deliver k g d)"
proof -
  obtain e fr where fr: "fresh d k g = e # fr" using assms(2) by (cases "fresh d k g") auto
  note ok = db_ok_group_ok [OF assms(1), of k g]
  have "P k (fst e)" using assms(1) group_ok_fresh [OF ok] by (simp add: fr db_ok_def)
  with ok have "group_ok (P k) (ents d k) (grp d k g) fr (pend d k g @ [fst e])"
    by (simp add: fr group_ok_deliver)
  then show ?thesis using assms(1) by (simp add: db_ok_def db_deliver_def fr)
qed

lemma db_ok_ack: "db_ok P d \<Longrightarrow> db_ok P (db_ack k g i d)"
  by (simp add: db_ok_def db_ack_def removeAll_filter_not_eq group_ok_filter_pend)

lemma db_ok_del:
  assumes "db_ok P d" shows "db_ok P (db_del k i d)"
proof -
  have "group_ok (P k) (filter (\<lambda>e. fst e \<noteq> i) (ents d k)) (grp d k g)
        (filter (\<lambda>e. fst e \<noteq> i) (fresh d k g)) (pend d k g)" for g
    using group_ok_fresh [OF db_ok_group_ok [OF assms, of k g]]
    by (intro group_ok_filter_fresh [OF db_ok_group_ok [OF assms]]) auto
  then show ?thesis using assms by (simp add: db_ok_def db_del_def distinct_map_filter)
qed

lemma db_ok_claim: "db_ok P d \<Longrightarrow> db_ok P (db_claim k g X d)"
  by (simp add: db_ok_def db_claim_def group_ok_filter_pend)

lemma db_ok_group: "db_ok P d \<Longrightarrow> db_ok P (db_group k g d)"
  by (auto simp: db_ok_def db_group_def group_ok_def)

lemma mem_add_added:
  assumes "mem_inv s" and "mem_add k m v s = (i, s')"
  shows "mem_inv s' \<and> added k m v i (m_db s) (m_db s')"
proof -
  let ?n = "mem_trim m (length (ents (m_db s) k))"
  have i: "i = mem_id (m_now s) (Suc (m_seq s k))"
    and s': "s' = s\<lparr>m_seq := (m_seq s)(k := Suc (m_seq s k)), m_db := db_add k i v (db_trim k ?n (m_db s))\<rparr>"
    using assms(2) by (auto simp: mem_add_def Let_def)
  have ok: "db_ok (known_id s) (m_db s)" using assms(1) by (simp add: mem_inv_def)
  have new: "\<not> known_id s k i" by (simp add: i known_new)
  have "known_id s k0 j \<Longrightarrow> known_id s' k0 j" for k0 j
    by (auto simp: known_id_def s') (metis le_SucI)+
  moreover have "known_id s' k i" by (auto simp: known_id_def s' i)
  ultimately have "db_ok (known_id s') (db_add k i v (db_trim k ?n (m_db s)))"
    using db_ok_add [OF db_ok_trim [OF ok] _ new] by blast
  moreover have "trim_ok m (length (ents (m_db s) k)) ?n"
    by (auto simp: trim_ok_def mem_trim_def)
  ultimately show ?thesis
    using db_ok_fresh_id [OF ok new] by (auto simp: mem_inv_def s' added_def)
qed

lemma mem_adds_added:
  "\<lbrakk>mem_inv s; mem_adds as s = (is, s')\<rbrakk> \<Longrightarrow> mem_inv s' \<and> added_all as is (m_db s) (m_db s')"
proof (induction as s arbitrary: "is" s' rule: mem_adds.induct)
  case (2 k m v as s)
  obtain i s1 where a: "mem_add k m v s = (i, s1)" by fastforce
  obtain is2 s2 where b: "mem_adds as s1 = (is2, s2)" by fastforce
  from "2.prems"(2) have eq: "is = i # is2" "s' = s2" by (auto simp: a b)
  from mem_add_added [OF "2.prems"(1) a] have i1: "mem_inv s1" "added k m v i (m_db s) (m_db s1)" by auto
  from "2.IH" [OF _ _ i1(1) b] a have "mem_inv s2 \<and> added_all as is2 (m_db s1) (m_db s2)" by simp
  with i1(2) eq show ?case by auto
qed simp

lemma mem_inv_db: "mem_inv s \<Longrightarrow> db_ok (known_id s) d \<Longrightarrow> mem_inv (s\<lparr>m_faults := bs, m_db := d\<rparr>)"
  by (simp add: mem_inv_def known_id_def [abs_def])

lemma mem_rank_claim:
  fixes s :: mem and k g start :: string and n :: nat
  defines "p \<equiv> pend_from start (pend (m_db s) k g)"
  assumes inv: "mem_inv s" and n: "0 < n" and rest: "drop n p = nxt # r"
    and gone: "gone \<subseteq> set (take n p)"
    and s': "m_db s' = db_claim k g gone (m_db s)" and nz: "nxt \<noteq> ''0-0''"
  shows "mem_rank s' k g nxt < mem_rank s k g start"
proof -
  let ?pe = "pend (m_db s) k g"
  define pre where "pre = (if start = ''0-0'' then [] else takeWhile (\<lambda>i. i \<noteq> start) ?pe)"
  have pe: "?pe = pre @ p" by (simp add: p_def pend_from_def pre_def)
  have dist: "distinct ?pe"
    using inv by (auto simp: mem_inv_def db_ok_def group_ok_def)
  have p: "p = take n p @ nxt # r" using rest by (metis append_take_drop_id)
  then have split: "?pe = pre @ take n p @ nxt # r" using pe by simp
  with dist have d: "distinct (pre @ take n p @ nxt # r)" by simp
  have keep: "filter (\<lambda>i. i \<notin> gone) (nxt # r) = nxt # r"
    using d gone by (intro filter_True) auto
  define q where "q = filter (\<lambda>i. i \<notin> gone) (pre @ take n p)"
  have "pend (m_db s') k g = q @ nxt # r"
    using s' split keep by (simp add: db_claim_def q_def)
  moreover have "dropWhile (\<lambda>i. i \<noteq> nxt) (q @ nxt # r) = dropWhile (\<lambda>i. i \<noteq> nxt) (nxt # r)"
    by (rule dropWhile_append2) (use d in \<open>auto simp: q_def\<close>)
  ultimately have "pend_from nxt (pend (m_db s') k g) = nxt # r"
    using nz by (simp add: pend_from_def)
  then have "mem_rank s' k g nxt = length (nxt # r)" by (simp add: mem_rank_def)
  also have "length (nxt # r) = length p - n" by (simp add: rest [symmetric])
  also have "\<dots> < length p" using n p by (intro diff_less) (auto intro: Nat.gr0I)
  finally show ?thesis by (simp add: mem_rank_def p_def)
qed

lemma pend_from_subset: "set (pend_from cur p) \<subseteq> set p"
  by (auto simp: pend_from_def dest: set_dropWhileD)

lemma map_of_put_field: "map_of (put_field f v h) = (map_of h)(f \<mapsto> v)"
  by (induction f v h rule: put_field.induct) auto

lemma map_of_put_fields: "map_of (put_fields fs h) = hash_put fs (map_of h)"
  by (induction fs h rule: put_fields.induct) (auto simp: hash_put_def map_of_put_field)

lemmas mem_ops = memory_def mem_XAdd_def mem_PipeXAdd_def mem_XLen_def mem_XReadGroup_def mem_XAck_def
  mem_XPending_def mem_XRange_def mem_XDel_def mem_XGroupCreateMkStream_def
  mem_SetNX_def mem_Get_def mem_Expire_def mem_Del_def mem_HSet_def mem_HGetAll_def mem_Keys_def

lemma mem_xclaim:
  assumes inv: "mem_inv s" and run: "XAutoClaim memory c k g w idle start n s = (Inr (ms, nxt), s')"
  shows "mem_inv s' \<and> (\<forall>m\<in>set ms. msg_ID m \<in> set (pend (m_db s) k g) \<and>
                         (msg_ID m, msg_Values m) \<in> set (ents (m_db s) k)) \<and>
         (\<exists>gone. gone \<inter> fst ` set (ents (m_db s) k) = {} \<and> m_db s' = db_claim k g gone (m_db s)) \<and>
         (nxt \<noteq> ''0-0'' \<longrightarrow> mem_rank s' k g nxt < mem_rank s k g start)"
proof -
  let ?p = "pend_from start (pend (m_db s) k g)"
  let ?n = "max 1 (nat n)"
  let ?gone = "{i \<in> set (take ?n ?p). i \<notin> fst ` set (ents (m_db s) k)}"
  from run obtain bs where
    nxt: "nxt = (case drop ?n ?p of [] \<Rightarrow> ''0-0'' | i # _ \<Rightarrow> i)"
    and db: "m_db s' = db_claim k g ?gone (m_db s)" and sq: "m_seq s' = m_seq s"
    and ms: "ms = concat (map (\<lambda>i. map xmsg (filter (\<lambda>e. fst e = i) (ents (m_db s) k)))
               (filter (\<lambda>i. idle \<le> m_now s - m_since s i) (take ?n ?p)))"
    by (auto simp: memory_def mem_XAutoClaim_def Let_def elim!: mem_cmdE)
  have "mem_inv s'"
    using inv db_ok_claim [of "known_id s" "m_db s"] by (simp add: mem_inv_def db sq known_id_def [abs_def])
  moreover have "\<forall>m\<in>set ms. msg_ID m \<in> set (pend (m_db s) k g) \<and> (msg_ID m, msg_Values m) \<in> set (ents (m_db s) k)"
    using pend_from_subset [of start "pend (m_db s) k g"]
    by (auto simp: ms xmsg_def dest: in_set_takeD)
  moreover have "?gone \<inter> fst ` set (ents (m_db s) k) = {}" by auto
  moreover have "mem_rank s' k g nxt < mem_rank s k g start" if nz: "nxt \<noteq> ''0-0''"
  proof (cases "drop ?n ?p")
    case Nil
    with nz nxt show ?thesis by simp
  next
    case (Cons i r)
    with nxt have rest: "drop ?n ?p = nxt # r" by simp
    show ?thesis by (rule mem_rank_claim [OF inv _ rest _ db nz]) auto
  qed
  ultimately show ?thesis using db by blast
qed

interpretation mem_streams: redis_streams memory m_db mem_inv mem_rank
proof (unfold_locales, goal_cases)
  case (1 s c k m v i s')
  then show ?case by (auto simp: mem_ops split: prod.splits elim!: mem_cmdE dest!: mem_add_added [rotated])
next
  case (2 s c k m v e s')
  then show ?case by (auto simp: mem_ops split: prod.splits elim!: mem_cmdE)
next
  case (3 s c as "is" s')
  then show ?case by (auto simp: mem_ops split: prod.splits elim!: mem_cmdE dest!: mem_adds_added [rotated])
next
  case (4 s c as e s')
  then have "m_db s' = m_db s" "mem_inv s'" by (auto simp: mem_ops split: prod.splits elim!: mem_cmdE)
  then show ?case by (auto intro!: exI [of _ "[]"])
next
  case (5 s c k rl s')
  then show ?case by (auto simp: mem_ops elim!: mem_cmdE)
next
  case (6 s c g w k b res s')
  then show ?case
    by (auto simp: mem_ops Let_def mem_inv_def known_id_def [abs_def] db_ok_deliver
        elim!: mem_cmdE split: if_splits list.splits)
next
  case (7 s c g w k b s')
  then show ?case
    by (auto simp: mem_ops Let_def elim!: mem_cmdE split: if_splits list.splits)
next
  case (8 s c g w k b e s')
  then show ?case
    by (auto simp: mem_ops Let_def elim!: mem_cmdE split: if_splits list.splits)
next
  case (9 s c k g i n s')
  then show ?case
    by (auto simp: mem_ops mem_inv_def known_id_def [abs_def] db_ok_ack elim!: mem_cmdE)
next
  case (10 s c k g i e s')
  then show ?case by (auto simp: mem_ops elim!: mem_cmdE)
next
  case (11 s c k g w idle start n ms nxt s')
  then show ?case by (rule mem_xclaim)
next
  case (12 s c k g w idle start n e s')
  have "db_claim k g {} d = d" for d by (simp add: db_claim_def fun_upd_idem)
  with 12 show ?case
    by (auto simp: memory_def mem_XAutoClaim_def Let_def elim!: mem_cmdE intro!: exI [of _ "{}"])
next
  case (13 s c k g rp s')
  then show ?case by (auto simp: mem_ops Let_def elim!: mem_cmdE split: list.splits)
next
  case (14 s c k i r s')
  then show ?case by (auto simp: mem_ops Let_def elim!: mem_cmdE)
next
  case (15 s c k r s')
  then show ?case by (auto simp: mem_ops Let_def elim!: mem_cmdE)
next
  case (16 s c k i n s')
  then show ?case
    by (auto simp: mem_ops mem_inv_def known_id_def [abs_def] db_ok_del elim!: mem_cmdE)
next
  case (17 s c k i e s')
  then show ?case by (auto simp: mem_ops elim!: mem_cmdE)
next
  case (18 s c k g u s')
  then show ?case
    by (auto simp: mem_ops mem_inv_def known_id_def [abs_def] db_ok_group elim!: mem_cmdE split: if_splits)
next
  case (19 s c k g e s')
  then show ?case by (auto simp: mem_ops elim!: mem_cmdE split: if_splits)
next
  case (20 s c k m v i s')
  then show ?case
    by (auto simp: mem_ops mem_add_def Let_def mem_id_neq elim!: mem_cmdE)
qed

lemma mem_now_faults [simp]: "live_at (m_kv (s\<lparr>m_faults := bs\<rparr>)) = live_at (m_kv s)"
  by simp

interpretation mem_keys: redis_keys memory m_now m_kv
proof (unfold_locales, goal_cases)
  case (1 c key v d s r1 s')
  then show ?case by (auto simp: mem_ops elim!: mem_cmdE split: option.splits)
next
  case (2 c key s r2 s')
  then show ?case by (auto simp: mem_ops elim!: mem_cmdE split: option.splits)
next
  case (3 c key d s r3 s')
  then show ?case by (auto simp: mem_ops elim!: mem_cmdE split: option.splits)
next
  case (4 c key s r4 s')
  then show ?case by (auto simp: mem_ops elim!: mem_cmdE)
next
  case (5 c key v d s s')
  then show ?case by (auto simp: mem_ops elim!: mem_cmdE split: option.splits intro!: exI [of _ "m_now s"])
next
  case (6 c key v d s s')
  then show ?case by (auto simp: mem_ops elim!: mem_cmdE split: option.splits intro!: exI [of _ "m_now s"])
next
  case (7 c key v d s e s')
  then show ?case by (auto simp: mem_ops elim!: mem_cmdE split: option.splits)
next
  case (8 c key s r s')
  then show ?case by (auto simp: mem_ops elim!: mem_cmdE split: option.splits)
next
  case (9 c key s v s')
  then show ?case by (auto simp: mem_ops elim!: mem_cmdE split: option.splits intro!: exI [of _ "m_now s"])
next
  case (10 c key s s')
  then show ?case by (auto simp: mem_ops elim!: mem_cmdE split: option.splits intro!: exI [of _ "m_now s"])
next
  case (11 c key d s b s')
  then show ?case by (auto simp: mem_ops elim!: mem_cmdE split: option.splits intro!: exI [of _ "m_now s"])
next
  case (12 c key d s e s')
  then show ?case by (auto simp: mem_ops elim!: mem_cmdE split: option.splits)
next
  case (13 c key s n s')
  then show ?case by (auto simp: mem_ops elim!: mem_cmdE)
next
  case (14 c key s e s')
  then show ?case by (auto simp: mem_ops elim!: mem_cmdE)
qed

lemma map_of_filter_key: "map_of (filter (\<lambda>h. fst h \<noteq> key) hs) = (map_of hs)(key := None)"
  by (induction hs) auto

lemma hash_fields_faults [simp]: "hash_fields (s\<lparr>m_faults := bs\<rparr>) = hash_fields s"
  by (rule ext) (simp add: hash_fields_def)

interpretation mem_hashes: redis_hashes memory mem_hv
proof (unfold_locales, goal_cases)
  case (1 c key fs s n s')
  then show ?case
    by (auto simp: mem_ops Let_def mem_hv_def fun_eq_iff hash_fields_def map_of_filter_key map_of_put_fields
        elim!: mem_cmdE split: option.splits)
next
  case (2 c key fs s e s')
  then show ?case by (auto simp: mem_ops Let_def mem_hv_def fun_eq_iff elim!: mem_cmdE)
next
  case (3 c key s r s')
  then show ?case by (auto simp: mem_ops mem_hv_def fun_eq_iff elim!: mem_cmdE)
next
  case (4 c key s fs s')
  then show ?case by (auto simp: mem_ops mem_hv_def elim!: mem_cmdE)
next
  case (5 c pat s rk s')
  then show ?case by (auto simp: mem_ops mem_hv_def fun_eq_iff elim!: mem_cmdE)
next
  case (6 c p s ks s' key)
  have "map_of (m_hash s) key \<noteq> None"
    using 6(3) by (auto simp: mem_hv_def hash_fields_def split: option.splits)
  then have k: "key \<in> set (map fst (m_hash s))" by (simp add: map_of_eq_None_iff)
  from 6(1) have "ks = filter (\<lambda>k. HasPrefix k p) (map fst (m_hash s))"
    by (auto simp: mem_ops elim!: mem_cmdE)
  with k 6(4) show ?case by (simp del: set_map)
next
  case (7 c p s ks s' key)
  then show ?case by (auto simp: mem_ops elim!: mem_cmdE)
next
  case (8 c key s n s')
  then show ?case
    by (auto simp: mem_ops mem_hv_def fun_eq_iff hash_fields_def map_of_filter_key elim!: mem_cmdE)
next
  case (9 c key s e s')
  then show ?case by (auto simp: mem_ops mem_hv_def fun_eq_iff elim!: mem_cmdE)
qed

interpretation mem_server: redis_server memory m_db mem_inv mem_rank m_now m_kv
proof (unfold_locales, goal_cases)
  case (1 s c key v d r s')
  then show ?case
    by (auto simp: mem_ops mem_inv_def known_id_def [abs_def] elim!: mem_cmdE split: option.splits)
next
  case (2 c k m fs s ra s')
  then show ?case by (auto simp: mem_ops mem_add_def Let_def elim!: mem_cmdE)
next
  case (3 c k g i s rb s')
  then show ?case by (auto simp: mem_ops elim!: mem_cmdE)
next
  case (4 c g w k n b s rc s')
  then show ?case by (auto simp: mem_ops Let_def elim!: mem_cmdE split: if_splits list.splits)
qed

text \<open>The empty server satisfies the invariant.\<close>

interpretation mem_service: redis_service memory m_db mem_inv mem_rank mem_hv
proof (unfold_locales, goal_cases)
  case (1 s c key fs r1 s')
  then show ?case
    by (auto simp: mem_ops mem_inv_def known_id_def [abs_def] Let_def elim!: mem_cmdE split: option.splits)
next
  case (2 s c key r2 s')
  then show ?case
    by (auto simp: mem_ops mem_inv_def known_id_def [abs_def] Let_def elim!: mem_cmdE split: option.splits)
next
  case (3 s c r3 s')
  then show ?case
    by (auto simp: mem_ops mem_Ping_def mem_inv_def known_id_def [abs_def] mem_hv_def hash_fields_def fun_eq_iff elim!: mem_cmdE split: option.splits)
next
  case (4 c k g i s r4 s')
  then show ?case
    by (auto simp: mem_ops mem_hv_def fun_eq_iff hash_fields_def Let_def elim!: mem_cmdE split: option.splits if_splits)
qed

lemma mem_inv_init [simp]: "mem_inv (mem_init t faults)"
  by (simp add: mem_inv_def mem_init_def empty_db_def db_ok_def group_ok_def)

lemma mem_cmd_live [simp]: "m_faults s = [] \<Longrightarrow> mem_cmd None f s = f s"
  by (simp add: mem_cmd_def)

lemma mem_XAdd_live:
  "m_faults s = [] \<Longrightarrow> XAdd memory None k m v s = (Inr (fst (mem_add k m v s)), snd (mem_add k m v s))"
  by (simp add: memory_def mem_XAdd_def split_beta)

lemma mem_init_faults [simp]: "m_faults (mem_init t fs) = fs"
  by (simp add: mem_init_def)

interpretation mem_backend: redis_backend memory m_db mem_inv mem_rank m_now m_kv mem_hv ..

end
