(* ===== verification/Configuration.thy ===== *)
theory Configuration
  imports Go_Strconv Go_Float
begin

text \<open>
  Package \<open>internal/config\<close>: the configuration records of \<open>config.go\<close>, the defaults of
  \<open>defaults.go\<close> and the validator of \<open>validator.go\<close>. A record field carries the prefix of its
  struct, because Isabelle's field names are global. A validator returns \<open>None\<close> for Go's
  \<open>nil\<close>; its error texts and their order are those of the source.
\<close>

section \<open>The configuration records (config.go)\<close>

record ThrottlerConfig =
  t_Enabled :: bool
  t_SoftDepthLimit :: int64
  t_HardDepthLimit :: int64
  t_MaxMessageAge :: duration
  t_CriticalMessageAge :: duration
  t_RateLimitScore :: float64
  t_CircuitOpenScore :: float64
  t_MetricsUpdateInterval :: duration
  t_EstimatedDrainRate :: float64
  t_MinRetryAfter :: duration
  t_MaxRetryAfter :: duration

record IngestionConfig =
  i_EnableCircuitBreaker :: bool
  i_MaxQueueDepth :: int64
  i_Throttler :: ThrottlerConfig

record RegistryConfig =
  r_HeartbeatInterval :: duration
  r_DeadThreshold :: duration
  r_PollInterval :: duration
  r_ControlPlanePoll :: duration
  r_LockTTL :: duration

record WorkerConfig =
  w_Concurrency :: int64
  w_PollInterval :: duration
  w_BatchSize :: int64
  w_ProcessingTimeout :: duration
  w_JobMaxRetries :: int64
  w_BackoffMinDelay :: duration
  w_BackoffMaxDelay :: duration
  w_HealthPort :: string
  w_ReclaimInterval :: duration
  w_ReclaimIdleTime :: duration
  w_ReclaimBatchSize :: int64
  w_DedupTTL :: duration

record ServerConfig =
  s_Host :: string
  s_Port :: string
  s_ReadTimeout :: duration
  s_WriteTimeout :: duration
  s_IdleTimeout :: duration
  s_ShutdownTimeout :: duration

record QueueConfig =
  q_BaseStreamName :: string
  q_BaseConsumerGroup :: string
  q_RedisMaxRetries :: int64
  q_MaxLen :: int64
  q_DLQStreamName :: string
  q_DLQMaxLen :: int64
  q_PartitionCount :: int64
  q_PartitionID :: int64

record RedisClientConfig =
  rc_Host :: string
  rc_Port :: string
  rc_Password :: string
  rc_DB :: int64
  rc_PoolSize :: int64
  rc_MinIdleConns :: int64
  rc_ConnMaxIdleTime :: duration

record PostgresClientConfig =
  p_Host :: string
  p_Port :: string
  p_Database :: string
  p_User :: string
  p_Password :: string
  p_SSLMode :: string
  p_MaxConns :: int64
  p_MinConns :: int64
  p_MaxConnLifetime :: duration
  p_MaxConnIdleTime :: duration

record ObservabilityConfig =
  o_LogLevel :: string
  o_LogFormat :: string
  o_MetricsEnabled :: bool
  o_MetricsPort :: string
  o_TracingEnabled :: bool
  o_TracingSampleRate :: float64
  o_HealthCheckTimeout :: duration

record Config =
  c_Environment :: string
  c_Ingestion :: IngestionConfig
  c_Worker :: WorkerConfig
  c_Registry :: RegistryConfig
  c_Throttler :: ThrottlerConfig
  c_Server :: ServerConfig
  c_Redis :: RedisClientConfig
  c_Queue :: QueueConfig
  c_Postgres :: PostgresClientConfig
  c_Observability :: ObservabilityConfig

definition ServerAddr :: "Config \<Rightarrow> string" where
  "ServerAddr c = s_Host (c_Server c) @ '':'' @ s_Port (c_Server c)"

definition RedisAddr :: "Config \<Rightarrow> string" where
  "RedisAddr c = rc_Host (c_Redis c) @ '':'' @ rc_Port (c_Redis c)"

definition PostgresDSN :: "Config \<Rightarrow> string" where
  "PostgresDSN c =
     (let p = c_Postgres c
      in ''host='' @ p_Host p @ '' port='' @ p_Port p @ '' user='' @ p_User p
         @ '' password='' @ p_Password p @ '' dbname='' @ p_Database p @ '' sslmode='' @ p_SSLMode p)"

definition MetricsAddr :: "Config \<Rightarrow> string" where
  "MetricsAddr c = '':'' @ o_MetricsPort (c_Observability c)"

section \<open>Defaults (defaults.go)\<close>

text \<open>The constants of each section of \<open>defaults.go\<close> as the record that \<open>GetDefaults\<close> builds from them.\<close>

definition DefaultEnvironment :: string where [simp]: "DefaultEnvironment = ''development''"
definition DefaultEnableCircuitBreaker :: bool where [simp]: "DefaultEnableCircuitBreaker = True"
definition DefaultMaxQueueDepth :: int64 where [simp]: "DefaultMaxQueueDepth = 1000"
definition DefaultWorkerBatchSize :: int64 where "DefaultWorkerBatchSize = 10"
definition DefaultWorkerReclaimBatchSize :: int64 where "DefaultWorkerReclaimBatchSize = 100"

definition DefaultThrottler :: ThrottlerConfig where
  "DefaultThrottler = \<lparr>
     t_Enabled = True,
     t_SoftDepthLimit = 100,
     t_HardDepthLimit = 5000,
     t_MaxMessageAge = 30 * Second,
     t_CriticalMessageAge = 60 * Second,
     t_RateLimitScore = Fin 1,
     t_CircuitOpenScore = Fin (3 / 2),
     t_MetricsUpdateInterval = 500 * Millisecond,
     t_EstimatedDrainRate = Fin 100,
     t_MinRetryAfter = 1 * Second,
     t_MaxRetryAfter = 30 * Second \<rparr>"

definition DefaultRegistry :: RegistryConfig where
  "DefaultRegistry = \<lparr>
     r_HeartbeatInterval = 10 * Second,
     r_DeadThreshold = 30 * Second,
     r_PollInterval = 15 * Second,
     r_ControlPlanePoll = 15 * Second,
     r_LockTTL = 60 * Second \<rparr>"

definition DefaultWorker :: WorkerConfig where
  "DefaultWorker = \<lparr>
     w_Concurrency = 2,
     w_PollInterval = 100 * Millisecond,
     w_BatchSize = DefaultWorkerBatchSize,
     w_ProcessingTimeout = 30 * Second,
     w_JobMaxRetries = 3,
     w_BackoffMinDelay = 500 * Millisecond,
     w_BackoffMaxDelay = 5 * Second,
     w_HealthPort = ''8081'',
     w_ReclaimInterval = 30 * Second,
     w_ReclaimIdleTime = 60 * Second,
     w_ReclaimBatchSize = DefaultWorkerBatchSize,
     w_DedupTTL = 1 * Hour \<rparr>"

definition DefaultQueue :: QueueConfig where
  "DefaultQueue = \<lparr>
     q_BaseStreamName = ''logs:ingest'',
     q_BaseConsumerGroup = ''log-workers'',
     q_RedisMaxRetries = 3,
     q_MaxLen = 10000,
     q_DLQStreamName = ''logs:dlq'',
     q_DLQMaxLen = 1000,
     q_PartitionCount = 2,
     q_PartitionID = 0 \<rparr>"

definition DefaultServer :: ServerConfig where
  [simp]: "DefaultServer = \<lparr>
     s_Host = ''0.0.0.0'',
     s_Port = ''8080'',
     s_ReadTimeout = 10 * Second,
     s_WriteTimeout = 10 * Second,
     s_IdleTimeout = 30 * Second,
     s_ShutdownTimeout = 30 * Second \<rparr>"

definition DefaultRedis :: RedisClientConfig where
  [simp]: "DefaultRedis = \<lparr>
     rc_Host = ''localhost'',
     rc_Port = ''6379'',
     rc_Password = '''',
     rc_DB = 0,
     rc_PoolSize = 10,
     rc_MinIdleConns = 5,
     rc_ConnMaxIdleTime = 5 * Minute \<rparr>"

definition DefaultPostgres :: PostgresClientConfig where
  [simp]: "DefaultPostgres = \<lparr>
     p_Host = ''localhost'',
     p_Port = ''5432'',
     p_Database = ''logdb'',
     p_User = ''postgres'',
     p_Password = ''postgres'',
     p_SSLMode = ''disable'',
     p_MaxConns = 25,
     p_MinConns = 5,
     p_MaxConnLifetime = 1 * Hour,
     p_MaxConnIdleTime = 30 * Minute \<rparr>"

definition DefaultObservability :: ObservabilityConfig where
  [simp]: "DefaultObservability = \<lparr>
     o_LogLevel = ''info'',
     o_LogFormat = ''json'',
     o_MetricsEnabled = True,
     o_MetricsPort = ''9090'',
     o_TracingEnabled = False,
     o_TracingSampleRate = round64 (1 / 10),
     o_HealthCheckTimeout = 5 * Second \<rparr>"

definition GetDefaults :: Config where
  "GetDefaults = \<lparr>
     c_Environment = DefaultEnvironment,
     c_Ingestion = \<lparr> i_EnableCircuitBreaker = DefaultEnableCircuitBreaker, i_MaxQueueDepth = DefaultMaxQueueDepth,
                     i_Throttler = DefaultThrottler \<rparr>,
     c_Worker = DefaultWorker,
     c_Registry = DefaultRegistry,
     c_Throttler = DefaultThrottler,
     c_Server = DefaultServer,
     c_Redis = DefaultRedis,
     c_Queue = DefaultQueue,
     c_Postgres = DefaultPostgres,
     c_Observability = DefaultObservability \<rparr>"

section \<open>Validation (validator.go)\<close>

subsection \<open>Error texts\<close>

definition err_if :: "bool \<Rightarrow> string \<Rightarrow> goerror list" where
  "err_if b msg = (if b then [ErrorString msg] else [])"

fun join_errors :: "goerror list \<Rightarrow> string" where
  "join_errors [] = ''''"
| "join_errors [e] = Error e"
| "join_errors (e # es) = Error e @ ''; '' @ join_errors es"

definition combineErrors :: "goerror list \<Rightarrow> goerror option" where
  "combineErrors errs =
     (case errs of [] \<Rightarrow> None | [e] \<Rightarrow> Some e | _ \<Rightarrow> Some (ErrorString (join_errors errs)))"

definition formatErrors :: "goerror list \<Rightarrow> goerror" where
  "formatErrors errs =
     ErrorString (''configuration validation failed:'' @ [CHR 0x0A]
                  @ concat (map (\<lambda>e. ''  - '' @ Error e @ [CHR 0x0A]) errs))"

fun contains :: "string list \<Rightarrow> string \<Rightarrow> bool" where
  "contains [] item \<longleftrightarrow> False"
| "contains (s # ss) item \<longleftrightarrow> s = item \<or> contains ss item"

text \<open>
  \<open>strings.ToLower\<close>, exact for the comparison with ASCII words that follows it: ASCII letters,
  and the two non-ASCII letters whose lower case is ASCII (U+0130 and U+212A). Other
  bytes stay: they can never make an ASCII word.
\<close>

definition lower_char :: "char \<Rightarrow> char" where
  "lower_char c = (if 65 \<le> (of_char c :: nat) \<and> (of_char c :: nat) \<le> 90
                   then char_of ((of_char c :: nat) + 32) else c)"

fun ToLower :: "string \<Rightarrow> string" where
  "ToLower [] = []"
| "ToLower (c # cs) =
     (case cs of
        d # ds \<Rightarrow>
          if c = CHR 0xC4 \<and> d = CHR 0xB0 then CHR ''i'' # ToLower ds
          else (case ds of
                  e # es \<Rightarrow> if c = CHR 0xE2 \<and> d = CHR 0x84 \<and> e = CHR 0xAA
                             then CHR ''k'' # ToLower es else lower_char c # ToLower cs
                | [] \<Rightarrow> lower_char c # ToLower cs)
      | [] \<Rightarrow> [lower_char c])"

text \<open>The verbs \<open>%v\<close> on a string slice and \<open>%.2f\<close>.\<close>

definition show_slice :: "string list \<Rightarrow> string" where
  "show_slice ss = ''['' @ concat (case ss of [] \<Rightarrow> [] | x # xs \<Rightarrow> x # map (\<lambda>s. CHR '' '' # s) xs) @ '']''"

definition show_f2 :: "float64 \<Rightarrow> string" where
  "show_f2 x =
     (case x of
        Fin r \<Rightarrow> let n = nat (round_half_even (\<bar>r\<bar> * 100))
                 in (if r < 0 then ''-'' else '''') @ utoa (n div 100) @ ''.'' @ pad_left 2 (utoa (n mod 100))
      | PInf \<Rightarrow> ''+Inf'' | NInf \<Rightarrow> ''-Inf'' | NaN \<Rightarrow> ''NaN'')"

subsection \<open>The checks of each section\<close>

text \<open>\<open>port, err := strconv.Atoi(p); err != nil || port < 1 || port > 65535\<close>\<close>

definition bad_port :: "string \<Rightarrow> bool" where
  "bad_port p = (case Atoi p of None \<Rightarrow> True | Some port \<Rightarrow> port < 1 \<or> port > 65535)"

definition port_errors :: "string \<Rightarrow> string \<Rightarrow> string \<Rightarrow> goerror list" where
  "port_errors missing badmsg p =
     (if p = '''' then [ErrorString missing]
      else err_if (bad_port p) (badmsg @ p))"

definition validateServer :: "ServerConfig \<Rightarrow> goerror option" where
  "validateServer cfg = combineErrors
     (port_errors ''port is required'' ''port must be between 1 and 65535, got: '' (s_Port cfg)
      @ err_if (s_ReadTimeout cfg \<le> 0) ''read timeout must be positive''
      @ err_if (s_WriteTimeout cfg \<le> 0) ''write timeout must be positive''
      @ err_if (s_ShutdownTimeout cfg \<le> 0) ''shutdown timeout must be positive'')"

definition validateRedis :: "RedisClientConfig \<Rightarrow> goerror option" where
  "validateRedis cfg = combineErrors
     (err_if (rc_Host cfg = '''') ''host is required''
      @ port_errors ''port is required'' ''port must be between 1 and 65535, got: '' (rc_Port cfg)
      @ err_if (rc_DB cfg < 0 \<or> rc_DB cfg > 15)
          (''db must be between 0 and 15, got: '' @ itoa (rc_DB cfg))
      @ err_if (rc_PoolSize cfg \<le> 0) ''pool size must be positive'')"

definition validateQueue :: "QueueConfig \<Rightarrow> goerror option" where
  "validateQueue cfg = combineErrors
     (err_if (q_BaseStreamName cfg = '''') ''stream name is required''
      @ err_if (q_BaseConsumerGroup cfg = '''') ''consumer group is required''
      @ err_if (q_RedisMaxRetries cfg \<le> 0) ''max retries must be positive''
      @ err_if (q_MaxLen cfg \<le> 0) ''max length must be positive''
      @ err_if (q_DLQStreamName cfg = '''') ''DLQ stream name is required''
      @ err_if (q_DLQMaxLen cfg \<le> 0) ''DLQ max length must be positive''
      @ err_if (q_DLQStreamName cfg = q_BaseStreamName cfg)
          ''DLQ stream name must be different from main stream''
      @ err_if (q_PartitionCount cfg \<le> 0) ''partition count must be positive''
      @ err_if (q_PartitionID cfg < 0 \<or> q_PartitionID cfg \<ge> q_PartitionCount cfg)
          (''partition ID '' @ itoa (q_PartitionID cfg) @ '' out of range [0, ''
           @ itoa (q_PartitionCount cfg) @ '')''))"

definition validSSLModes :: "string list" where
  "validSSLModes = [''disable'', ''require'', ''verify-ca'', ''verify-full'']"

definition validatePostgres :: "PostgresClientConfig \<Rightarrow> goerror option" where
  "validatePostgres cfg = combineErrors
     (err_if (p_Host cfg = '''') ''host is required''
      @ port_errors ''port is required'' ''port must be between 1 and 65535, got: '' (p_Port cfg)
      @ err_if (p_Database cfg = '''') ''database name is required''
      @ err_if (p_User cfg = '''') ''user is required''
      @ err_if (\<not> contains validSSLModes (p_SSLMode cfg))
          (''ssl mode must be one of '' @ show_slice validSSLModes @ '', got: '' @ p_SSLMode cfg)
      @ err_if (p_MaxConns cfg \<le> 0) ''max connections must be positive''
      @ err_if (p_MinConns cfg < 0) ''min connections cannot be negative''
      @ err_if (p_MinConns cfg > p_MaxConns cfg)
          (''min connections ('' @ itoa (p_MinConns cfg) @ '') cannot exceed max connections (''
           @ itoa (p_MaxConns cfg) @ '')''))"

definition validateWorker :: "WorkerConfig \<Rightarrow> goerror option" where
  "validateWorker cfg = combineErrors
     ((if w_Concurrency cfg \<le> 0 then [ErrorString ''concurrency must be positive'']
       else err_if (w_Concurrency cfg > 1000)
              (''concurrency cannot exceed 1000, got: '' @ itoa (w_Concurrency cfg)))
      @ err_if (w_PollInterval cfg \<le> 0) ''poll interval must be positive''
      @ err_if (w_BatchSize cfg \<le> 0) ''batch size must be positive''
      @ err_if (w_ProcessingTimeout cfg \<le> 0) ''processing timeout must be positive''
      @ err_if (w_JobMaxRetries cfg < 0) ''max retries cannot be negative''
      @ err_if (w_BackoffMinDelay cfg \<le> 0) ''backoff min delay must be positive''
      @ err_if (w_BackoffMaxDelay cfg \<le> 0) ''backoff max delay must be positive''
      @ err_if (w_BackoffMinDelay cfg > w_BackoffMaxDelay cfg)
          (''backoff min delay ('' @ Duration_String (w_BackoffMinDelay cfg)
           @ '') cannot exceed max delay ('' @ Duration_String (w_BackoffMaxDelay cfg) @ '')'')
      @ err_if (w_HealthPort cfg = '''') ''health port is required''
      @ err_if (w_ReclaimInterval cfg \<le> 0) ''reclaim interval must be positive''
      @ err_if (w_ReclaimIdleTime cfg \<le> 0) ''reclaim idle time must be positive''
      @ err_if (w_ReclaimIdleTime cfg < w_ReclaimInterval cfg)
          (''reclaim idle time ('' @ Duration_String (w_ReclaimIdleTime cfg)
           @ '') must be >= reclaim interval ('' @ Duration_String (w_ReclaimInterval cfg)
           @ ''), ideally 2-3x'')
      @ err_if (w_ReclaimBatchSize cfg \<le> 0) ''reclaim batch size must be positive''
      @ err_if (w_DedupTTL cfg \<le> 0) ''deduplication TTL must be positive'')"

definition validateIngestion :: "IngestionConfig \<Rightarrow> goerror option" where
  "validateIngestion cfg = combineErrors
     (err_if (i_MaxQueueDepth cfg < 0) ''max queue depth cannot be negative'')"

definition validLogLevels :: "string list" where
  "validLogLevels = [''debug'', ''info'', ''warn'', ''error'']"

definition validLogFormats :: "string list" where
  "validLogFormats = [''json'', ''text'']"

definition validateObservability :: "ObservabilityConfig \<Rightarrow> goerror option" where
  "validateObservability cfg = combineErrors
     (err_if (\<not> contains validLogLevels (ToLower (o_LogLevel cfg)))
        (''log level must be one of '' @ show_slice validLogLevels @ '', got: '' @ o_LogLevel cfg)
      @ err_if (\<not> contains validLogFormats (ToLower (o_LogFormat cfg)))
          (''log format must be one of '' @ show_slice validLogFormats @ '', got: '' @ o_LogFormat cfg)
      @ (if o_MetricsEnabled cfg
         then port_errors ''metrics port is required when metrics are enabled''
                ''metrics port must be between 1 and 65535, got: '' (o_MetricsPort cfg)
         else [])
      @ (if o_TracingEnabled cfg
         then err_if (fless (o_TracingSampleRate cfg) (Fin 0) \<or> fless (Fin 1) (o_TracingSampleRate cfg))
                (''tracing sample rate must be between 0.0 and 1.0, got: ''
                 @ show_f2 (o_TracingSampleRate cfg))
         else [])
      @ err_if (o_HealthCheckTimeout cfg \<le> 0) ''health check timeout must be positive'')"

definition validateThrottler :: "ThrottlerConfig \<Rightarrow> goerror option" where
  "validateThrottler cfg =
     (if \<not> t_Enabled cfg then None
      else combineErrors
        (err_if (t_SoftDepthLimit cfg \<le> 0) ''throttler soft depth limit must be positive''
         @ err_if (t_HardDepthLimit cfg \<le> 0) ''throttler hard depth limit must be positive''
         @ err_if (t_HardDepthLimit cfg \<le> t_SoftDepthLimit cfg)
             ''throttler hard depth limit must be greater than soft depth limit''
         @ err_if (t_MaxMessageAge cfg \<le> 0) ''throttler max message age must be positive''
         @ err_if (t_CriticalMessageAge cfg \<le> t_MaxMessageAge cfg)
             ''throttler critical message age must be greater than max message age''
         @ err_if (fleq (t_RateLimitScore cfg) (Fin 0)) ''throttler rate limit score must be positive''
         @ err_if (fleq (t_CircuitOpenScore cfg) (t_RateLimitScore cfg))
             ''throttler circuit open score must be greater than rate limit score''
         @ err_if (t_MetricsUpdateInterval cfg \<le> 0)
             ''throttler metrics update interval must be positive''
         @ err_if (fleq (t_EstimatedDrainRate cfg) (Fin 0))
             ''throttler estimated drain rate must be positive''
         @ err_if (t_MinRetryAfter cfg \<le> 0) ''throttler min retry after must be positive''
         @ err_if (t_MaxRetryAfter cfg \<le> t_MinRetryAfter cfg)
             ''throttler max retry after must be greater than min retry after''))"

definition validateRegistry :: "RegistryConfig \<Rightarrow> goerror option" where
  "validateRegistry cfg = combineErrors
     (err_if (r_HeartbeatInterval cfg \<le> 0) ''registry heartbeat interval must be positive''
      @ err_if (r_DeadThreshold cfg \<le> r_HeartbeatInterval cfg)
          ''registry dead threshold must be greater than heartbeat interval''
      @ err_if (r_PollInterval cfg \<le> 0) ''registry poll interval must be positive''
      @ err_if (r_ControlPlanePoll cfg \<le> 0) ''registry control plane poll interval must be positive''
      @ err_if (r_LockTTL cfg \<le> r_ControlPlanePoll cfg)
          ''registry lock TTL must be greater than control plane poll interval'')"

definition section_error :: "string \<Rightarrow> goerror option \<Rightarrow> goerror list" where
  "section_error p e = (case e of None \<Rightarrow> [] | Some err \<Rightarrow> [Wrap p err])"

definition plain_error :: "goerror option \<Rightarrow> goerror list" where
  "plain_error e = (case e of None \<Rightarrow> [] | Some err \<Rightarrow> [err])"

definition Validate :: "Config \<Rightarrow> goerror option" where
  "Validate cfg =
     (let errs = section_error ''server config: '' (validateServer (c_Server cfg))
               @ section_error ''redis config: '' (validateRedis (c_Redis cfg))
               @ section_error ''queue config: '' (validateQueue (c_Queue cfg))
               @ section_error ''postgres config: '' (validatePostgres (c_Postgres cfg))
               @ section_error ''ingestion config: '' (validateIngestion (c_Ingestion cfg))
               @ section_error ''worker config: '' (validateWorker (c_Worker cfg))
               @ section_error ''observability config: '' (validateObservability (c_Observability cfg))
               @ plain_error (validateThrottler (i_Throttler (c_Ingestion cfg)))
               @ plain_error (validateRegistry (c_Registry cfg))
      in if errs \<noteq> [] then Some (formatErrors errs) else None)"

section \<open>What validation establishes\<close>

lemma combineErrors_None [simp]: "combineErrors errs = None \<longleftrightarrow> errs = []"
  by (auto simp: combineErrors_def split: list.splits)

lemma err_if_Nil [simp]: "err_if b msg = [] \<longleftrightarrow> \<not> b"
  by (simp add: err_if_def)

lemma section_error_Nil [simp]: "section_error p e = [] \<longleftrightarrow> e = None"
  by (cases e) (simp_all add: section_error_def)

lemma plain_error_Nil [simp]: "plain_error e = [] \<longleftrightarrow> e = None"
  by (cases e) (simp_all add: plain_error_def)

lemma contains_iff: "contains ss x \<longleftrightarrow> x \<in> set ss"
  by (induction ss) auto

lemma validateQueue_None_iff [cfg_defs]:
  "validateQueue cfg = None \<longleftrightarrow>
     q_BaseStreamName cfg \<noteq> '''' \<and> q_BaseConsumerGroup cfg \<noteq> '''' \<and> 0 < q_RedisMaxRetries cfg \<and>
     0 < q_MaxLen cfg \<and> q_DLQStreamName cfg \<noteq> '''' \<and> 0 < q_DLQMaxLen cfg \<and>
     q_DLQStreamName cfg \<noteq> q_BaseStreamName cfg \<and> 0 < q_PartitionCount cfg \<and>
     0 \<le> q_PartitionID cfg \<and> q_PartitionID cfg < q_PartitionCount cfg"
  by (auto simp: validateQueue_def)

lemma validateWorker_None_iff [cfg_defs]:
  "validateWorker cfg = None \<longleftrightarrow>
     0 < w_Concurrency cfg \<and> w_Concurrency cfg \<le> 1000 \<and> 0 < w_PollInterval cfg \<and>
     0 < w_BatchSize cfg \<and> 0 < w_ProcessingTimeout cfg \<and> 0 \<le> w_JobMaxRetries cfg \<and>
     0 < w_BackoffMinDelay cfg \<and> 0 < w_BackoffMaxDelay cfg \<and>
     w_BackoffMinDelay cfg \<le> w_BackoffMaxDelay cfg \<and> w_HealthPort cfg \<noteq> '''' \<and>
     0 < w_ReclaimInterval cfg \<and> 0 < w_ReclaimIdleTime cfg \<and>
     w_ReclaimInterval cfg \<le> w_ReclaimIdleTime cfg \<and> 0 < w_ReclaimBatchSize cfg \<and>
     0 < w_DedupTTL cfg"
  by (auto simp: validateWorker_def)

lemma validateRegistry_None_iff [cfg_defs]:
  "validateRegistry cfg = None \<longleftrightarrow>
     0 < r_HeartbeatInterval cfg \<and> r_HeartbeatInterval cfg < r_DeadThreshold cfg \<and>
     0 < r_PollInterval cfg \<and> 0 < r_ControlPlanePoll cfg \<and>
     r_ControlPlanePoll cfg < r_LockTTL cfg"
  by (auto simp: validateRegistry_def)

lemma validateThrottler_None_iff [cfg_defs]:
  "validateThrottler cfg = None \<longleftrightarrow> \<not> t_Enabled cfg \<or>
     (0 < t_SoftDepthLimit cfg \<and> t_SoftDepthLimit cfg < t_HardDepthLimit cfg \<and>
      0 < t_MaxMessageAge cfg \<and> t_MaxMessageAge cfg < t_CriticalMessageAge cfg \<and>
      \<not> fleq (t_RateLimitScore cfg) (Fin 0) \<and>
      \<not> fleq (t_CircuitOpenScore cfg) (t_RateLimitScore cfg) \<and>
      0 < t_MetricsUpdateInterval cfg \<and> \<not> fleq (t_EstimatedDrainRate cfg) (Fin 0) \<and>
      0 < t_MinRetryAfter cfg \<and> t_MinRetryAfter cfg < t_MaxRetryAfter cfg)"
  by (auto simp: validateThrottler_def)

lemma Validate_None_iff [cfg_defs]:
  "Validate cfg = None \<longleftrightarrow>
     validateServer (c_Server cfg) = None \<and> validateRedis (c_Redis cfg) = None \<and>
     validateQueue (c_Queue cfg) = None \<and> validatePostgres (c_Postgres cfg) = None \<and>
     validateIngestion (c_Ingestion cfg) = None \<and> validateWorker (c_Worker cfg) = None \<and>
     validateObservability (c_Observability cfg) = None \<and>
     validateThrottler (i_Throttler (c_Ingestion cfg)) = None \<and>
     validateRegistry (c_Registry cfg) = None"
  by (auto simp: Validate_def Let_def)

lemma port_errors_Nil:
  "port_errors m b p = [] \<longleftrightarrow> (\<exists>n. Atoi p = Some n \<and> 1 \<le> n \<and> n \<le> 65535)"
  by (auto simp: port_errors_def bad_port_def err_if_def ParseInt_def split: option.splits)

section \<open>Properties\<close>

lemma validateServer_None_port:
  "validateServer cfg = None \<Longrightarrow> \<exists>n. Atoi (s_Port cfg) = Some n \<and> 1 \<le> n \<and> n \<le> 65535"
  by (auto simp: validateServer_def port_errors_Nil)

lemma validateRedis_None_port:
  "validateRedis cfg = None \<Longrightarrow> \<exists>n. Atoi (rc_Port cfg) = Some n \<and> 1 \<le> n \<and> n \<le> 65535"
  by (auto simp: validateRedis_def port_errors_Nil)

lemma validateObservability_None_timeout:
  "validateObservability cfg = None \<Longrightarrow> 0 < o_HealthCheckTimeout cfg"
  by (auto simp: validateObservability_def)

lemma default_texts:
  "bad_port ''8080'' = False" "bad_port ''6379'' = False" "bad_port ''5432'' = False"
  "bad_port ''9090'' = False" "ToLower ''info'' = ''info''" "ToLower ''json'' = ''json''"
  by code_simp+

lemma Validate_GetDefaults: "Validate GetDefaults = None"
  by (simp add: cfg_defs GetDefaults_def DefaultQueue_def DefaultWorker_def DefaultRegistry_def
      DefaultThrottler_def validateServer_def validateRedis_def validatePostgres_def
      validateIngestion_def validateObservability_def port_errors_def default_texts contains_iff
      validSSLModes_def validLogLevels_def validLogFormats_def DefaultWorkerBatchSize_def
      del: ToLower.simps)

text \<open>
  A configuration that passes \<open>Validate\<close> meets the preconditions of the running services:
  the ports are numbers of a TCP port, every interval handed to \<open>time.NewTicker\<close> (which panics on
  a value that is not positive) is positive, the partition of the process exists, a heartbeat
  happens before an instance is declared dead, the leader renews its lock before it expires,
  messages are not reclaimed more often than they can become idle, and the throttler's thresholds
  and retry bounds are ordered.
\<close>

theorem Validate_sound:
  assumes "Validate cfg = None"
  shows "(\<exists>n. Atoi (s_Port (c_Server cfg)) = Some n \<and> 1 \<le> n \<and> n \<le> 65535)
      \<and> (\<exists>n. Atoi (rc_Port (c_Redis cfg)) = Some n \<and> 1 \<le> n \<and> n \<le> 65535)
      \<and> (0 \<le> q_PartitionID (c_Queue cfg) \<and> q_PartitionID (c_Queue cfg) < q_PartitionCount (c_Queue cfg))
      \<and> (0 < w_Concurrency (c_Worker cfg) \<and> w_Concurrency (c_Worker cfg) \<le> 1000)
      \<and> (0 < w_PollInterval (c_Worker cfg) \<and> 0 < w_ReclaimInterval (c_Worker cfg)
           \<and> w_ReclaimInterval (c_Worker cfg) \<le> w_ReclaimIdleTime (c_Worker cfg))
      \<and> (0 < w_BackoffMinDelay (c_Worker cfg)
           \<and> w_BackoffMinDelay (c_Worker cfg) \<le> w_BackoffMaxDelay (c_Worker cfg))
      \<and> (0 < r_HeartbeatInterval (c_Registry cfg)
           \<and> r_HeartbeatInterval (c_Registry cfg) < r_DeadThreshold (c_Registry cfg))
      \<and> (0 < r_ControlPlanePoll (c_Registry cfg)
           \<and> r_ControlPlanePoll (c_Registry cfg) < r_LockTTL (c_Registry cfg))
      \<and> (0 < o_HealthCheckTimeout (c_Observability cfg))
      \<and> (t_Enabled (i_Throttler (c_Ingestion cfg)) \<longrightarrow>
           0 < t_MetricsUpdateInterval (i_Throttler (c_Ingestion cfg)) \<and>
           0 < t_MinRetryAfter (i_Throttler (c_Ingestion cfg)) \<and>
           t_MinRetryAfter (i_Throttler (c_Ingestion cfg)) < t_MaxRetryAfter (i_Throttler (c_Ingestion cfg)) \<and>
           \<not> fleq (t_CircuitOpenScore (i_Throttler (c_Ingestion cfg)))
           (t_RateLimitScore (i_Throttler (c_Ingestion cfg))))"
  using assms
  by (auto simp: cfg_defs intro: validateServer_None_port validateRedis_None_port
      validateObservability_None_timeout)

theorem Validate_sound_witness:
  "(\<exists>n. Atoi (s_Port (c_Server GetDefaults)) = Some n \<and> 1 \<le> n \<and> n \<le> 65535) \<and>
   0 < r_ControlPlanePoll (c_Registry GetDefaults) \<and>
   r_ControlPlanePoll (c_Registry GetDefaults) < r_LockTTL (c_Registry GetDefaults)"
  using Validate_sound [OF Validate_GetDefaults] by blast

end
