(* ===== verification/Partitioning.thy ===== *)
theory Partitioning
  imports Configuration
begin

text \<open>
  How log events are routed to partition streams: the FNV-1a hash of \<open>hash/fnv\<close>, \<open>partitionFor\<close>
  and \<open>streamNameFor\<close> of \<open>internal/queue/producer.go\<close>, and the naming scheme of
  \<open>internal/bootstrap/partitions.go\<close> that the worker side uses. The lemmas show that a
  routing key always lands in a partition that exists, that producer and workers agree on stream
  names, and that different partitions never share a stream or a consumer group.
\<close>

unbundle bit_operations_syntax

section \<open>FNV-1a and the partition of a key\<close>

definition fnv_offset32 :: "32 word" where "fnv_offset32 = 2166136261"
definition fnv_prime32 :: "32 word" where "fnv_prime32 = 16777619"

fun fnv1a_write :: "32 word \<Rightarrow> string \<Rightarrow> 32 word" where
  "fnv1a_write h [] = h"
| "fnv1a_write h (c # cs) = fnv1a_write ((h XOR of_nat (of_char c)) * fnv_prime32) cs"

definition fnv32a :: "string \<Rightarrow> 32 word" where
  "fnv32a s = fnv1a_write fnv_offset32 s"

text \<open>
  \<open>int(h.Sum32()) % p.config.PartitionCount\<close>: the remainder of Go, which takes the sign of the
  dividend; a zero divisor is a run-time panic.
\<close>

definition rem_go :: "int \<Rightarrow> int \<Rightarrow> int" where
  "rem_go a b = a - b * quot_go a b"

definition partitionFor :: "QueueConfig \<Rightarrow> string \<Rightarrow> int64 go" where
  "partitionFor cfg routingKey =
     (if q_PartitionCount cfg = 0 then Panic
      else Ok (rem_go (uint (fnv32a routingKey)) (q_PartitionCount cfg)))"

definition streamNameFor :: "QueueConfig \<Rightarrow> string \<Rightarrow> string go" where
  "streamNameFor cfg routingKey =
     bind_go (partitionFor cfg routingKey)
       (\<lambda>partitionID. Ok (q_BaseStreamName cfg @ '':partition:'' @ itoa partitionID))"

section \<open>Names used by the worker side\<close>

definition PartitionStreamName :: "string \<Rightarrow> int64 \<Rightarrow> string" where
  "PartitionStreamName baseStream partitionID = baseStream @ '':partition:'' @ itoa partitionID"

definition PartitionGroupName :: "string \<Rightarrow> int64 \<Rightarrow> string" where
  "PartitionGroupName baseGroup partitionID = baseGroup @ ''-'' @ itoa partitionID"

section \<open>Facts\<close>

lemma rem_go_nonneg [simp]: "\<lbrakk>0 \<le> a; 0 < b\<rbrakk> \<Longrightarrow> rem_go a b = a mod b"
  by (simp add: rem_go_def minus_mult_div_eq_mod)

lemma fnv1a_write_append: "fnv1a_write h (xs @ ys) = fnv1a_write (fnv1a_write h xs) ys"
  by (induction xs arbitrary: h) simp_all

lemma partitionFor_Ok:
  "0 < q_PartitionCount cfg \<Longrightarrow>
   partitionFor cfg k = Ok (uint (fnv32a k) mod q_PartitionCount cfg)"
  by (simp add: partitionFor_def)

lemma streamNameFor_Ok:
  "0 < q_PartitionCount cfg \<Longrightarrow>
   streamNameFor cfg k =
     Ok (PartitionStreamName (q_BaseStreamName cfg) (uint (fnv32a k) mod q_PartitionCount cfg))"
  by (simp add: streamNameFor_def partitionFor_Ok PartitionStreamName_def)

lemma PartitionStreamName_inj [simp]:
  "PartitionStreamName b i = PartitionStreamName b j \<longleftrightarrow> i = j"
  by (simp add: PartitionStreamName_def)

lemma PartitionGroupName_inj [simp]:
  "PartitionGroupName b i = PartitionGroupName b j \<longleftrightarrow> i = j"
  by (simp add: PartitionGroupName_def)

text \<open>
  Names built from different base names cannot collide either: the partition number has no colon.
\<close>

lemma PartitionStreamName_inj2:
  assumes "PartitionStreamName b i = PartitionStreamName b' j"
  shows "b = b' \<and> i = j"
proof -
  from assms have "(b @ '':partition'') @ CHR '':'' # itoa i = (b' @ '':partition'') @ CHR '':'' # itoa j"
    by (simp add: PartitionStreamName_def)
  then have "b @ '':partition'' = b' @ '':partition'' \<and> itoa i = itoa j"
    by (rule split_at_last) simp_all
  then show ?thesis by simp
qed

section \<open>Properties\<close>

text \<open>
  C14: With a queue configuration that passes validation every routing key is assigned, without a
  panic, to exactly one partition between 0 and \<open>PartitionCount - 1\<close>, and the stream the producer
  writes to is the stream that the worker of this partition reads, and of no other partition,
  whatever base name the other one uses.
\<close>

theorem routing_agrees_with_workers:
  assumes "validateQueue cfg = None"
  shows "\<exists>p. partitionFor cfg k = Ok p \<and> 0 \<le> p \<and> p < q_PartitionCount cfg \<and>
             streamNameFor cfg k = Ok (PartitionStreamName (q_BaseStreamName cfg) p) \<and>
             (\<forall>b i. streamNameFor cfg k = Ok (PartitionStreamName b i) \<longrightarrow>
                     b = q_BaseStreamName cfg \<and> i = p)"
proof -
  from assms have pos: "0 < q_PartitionCount cfg" by (simp add: cfg_defs)
  then show ?thesis
    by (auto simp: partitionFor_Ok streamNameFor_Ok dest: PartitionStreamName_inj2)
qed

theorem routing_agrees_with_workers_witness:
  "\<exists>p. partitionFor DefaultQueue ''api'' = Ok p \<and> 0 \<le> p \<and> p < 2 \<and>
       streamNameFor DefaultQueue ''api'' = Ok (PartitionStreamName ''logs:ingest'' p)"
proof -
  have "validateQueue DefaultQueue = None" by (simp add: cfg_defs DefaultQueue_def)
  from routing_agrees_with_workers [OF this, of "''api''"] show ?thesis
    by (auto simp: DefaultQueue_def)
qed

end
