(* ===== verification/Queue_Message.thy ===== *)
theory Queue_Message
  imports Models_Typing Redis_Memory Partitioning
begin

text \<open>
  \<open>internal/queue/message.go\<close>: the envelope of a new job and the arguments of the \<open>XADD\<close> that
  carries it. Operations of the queue package take the Redis client \<open>R\<close>, the state \<open>s\<close> of the
  server, and what the code reads from its environment (\<open>uuid.New\<close>, \<open>time.Now\<close>) as arguments, and
  return the outcome with the next state. A pointer argument is an \<open>option\<close>; dereferencing
  \<open>None\<close> is \<open>Panic\<close>. Log output is not modelled.
\<close>

type_synonym ('s, 'a) act = "'s \<Rightarrow> 'a go \<times> 's"

text \<open>The context as the commands of a longer operation find it: \<open>cx i\<close> at its \<open>i\<close>-th use.\<close>

type_synonym ctxs = "nat \<Rightarrow> ctx"

definition buildJobEnvelope :: "string \<Rightarrow> int64 \<Rightarrow> LogEvent option \<Rightarrow> int64 \<Rightarrow> JobEnvelope" where
  "buildJobEnvelope uuid now logEvent maxRetries =
     \<lparr>JobID = uuid, Data = logEvent, EnqueuedAt = now, RetryCount = 0, MaxRetries = maxRetries,
      EventType = ''log_event'', LastError = ''''\<rparr>"

type_synonym xadd_args = "string \<times> int64 \<times> fields"

definition buildXAddArgs :: "string \<Rightarrow> int64 \<Rightarrow> JobEnvelope \<Rightarrow> (xadd_args \<times> int64) go" where
  "buildXAddArgs streamName maxLen envelope =
     (case marshal_JobEnvelope envelope of
        Ok envelopeJSON \<Rightarrow>
          Ok ((streamName, maxLen, [(''job'', envelopeJSON)]), int (length envelopeJSON))
      | Err e \<Rightarrow> Err (Wrap ''failed to marshal job envelope: '' e)
      | Panic \<Rightarrow> Panic)"

definition parseMessage_event :: "string \<Rightarrow> LogEvent go" where
  "parseMessage_event data = unmarshal_LogEvent data"

lemma Marshal_not_Panic [simp]: "Marshal j \<noteq> Panic"
  by (simp add: Marshal_def split: option.splits)

lemma Unmarshal_not_Panic [simp]: "Unmarshal fs z s \<noteq> Panic"
  by (simp add: Unmarshal_def split: option.splits)

lemma buildXAddArgs_not_Panic [simp]: "buildXAddArgs k m env \<noteq> Panic"
  by (auto simp: buildXAddArgs_def split: go.splits)

text \<open>The text of a well-formed envelope, as it is stored in the field \<open>job\<close>.\<close>

definition carries :: "fields \<Rightarrow> JobEnvelope \<Rightarrow> bool" where
  "carries v env \<longleftrightarrow> (\<exists>t. v = [(''job'', t)] \<and> unmarshal_JobEnvelope t = Ok env)"

lemma buildXAddArgs_wf:
  assumes "wf_envelope maxNestingDepth env"
  obtains v n where "buildXAddArgs k m env = Ok ((k, m, v), n)" "carries v env"
proof -
  obtain t where "marshal_JobEnvelope env = Ok t" "unmarshal_JobEnvelope t = Ok env"
    using envelope_text [OF assms] .
  then show ?thesis using that by (simp add: buildXAddArgs_def carries_def)
qed

lemma wf_buildJobEnvelope:
  assumes "wf_event (maxNestingDepth - 1) e" "valid_utf8 uuid" "in64 now" "in64 mr"
  shows "wf_envelope maxNestingDepth (buildJobEnvelope uuid now (Some e) mr)"
proof -
  have "valid_utf8 ''log_event''" by code_simp
  then show ?thesis
    using assms by (simp add: wf_envelope_def buildJobEnvelope_def in64_def maxNestingDepth_def)
qed

end
