(* ===== verification/Queue_Producer.thy ===== *)
theory Queue_Producer
  imports Queue_Message
begin

text \<open>
  \<open>internal/queue/producer.go\<close>: routing a log event to its partition stream and appending it
  there, alone or in a pipeline, and the total length of all partitions.
\<close>

record Producer =
  pr_config :: QueueConfig

definition NewProducer :: "QueueConfig \<Rightarrow> Producer" where
  "NewProducer cfg = \<lparr>pr_config = cfg\<rparr>"

text \<open>The loop of \<open>StreamLength\<close>: \<open>n\<close> partitions are left, \<open>i\<close> is the next.\<close>

fun StreamLength_loop :: "'s redis_client \<Rightarrow> Producer \<Rightarrow> ctxs \<Rightarrow> nat \<Rightarrow> int64 \<Rightarrow> int64 \<Rightarrow> ('s, int64) act" where
  "StreamLength_loop R p cx 0 i tot s = (Ok tot, s)"
| "StreamLength_loop R p cx (Suc n) i tot s =
     (let streamName = q_BaseStreamName (pr_config p) @ '':partition:'' @ itoa i in
      case XLen R (cx (nat i)) streamName s of
        (Inl e, s') \<Rightarrow>
          (Err (Wrap (''failed to get stream length for partition '' @ itoa i @ '': '') e), s')
      | (Inr len, s') \<Rightarrow> StreamLength_loop R p cx n (i + 1) (wrap64 (tot + len)) s')"

definition StreamLength :: "'s redis_client \<Rightarrow> Producer \<Rightarrow> ctxs \<Rightarrow> ('s, int64) act" where
  "StreamLength R p cx s = StreamLength_loop R p cx (nat (q_PartitionCount (pr_config p))) 0 0 s"

definition Enqueue :: "'s redis_client \<Rightarrow> Producer \<Rightarrow> string \<Rightarrow> int64 \<Rightarrow> ctx \<Rightarrow> LogEvent option \<Rightarrow> ('s, string) act" where
  "Enqueue R p uuid now c logEvent s =
     (case logEvent of
        None \<Rightarrow> (Panic, s)
      | Some ev \<Rightarrow>
        (case streamNameFor (pr_config p) (Service ev) of
           Ok streamName \<Rightarrow>
             (case buildXAddArgs streamName (q_MaxLen (pr_config p))
                     (buildJobEnvelope uuid now logEvent (q_RedisMaxRetries (pr_config p))) of
                Ok ((k, m, v), payloadSize) \<Rightarrow>
                  (case XAdd R c k m v s of
                     (Inl e, s') \<Rightarrow> (Err (Wrap ''failed to add to stream: '' e), s')
                   | (Inr messageID, s') \<Rightarrow> (Ok messageID, s'))
              | Err e \<Rightarrow> (Err e, s)
              | Panic \<Rightarrow> (Panic, s))
         | Err e \<Rightarrow> (Err e, s)
         | Panic \<Rightarrow> (Panic, s)))"

text \<open>
  The commands of the pipeline: one for each event, built before anything is sent. The \<open>j\<close>-th
  event gets the \<open>j\<close>-th identifier and reading of the clock.
\<close>

fun batch_args :: "Producer \<Rightarrow> (nat \<Rightarrow> string) \<Rightarrow> (nat \<Rightarrow> int64) \<Rightarrow> nat \<Rightarrow> LogEvent option list \<Rightarrow> xadd_args list go" where
  "batch_args p uuids nows j [] = Ok []"
| "batch_args p uuids nows j (logEvent # evs) =
     (case logEvent of
        None \<Rightarrow> Panic
      | Some ev \<Rightarrow>
        bind_go (streamNameFor (pr_config p) (Service ev)) (\<lambda>streamName.
        bind_go (buildXAddArgs streamName (q_MaxLen (pr_config p))
                   (buildJobEnvelope (uuids j) (nows j) logEvent (q_RedisMaxRetries (pr_config p))))
          (\<lambda>(args, _). bind_go (batch_args p uuids nows (Suc j) evs) (\<lambda>rest. Ok (args # rest)))))"

definition EnqueueBatch ::
  "'s redis_client \<Rightarrow> Producer \<Rightarrow> (nat \<Rightarrow> string) \<Rightarrow> (nat \<Rightarrow> int64) \<Rightarrow> ctx \<Rightarrow> LogEvent option list \<Rightarrow> ('s, string list) act" where
  "EnqueueBatch R p uuids nows c logEvents s =
     (if logEvents = [] then (Ok [], s)
      else case batch_args p uuids nows 0 logEvents of
             Err e \<Rightarrow> (Err e, s)
           | Panic \<Rightarrow> (Panic, s)
           | Ok args \<Rightarrow>
               (case PipeXAdd R c args s of
                  (Inl e, s') \<Rightarrow> (Err (Wrap ''failed to execute batch: '' e), s')
                | (Inr messageIDs, s') \<Rightarrow> (Ok messageIDs, s')))"

definition Producer_Ping :: "'s redis_client \<Rightarrow> Producer \<Rightarrow> ctx \<Rightarrow> ('s, unit) act" where
  "Producer_Ping R p c s = (case Ping R c s of (Inl e, s') \<Rightarrow> (Err e, s') | (Inr u, s') \<Rightarrow> (Ok (), s'))"

section \<open>What the producer promises\<close>

definition stream_of :: "Producer \<Rightarrow> LogEvent \<Rightarrow> string" where
  "stream_of p e = PartitionStreamName (q_BaseStreamName (pr_config p))
     (uint (fnv32a (Service e)) mod q_PartitionCount (pr_config p))"

definition new_job :: "Producer \<Rightarrow> string \<Rightarrow> int64 \<Rightarrow> LogEvent \<Rightarrow> JobEnvelope" where
  "new_job p uuid now e = buildJobEnvelope uuid now (Some e) (q_RedisMaxRetries (pr_config p))"

definition producible :: "Producer \<Rightarrow> string \<Rightarrow> int64 \<Rightarrow> LogEvent \<Rightarrow> bool" where
  "producible p uuid now e \<longleftrightarrow> wf_event (maxNestingDepth - 1) e \<and> valid_utf8 uuid \<and> in64 now \<and>
     in64 (q_RedisMaxRetries (pr_config p))"

lemma producible_args:
  assumes "producible p uuid now e" and "0 < q_PartitionCount (pr_config p)"
  obtains v n where "streamNameFor (pr_config p) (Service e) = Ok (stream_of p e)"
    and "buildXAddArgs (stream_of p e) m (new_job p uuid now e) = Ok ((stream_of p e, m, v), n)"
    and "carries v (new_job p uuid now e)"
proof -
  have "wf_envelope maxNestingDepth (new_job p uuid now e)"
    using assms by (simp add: producible_def new_job_def wf_buildJobEnvelope)
  then obtain v n where "buildXAddArgs (stream_of p e) m (new_job p uuid now e) = Ok ((stream_of p e, m, v), n)"
    "carries v (new_job p uuid now e)" using buildXAddArgs_wf by blast
  then show ?thesis using that assms(2) by (simp add: streamNameFor_Ok stream_of_def)
qed

context redis_streams
begin

lemma Enqueue_stores:
  assumes "invar s" "0 < q_PartitionCount (pr_config p)" "marshal_JobEnvelope (new_job p uuid now e) = Ok t"
    and run: "Enqueue R p uuid now c (Some e) s = (r, s')"
  shows "invar s' \<and>
    (case r of
       Ok i \<Rightarrow> added (stream_of p e) (q_MaxLen (pr_config p)) [(''job'', t)] i (db s) (db s')
     | Err err \<Rightarrow> (\<exists>x. err = Wrap ''failed to add to stream: '' x \<and> XAdd R c (stream_of p e) (q_MaxLen (pr_config p)) [(''job'', t)] s = (Inl x, s')) \<and>
         (db s' = db s \<or> (\<exists>i. added (stream_of p e) (q_MaxLen (pr_config p)) [(''job'', t)] i (db s) (db s')))
     | Panic \<Rightarrow> False)"
proof -
  let ?m = "q_MaxLen (pr_config p)" and ?v = "[(''job'', t)]"
  have k: "streamNameFor (pr_config p) (Service e) = Ok (stream_of p e)" using assms(2) by (simp add: streamNameFor_Ok stream_of_def)
  obtain x s1 where x: "XAdd R c (stream_of p e) ?m ?v s = (x, s1)" by fastforce
  have r: "s' = s1" "r = (case x of Inl err \<Rightarrow> Err (Wrap ''failed to add to stream: '' err) | Inr i \<Rightarrow> Ok i)"
    using run assms(3) x by (auto simp: Enqueue_def k new_job_def buildXAddArgs_def split: sum.splits)
  show ?thesis
    using xadd_ok [OF assms(1)] xadd_err [OF assms(1)] x by (cases x) (auto simp: r)
qed

lemma Enqueue_outcome:
  assumes "invar s" "0 < q_PartitionCount (pr_config p)" "producible p uuid now e"
    and run: "Enqueue R p uuid now c (Some e) s = (r, s')"
  shows "invar s' \<and> (\<exists>v. carries v (new_job p uuid now e) \<and>
    (case r of
       Ok i \<Rightarrow> added (stream_of p e) (q_MaxLen (pr_config p)) v i (db s) (db s')
     | Err err \<Rightarrow> db s' = db s \<or> (\<exists>i. added (stream_of p e) (q_MaxLen (pr_config p)) v i (db s) (db s'))
     | Panic \<Rightarrow> False))"
proof -
  have "wf_envelope maxNestingDepth (new_job p uuid now e)"
    using assms(3) by (simp add: producible_def new_job_def wf_buildJobEnvelope)
  from envelope_text [OF this] obtain t where t: "marshal_JobEnvelope (new_job p uuid now e) = Ok t"
    "unmarshal_JobEnvelope t = Ok (new_job p uuid now e)" .
  from Enqueue_stores [OF assms(1,2) t(1) run] t(2) show ?thesis
    by (intro conjI exI [of _ "[(''job'', t)]"]) (auto simp: carries_def split: go.splits)
qed

lemma StreamLength_loop_sum:
  assumes "invar s" "StreamLength_loop R p cx n i t s = (r, s')" "in64 t" "0 \<le> i"
  shows "invar s' \<and> db s' = db s \<and> r \<noteq> Panic \<and>
    (\<forall>tot. r = Ok tot \<longrightarrow>
       tot = wrap64 (t + (\<Sum>j\<leftarrow>[0..<n]. int (length (ents (db s)
                 (PartitionStreamName (q_BaseStreamName (pr_config p)) (i + int j)))))))"
  using assms
proof (induction n arbitrary: i t s)
  case 0
  then show ?case by auto
next
  case (Suc n)
  let ?k = "q_BaseStreamName (pr_config p) @ '':partition:'' @ itoa i"
  let ?len = "\<lambda>j. int (length (ents (db s) (PartitionStreamName (q_BaseStreamName (pr_config p)) j)))"
  obtain x s1 where x: "XLen R (cx (nat i)) ?k s = (x, s1)" by fastforce
  note len = xlen [OF Suc.prems(1) x]
  show ?case
  proof (cases x)
    case (Inl e)
    with Suc.prems(2) x len show ?thesis by auto
  next
    case (Inr l)
    then have l: "l = ?len i" using len by (simp add: PartitionStreamName_def)
    have run: "StreamLength_loop R p cx n (i + 1) (wrap64 (t + l)) s1 = (r, s')"
      using Suc.prems(2) x Inr by simp
    have "[0..<Suc n] = 0 # map Suc [0..<n]" by (simp add: upt_conv_Cons map_Suc_upt)
    then have sum: "(\<Sum>j\<leftarrow>[0..<Suc n]. ?len (i + int j)) = l + (\<Sum>j\<leftarrow>[0..<n]. ?len (i + 1 + int j))"
      by (simp add: l o_def add.assoc add.commute [of 1])
    have "invar s1" "db s1 = db s" using len by auto
    with Suc.IH [OF _ run] Suc.prems show ?thesis
      unfolding sum by (simp add: wrap64_add_left add.assoc)
  qed
qed

end

section \<open>Properties\<close>

text \<open>
  C11: \<open>Enqueue\<close> with a validated configuration and a well-formed event never panics. When it
  returns an identifier, the stream of the partition that the event's service hashes to ends with
  a new entry under that identifier that decodes to the job (retry count zero, the configured
  number of attempts); every other stream and every pending list is as before, and trimming
  has kept at least as many entries as the configured maximum or all of them. When it returns
  an error, either nothing was written or exactly this entry was.
\<close>

theorem Enqueue_appends:
  assumes "redis_streams R db invar rank" and "invar s" and "validateQueue (pr_config p) = None"
    and "producible p uuid now e"
  shows "case Enqueue R p uuid now c (Some e) s of
      (Ok i, s') \<Rightarrow>
        (\<exists>v n. carries v (new_job p uuid now e) \<and>
               ents (db s') (stream_of p e) = drop n (ents (db s) (stream_of p e)) @ [(i, v)]) \<and>
        min (q_MaxLen (pr_config p)) (int (length (ents (db s) (stream_of p e))) + 1)
          \<le> int (length (ents (db s') (stream_of p e))) \<and>
        (\<forall>k. k \<noteq> stream_of p e \<longrightarrow> ents (db s') k = ents (db s) k) \<and> pend (db s') = pend (db s)
    | (Err err, s') \<Rightarrow>
        db s' = db s \<or>
        (\<exists>v n i. carries v (new_job p uuid now e) \<and>
                 ents (db s') (stream_of p e) = drop n (ents (db s) (stream_of p e)) @ [(i, v)])
    | (Panic, s') \<Rightarrow> False"
proof -
  obtain r s' where run: "Enqueue R p uuid now c (Some e) s = (r, s')" by fastforce
  have "0 < q_PartitionCount (pr_config p)" using assms(3) by (simp add: cfg_defs)
  from redis_streams.Enqueue_outcome [OF assms(1,2) this assms(4) run]
  obtain v where v: "carries v (new_job p uuid now e)" and o: "case r of
       Ok i \<Rightarrow> added (stream_of p e) (q_MaxLen (pr_config p)) v i (db s) (db s')
     | Err err \<Rightarrow> db s' = db s \<or> (\<exists>i. added (stream_of p e) (q_MaxLen (pr_config p)) v i (db s) (db s'))
     | Panic \<Rightarrow> False" by blast
  show ?thesis
  proof (cases r)
    case (Ok i)
    with o have a: "added (stream_of p e) (q_MaxLen (pr_config p)) v i (db s) (db s')" by simp
    from added_last [OF a] added_length [OF a] added_pend [OF a] added_other [OF a] v show ?thesis
      by (auto simp: run Ok algebra_simps)
  next
    case (Err err)
    with o v show ?thesis by (auto simp: run dest!: added_last)
  qed (use o run in auto)
qed

definition demo_producer :: Producer where
  "demo_producer = NewProducer DefaultQueue"

lemma producible_demo: "producible demo_producer ''3f2a'' 1700000000 demo_event"
  by (simp add: producible_def demo_producer_def NewProducer_def DefaultQueue_def maxNestingDepth_def in64_def)

lemma validate_demo_producer: "validateQueue (pr_config demo_producer) = None"
  by (simp add: demo_producer_def NewProducer_def cfg_defs DefaultQueue_def)

theorem Enqueue_appends_witness:
  "case Enqueue memory demo_producer ''3f2a'' 1700000000 None (Some demo_event) (mem_init 0 []) of
      (Ok i, s') \<Rightarrow>
        (\<exists>v n. carries v (new_job demo_producer ''3f2a'' 1700000000 demo_event) \<and>
               ents (m_db s') (stream_of demo_producer demo_event) =
                 drop n (ents (m_db (mem_init 0 [])) (stream_of demo_producer demo_event)) @ [(i, v)])
    | (Err err, s') \<Rightarrow> m_db s' = m_db (mem_init 0 []) \<or> ents (m_db s') (stream_of demo_producer demo_event) \<noteq> []
    | (Panic, s') \<Rightarrow> False"
  using Enqueue_appends [where s = "mem_init 0 []" and c = None,
      OF mem_streams.redis_streams_axioms mem_inv_init validate_demo_producer producible_demo]
  by (auto split: prod.splits go.splits)

text \<open>
  \<open>StreamLength\<close> reads without changing anything, never panics, and when it succeeds its
  result is the sum of the lengths of all partition streams, as long as that fits an int64.
\<close>

theorem StreamLength_is_sum:
  assumes "redis_streams R db invar rank" and "invar s" and "StreamLength R p cx s = (r, s')"
    and "in64 (\<Sum>j\<leftarrow>[0..<nat (q_PartitionCount (pr_config p))].
                 int (length (ents (db s) (PartitionStreamName (q_BaseStreamName (pr_config p)) (int j)))))"
  shows "db s' = db s \<and> r \<noteq> Panic \<and>
         (\<forall>n. r = Ok n \<longrightarrow>
            n = (\<Sum>j\<leftarrow>[0..<nat (q_PartitionCount (pr_config p))].
                   int (length (ents (db s) (PartitionStreamName (q_BaseStreamName (pr_config p)) (int j))))))"
  using redis_streams.StreamLength_loop_sum [OF assms(1,2) assms(3) [unfolded StreamLength_def]] assms(4)
  by (simp add: in64_def)

theorem StreamLength_is_sum_witness:
  "\<exists>s'. StreamLength memory demo_producer (\<lambda>_. None) (mem_init 0 []) = (Ok 0, s') \<and>
        m_db s' = m_db (mem_init 0 [])"
proof -
  let ?s = "mem_init 0 []"
  have run: "StreamLength memory demo_producer (\<lambda>_. None) ?s = (Ok 0, ?s)"
    by (simp add: StreamLength_def demo_producer_def NewProducer_def DefaultQueue_def numeral_2_eq_2
        memory_def mem_XLen_def mem_cmd_def mem_init_def empty_db_def wrap64_def)
  have "in64 (\<Sum>j\<leftarrow>[0..<nat (q_PartitionCount (pr_config demo_producer))].
          int (length (ents (m_db ?s) (PartitionStreamName (q_BaseStreamName (pr_config demo_producer)) (int j)))))"
    by (simp add: mem_init_def empty_db_def in64_def)
  from StreamLength_is_sum [OF mem_streams.redis_streams_axioms mem_inv_init run this] run
  show ?thesis by auto
qed

text \<open>The commands a batch sends: one for each event, in order, each on the stream of its event.\<close>

lemma batch_args_spec:
  assumes "batch_args p uuids nows j evs = Ok as"
    and "0 < q_PartitionCount (pr_config p)"
    and "\<forall>i<length evs. \<exists>e. evs ! i = Some e \<and> producible p (uuids (j + i)) (nows (j + i)) e"
  shows "length as = length evs \<and>
    (\<forall>i<length evs. \<exists>e v. evs ! i = Some e \<and> as ! i = (stream_of p e, q_MaxLen (pr_config p), v) \<and>
                           carries v (new_job p (uuids (j + i)) (nows (j + i)) e))"
  using assms
proof (induction evs arbitrary: j as)
  case Nil
  then show ?case by simp
next
  case (Cons ev evs)
  from Cons.prems(3) obtain e where e: "ev = Some e" "producible p (uuids j) (nows j) e" by force
  obtain v n where k: "streamNameFor (pr_config p) (Service e) = Ok (stream_of p e)"
    and b: "buildXAddArgs (stream_of p e) (q_MaxLen (pr_config p)) (new_job p (uuids j) (nows j) e)
            = Ok ((stream_of p e, q_MaxLen (pr_config p), v), n)"
    and v: "carries v (new_job p (uuids j) (nows j) e)"
    using producible_args [OF e(2) Cons.prems(2)] .
  from Cons.prems(1) b obtain rest where rest: "batch_args p uuids nows (Suc j) evs = Ok rest"
    and as: "as = (stream_of p e, q_MaxLen (pr_config p), v) # rest"
    by (auto simp: e k new_job_def bind_go_Ok_iff)
  have "\<forall>i<length evs. \<exists>e. evs ! i = Some e \<and> producible p (uuids (Suc j + i)) (nows (Suc j + i)) e"
    using Cons.prems(3) by (metis Suc_mono add_Suc add_Suc_right length_Cons nth_Cons_Suc)
  from Cons.IH [OF rest Cons.prems(2) this] v e show ?case
    by (auto simp: as nth_Cons less_Suc_eq_0_disj)
qed

lemma added_all_length: "added_all as is d d' \<Longrightarrow> length is = length as"
  by (induction as "is" d d' rule: added_all.induct) auto

text \<open>
  When \<open>EnqueueBatch\<close> succeeds it returns one identifier for each event, in the order of the
  events, and the server has carried out exactly one \<open>XADD\<close> for each of them, in this order, on the
  stream of the event's partition with a payload that decodes to the event's job.
\<close>

theorem EnqueueBatch_in_order:
  assumes "redis_streams R db invar rank" and "invar s" and "validateQueue (pr_config p) = None"
    and "\<forall>i<length evs. \<exists>e. evs ! i = Some e \<and> producible p (uuids i) (nows i) e"
    and "EnqueueBatch R p uuids nows c evs s = (Ok ids, s')"
  shows "length ids = length evs \<and>
    (\<exists>as. length as = length evs \<and> (evs \<noteq> [] \<longrightarrow> added_all as ids (db s) (db s')) \<and> (evs = [] \<longrightarrow> s' = s) \<and>
       (\<forall>i<length evs. \<exists>e v. evs ! i = Some e \<and> as ! i = (stream_of p e, q_MaxLen (pr_config p), v) \<and>
                              carries v (new_job p (uuids i) (nows i) e)))"
proof (cases "evs = []")
  case True
  with assms(5) show ?thesis by (auto simp: EnqueueBatch_def)
next
  case False
  with assms(5) obtain as where as: "batch_args p uuids nows 0 evs = Ok as"
    and run: "PipeXAdd R c as s = (Inr ids, s')"
    by (auto simp: EnqueueBatch_def split: go.splits prod.splits sum.splits)
  have "added_all as ids (db s) (db s')" using redis_streams.pipe_ok [OF assms(1,2) run] by simp
  moreover have "0 < q_PartitionCount (pr_config p)" using assms(3) by (simp add: cfg_defs)
  ultimately show ?thesis
    using batch_args_spec [where j = 0, unfolded add_0, OF as _ assms(4)] False added_all_length [of as ids]
    by (intro conjI exI [of _ as]) auto
qed

lemma demo_batch:
  obtains ids s' where
    "EnqueueBatch memory demo_producer (\<lambda>_. ''3f2a'') (\<lambda>_. 1700000000) None [Some demo_event] (mem_init 0 []) = (Ok ids, s')"
proof -
  have "0 < q_PartitionCount (pr_config demo_producer)"
    by (simp add: demo_producer_def NewProducer_def DefaultQueue_def)
  then obtain v n where k: "streamNameFor (pr_config demo_producer) (Service demo_event) = Ok (stream_of demo_producer demo_event)"
    and b: "buildXAddArgs (stream_of demo_producer demo_event) (q_MaxLen (pr_config demo_producer))
              (new_job demo_producer ''3f2a'' 1700000000 demo_event)
            = Ok ((stream_of demo_producer demo_event, q_MaxLen (pr_config demo_producer), v), n)"
    using producible_args [OF producible_demo] by blast
  let ?as = "[(stream_of demo_producer demo_event, q_MaxLen (pr_config demo_producer), v)]"
  have args: "batch_args demo_producer (\<lambda>_. ''3f2a'') (\<lambda>_. 1700000000) 0 [Some demo_event] = Ok ?as"
    using b by (simp add: k new_job_def)
  have "mem_PipeXAdd None ?as (mem_init 0 []) =
          (Inr (fst (mem_adds ?as (mem_init 0 []))), snd (mem_adds ?as (mem_init 0 [])))"
    by (simp add: mem_PipeXAdd_def mem_cmd_def mem_init_def split_beta del: mem_adds.simps)
  then show ?thesis
    by (intro that) (simp add: EnqueueBatch_def args memory_def del: batch_args.simps mem_adds.simps)
qed

theorem EnqueueBatch_in_order_witness:
  "\<exists>ids s' as. EnqueueBatch memory demo_producer (\<lambda>_. ''3f2a'') (\<lambda>_. 1700000000) None [Some demo_event]
                 (mem_init 0 []) = (Ok ids, s') \<and>
     length ids = 1 \<and> added_all as ids (m_db (mem_init 0 [])) (m_db s') \<and> length as = 1"
proof -
  obtain ids s' where run: "EnqueueBatch memory demo_producer (\<lambda>_. ''3f2a'') (\<lambda>_. 1700000000) None
      [Some demo_event] (mem_init 0 []) = (Ok ids, s')" by (rule demo_batch)
  have "\<forall>i<length [Some demo_event]. \<exists>e. [Some demo_event] ! i = Some e \<and>
          producible demo_producer ''3f2a'' 1700000000 e" using producible_demo by simp
  from EnqueueBatch_in_order [OF mem_streams.redis_streams_axioms mem_inv_init validate_demo_producer this run] run
  show ?thesis by auto
qed

end
