(* ===== verification/Queue_DLQ.thy ===== *)
theory Queue_DLQ
  imports Queue_Message
begin

text \<open>
  \<open>internal/queue/dlq.go\<close>: the dead letter queue, a stream of entries that carry the failed
  job, with retrieval, listing, deletion and return to the main stream.
\<close>

record DLQ =
  dq_streamName :: string
  dq_maxLen :: int64

definition NewDLQ :: "string \<Rightarrow> int64 \<Rightarrow> DLQ" where
  "NewDLQ streamName maxLen = \<lparr>dq_streamName = streamName, dq_maxLen = maxLen\<rparr>"

text \<open>
  Every path of \<open>Send\<close> after encoding reads \<open>entry.JobData.JobID\<close> for the log line, which is a
  nil dereference when the entry has no job.
\<close>

definition Send :: "'s redis_client \<Rightarrow> DLQ \<Rightarrow> ctx \<Rightarrow> DLQEntry \<Rightarrow> ('s, string) act" where
  "Send R d c entry s =
     (case marshal_DLQEntry entry of
        Err e \<Rightarrow> (if JobData entry = None then Panic else Err (Wrap ''failed to marshal DLQ entry: '' e), s)
      | Panic \<Rightarrow> (Panic, s)
      | Ok entryJSON \<Rightarrow>
        (case XAdd R c (dq_streamName d) (dq_maxLen d) [(''entry'', entryJSON)] s of
           (Inl e, s') \<Rightarrow> (if JobData entry = None then Panic else Err (Wrap ''failed to add to DLQ: '' e), s')
         | (Inr messageID, s') \<Rightarrow> (if JobData entry = None then Panic else Ok messageID, s')))"

definition not_found :: "string \<Rightarrow> goerror" where
  "not_found messageID = ErrorString (''DLQ entry not found: '' @ messageID)"

definition DLQ_Get :: "'s redis_client \<Rightarrow> DLQ \<Rightarrow> ctx \<Rightarrow> string \<Rightarrow> ('s, DLQEntry) act" where
  "DLQ_Get R d c messageID s =
     (case XRange R c (dq_streamName d) messageID messageID s of
        (Inl e, s') \<Rightarrow> (Err (Wrap ''failed to get DLQ entry: '' e), s')
      | (Inr messages, s') \<Rightarrow>
        (case messages of
           [] \<Rightarrow> (Err (not_found messageID), s')
         | msg # _ \<Rightarrow>
           (case map_of (msg_Values msg) ''entry'' of
              None \<Rightarrow> (Err (ErrorString ''invalid DLQ entry format''), s')
            | Some entryJSON \<Rightarrow>
              (case unmarshal_DLQEntry entryJSON of
                 Ok entry \<Rightarrow> (Ok entry, s')
               | Err e \<Rightarrow> (Err (Wrap ''failed to unmarshal DLQ entry: '' e), s')
               | Panic \<Rightarrow> (Panic, s')))))"

text \<open>Entries that cannot be decoded are skipped.\<close>

fun list_entries :: "xmessage list \<Rightarrow> DLQEntry list" where
  "list_entries [] = []"
| "list_entries (msg # ms) =
     (case map_of (msg_Values msg) ''entry'' of
        None \<Rightarrow> list_entries ms
      | Some entryJSON \<Rightarrow>
        (case unmarshal_DLQEntry entryJSON of
           Ok entry \<Rightarrow> entry # list_entries ms
         | _ \<Rightarrow> list_entries ms))"

definition DLQ_List :: "'s redis_client \<Rightarrow> DLQ \<Rightarrow> ctx \<Rightarrow> string \<Rightarrow> string \<Rightarrow> int64 \<Rightarrow> ('s, DLQEntry list) act" where
  "DLQ_List R d c start end_id count s =
     (case XRange R c (dq_streamName d) start end_id s of
        (Inl e, s') \<Rightarrow> (Err (Wrap ''failed to list DLQ entries: '' e), s')
      | (Inr messages, s') \<Rightarrow>
          (let messages = (if count > 0 \<and> int (length messages) > count
                           then take (nat count) messages else messages)
           in (Ok (list_entries messages), s')))"

definition DLQ_Count :: "'s redis_client \<Rightarrow> DLQ \<Rightarrow> ctx \<Rightarrow> ('s, int64) act" where
  "DLQ_Count R d c s =
     (case XLen R c (dq_streamName d) s of
        (Inl e, s') \<Rightarrow> (Err (Wrap ''failed to get DLQ count: '' e), s')
      | (Inr count, s') \<Rightarrow> (Ok count, s'))"

definition DLQ_Delete :: "'s redis_client \<Rightarrow> DLQ \<Rightarrow> ctx \<Rightarrow> string \<Rightarrow> ('s, unit) act" where
  "DLQ_Delete R d c messageID s =
     (case XDel R c (dq_streamName d) messageID s of
        (Inl e, s') \<Rightarrow> (Err (Wrap ''failed to delete DLQ entry: '' e), s')
      | (Inr deleted, s') \<Rightarrow>
          (if deleted = 0 then (Err (not_found messageID), s') else (Ok (), s')))"

definition Requeue :: "'s redis_client \<Rightarrow> DLQ \<Rightarrow> ctxs \<Rightarrow> string \<Rightarrow> string \<Rightarrow> int64 \<Rightarrow> ('s, unit) act" where
  "Requeue R d cx messageID mainStreamName maxLen s =
     (case DLQ_Get R d (cx 0) messageID s of
        (Err e, s1) \<Rightarrow> (Err (Wrap ''failed to get DLQ entry: '' e), s1)
      | (Panic, s1) \<Rightarrow> (Panic, s1)
      | (Ok entry, s1) \<Rightarrow>
        (case JobData entry of
           None \<Rightarrow> (Panic, s1)
         | Some job \<Rightarrow>
           (case buildXAddArgs mainStreamName maxLen (job\<lparr>RetryCount := 0, LastError := ''''\<rparr>) of
              Err e \<Rightarrow> (Err (Wrap ''failed to build requeue args: '' e), s1)
            | Panic \<Rightarrow> (Panic, s1)
            | Ok ((k, m, v), _) \<Rightarrow>
              (case XAdd R (cx 1) k m v s1 of
                 (Inl e, s2) \<Rightarrow> (Err (Wrap ''failed to requeue to main stream: '' e), s2)
               | (Inr newMessageID, s2) \<Rightarrow>
                   (case DLQ_Delete R d (cx 2) messageID s2 of (_, s3) \<Rightarrow> (Ok (), s3))))))"

section \<open>What the dead letter queue promises\<close>

definition holds_entry :: "fields \<Rightarrow> DLQEntry \<Rightarrow> bool" where
  "holds_entry v en \<longleftrightarrow> (\<exists>t. v = [(''entry'', t)] \<and> unmarshal_DLQEntry t = Ok en)"

context redis_streams
begin

lemma Send_outcome:
  assumes "invar s" "wf_entry maxNestingDepth en" "JobData en \<noteq> None" "Send R d c en s = (r, s')"
  shows "invar s' \<and> (\<exists>v. holds_entry v en \<and>
    (case r of
       Ok i \<Rightarrow> added (dq_streamName d) (dq_maxLen d) v i (db s) (db s') \<and> i \<noteq> ''-'' \<and> i \<noteq> ''+''
     | Err err \<Rightarrow> db s' = db s \<or> (\<exists>i. added (dq_streamName d) (dq_maxLen d) v i (db s) (db s'))
     | Panic \<Rightarrow> False))"
proof -
  obtain t where t: "marshal_DLQEntry en = Ok t" "unmarshal_DLQEntry t = Ok en"
    using entry_text [OF assms(2)] .
  let ?v = "[(''entry'', t)]"
  have v: "holds_entry ?v en" using t by (simp add: holds_entry_def)
  obtain x s1 where x: "XAdd R c (dq_streamName d) (dq_maxLen d) ?v s = (x, s1)" by fastforce
  show ?thesis
  proof (cases x)
    case (Inl e)
    with assms(3,4) x t have "s' = s1" "r = Err (Wrap ''failed to add to DLQ: '' e)"
      by (auto simp: Send_def)
    with xadd_err [OF assms(1) x [unfolded Inl]] v show ?thesis by auto
  next
    case (Inr i)
    with assms(3,4) x t have "s' = s1" "r = Ok i" by (auto simp: Send_def)
    with xadd_ok [OF assms(1) x [unfolded Inr]] xadd_id [OF assms(1) x [unfolded Inr]] v show ?thesis by auto
  qed
qed

lemma DLQ_Get_found:
  assumes "invar s" "i \<noteq> ''-''" "i \<noteq> ''+''"
    and "filter (\<lambda>e. fst e = i) (ents (db s) (dq_streamName d)) = [(i, v)]" "holds_entry v en"
    and "DLQ_Get R d c i s = (r, s')"
  shows "invar s' \<and> db s' = db s \<and> (r = Ok en \<or> (\<exists>e. r = Err e))"
proof -
  obtain x s1 where x: "XRange R c (dq_streamName d) i i s = (x, s1)" by fastforce
  note l = xrange_id [OF assms(1) x]
  show ?thesis using l assms(2-6) x
    by (cases x) (auto simp: DLQ_Get_def holds_entry_def xmsg_def)
qed

lemma DLQ_Delete_outcome:
  assumes "invar s" "DLQ_Delete R d c i s = (r, s')"
  shows "invar s' \<and> (db s' = db s \<or> db s' = db_del (dq_streamName d) i (db s)) \<and>
         (r = Ok () \<longrightarrow> db s' = db_del (dq_streamName d) i (db s)) \<and> r \<noteq> Panic"
proof -
  obtain x s1 where x: "XDel R c (dq_streamName d) i s = (x, s1)" by fastforce
  show ?thesis
  proof (cases x)
    case (Inl e)
    with xdel_err [OF assms(1), of c "dq_streamName d" i e s1] assms(2) x show ?thesis
      by (auto simp: DLQ_Delete_def)
  next
    case (Inr n)
    with xdel_ok [OF assms(1), of c "dq_streamName d" i n s1] assms(2) x show ?thesis
      by (auto simp: DLQ_Delete_def split: if_splits)
  qed
qed

end

lemma added_unique:
  assumes "added k m v i d d'"
  shows "filter (\<lambda>e. fst e = i) (ents d' k) = [(i, v)]"
proof -
  obtain n where e: "ents d' k = drop n (ents d k) @ [(i, v)]" using added_last [OF assms] by blast
  have "\<forall>x\<in>set (drop n (ents d k)). fst x \<noteq> i"
    using assms by (force simp: added_def dest: in_set_dropD)
  then show ?thesis by (simp add: e)
qed

text \<open>
  A failed job that \<open>Send\<close> has accepted can be read back: under the returned identifier
  \<open>Get\<close> finds exactly the entry that was sent, with the complete job, unless the command itself
  fails; it never panics and changes nothing.
\<close>

theorem DLQ_Send_Get:
  assumes "redis_streams R db invar rank" and "invar s" and "wf_entry maxNestingDepth en"
    and "JobData en \<noteq> None" and "Send R d c en s = (Ok i, s')"
  shows "case DLQ_Get R d c' i s' of
           (Ok en', s'') \<Rightarrow> en' = en \<and> db s'' = db s'
         | (Err e, s'') \<Rightarrow> (\<exists>x. XRange R c' (dq_streamName d) i i s' = (Inl x, s'')) \<and> db s'' = db s'
         | (Panic, s'') \<Rightarrow> False"
proof -
  from redis_streams.Send_outcome [OF assms]
  obtain v where v: "holds_entry v en" and i: "invar s'" "i \<noteq> ''-''" "i \<noteq> ''+''"
    and a: "added (dq_streamName d) (dq_maxLen d) v i (db s) (db s')" by auto
  obtain r s'' where run: "DLQ_Get R d c' i s' = (r, s'')" by fastforce
  have "invar s'' \<and> db s'' = db s' \<and> (r = Ok en \<or> (\<exists>e. r = Err e))"
    by (rule redis_streams.DLQ_Get_found [OF assms(1) i added_unique [OF a] v run])
  moreover have "\<exists>x. XRange R c' (dq_streamName d) i i s' = (Inl x, s'')" if "r = Err e" for e
  proof -
    obtain x s1 where x: "XRange R c' (dq_streamName d) i i s' = (x, s1)" by fastforce
    from redis_streams.xrange_id [OF assms(1) i(1) x] i(2,3) added_unique [OF a] v that run x
    show ?thesis by (cases x) (auto simp: DLQ_Get_def holds_entry_def xmsg_def)
  qed
  ultimately show ?thesis using run by auto
qed

text \<open>
  C17: \<open>Requeue\<close> never loses the job of a dead letter entry. It does not panic; when it succeeds, the
  main stream ends with a new entry that carries the job with its retry count and error
  reset, and the dead letter entry is gone unless its deletion failed; when it reports an
  error, the dead letter entry is still there.
\<close>

theorem Requeue_no_loss:
  assumes R: "redis_streams R db invar rank" and s: "invar s" "i \<noteq> ''-''" "i \<noteq> ''+''"
    and entry: "filter (\<lambda>e. fst e = i) (ents (db s) (dq_streamName d)) = [(i, v)]" "holds_entry v en"
    and job: "JobData en = Some job" "wf_envelope maxNestingDepth (job\<lparr>RetryCount := 0, LastError := ''''\<rparr>)"
    and main: "mainStream \<noteq> dq_streamName d"
  shows "case Requeue R d cx i mainStream maxLen s of
      (Ok u, s') \<Rightarrow>
        (\<exists>n j w. ents (db s') mainStream = drop n (ents (db s) mainStream) @ [(j, w)] \<and>
                 carries w (job\<lparr>RetryCount := 0, LastError := ''''\<rparr>)) \<and>
        (ents (db s') (dq_streamName d) = filter (\<lambda>e. fst e \<noteq> i) (ents (db s) (dq_streamName d)) \<or>
         ents (db s') (dq_streamName d) = ents (db s) (dq_streamName d))
    | (Err e, s') \<Rightarrow> ents (db s') (dq_streamName d) = ents (db s) (dq_streamName d)
    | (Panic, s') \<Rightarrow> False"
proof -
  let ?q = "dq_streamName d"
  let ?job = "job\<lparr>RetryCount := 0, LastError := ''''\<rparr>"
  obtain r1 s1 where g: "DLQ_Get R d (cx 0) i s = (r1, s1)" by fastforce
  have s1: "invar s1" "db s1 = db s" "r1 = Ok en \<or> (\<exists>e. r1 = Err e)"
    using redis_streams.DLQ_Get_found [OF R s entry g] by auto
  obtain w n where w: "buildXAddArgs mainStream maxLen ?job = Ok ((mainStream, maxLen, w), n)" "carries w ?job"
    using buildXAddArgs_wf [OF job(2)] .
  obtain x s2 where x: "XAdd R (cx 1) mainStream maxLen w s1 = (x, s2)" by fastforce
  obtain y s3 where y: "DLQ_Delete R d (cx 2) i s2 = (y, s3)" by fastforce
  show ?thesis
  proof (cases "r1 = Ok en")
    case False
    then show ?thesis using s1 by (auto simp: Requeue_def g)
  next
    case True
    have run: "Requeue R d cx i mainStream maxLen s =
        (case x of Inl e \<Rightarrow> (Err (Wrap ''failed to requeue to main stream: '' e), s2) | Inr j \<Rightarrow> (Ok (), s3))"
      by (simp add: Requeue_def g True job w(1) x y del: One_nat_def split: sum.splits)
    show ?thesis
    proof (cases x)
      case (Inl e)
      with redis_streams.xadd_err [OF R s1(1) x [unfolded Inl]] s1(2) main
      have "ents (db s2) ?q = ents (db s) ?q" using added_other by fastforce
      then show ?thesis by (simp add: run Inl)
    next
      case (Inr j)
      from redis_streams.xadd_ok [OF R s1(1) x [unfolded Inr]]
      have i2: "invar s2" and a: "added mainStream maxLen w j (db s) (db s2)" by (auto simp: s1(2))
      have q: "ents (db s2) ?q = ents (db s) ?q" using added_other [OF a] main by auto
      have "db s3 = db s2 \<or> db s3 = db_del ?q i (db s2)"
        using redis_streams.DLQ_Delete_outcome [OF R i2 y] by auto
      then have "ents (db s3) mainStream = ents (db s2) mainStream"
        and "ents (db s3) ?q = filter (\<lambda>e. fst e \<noteq> i) (ents (db s) ?q) \<or> ents (db s3) ?q = ents (db s) ?q"
        using main q by (auto simp: db_del_def)
      with added_last [OF a] w show ?thesis by (auto simp: run Inr)
    qed
  qed
qed

text \<open>Witnesses on the in-memory server.\<close>

definition demo_dlq :: DLQ where
  "demo_dlq = NewDLQ ''logs:dlq'' 1000"

lemma demo_Send:
  obtains i s' where "Send memory demo_dlq None demo_entry (mem_init 0 []) = (Ok i, s')"
proof -
  obtain t where t: "marshal_DLQEntry demo_entry = Ok t"
    using entry_text [of demo_entry] by (auto simp: maxNestingDepth_def)
  then show ?thesis
    by (intro that) (simp add: Send_def mem_XAdd_live demo_entry_def)
qed

lemma demo_entry_ok: "wf_entry maxNestingDepth demo_entry" "JobData demo_entry = Some demo_envelope"
  by (simp add: maxNestingDepth_def, simp add: demo_entry_def)

theorem DLQ_Send_Get_witness:
  "\<exists>i s'. Send memory demo_dlq None demo_entry (mem_init 0 []) = (Ok i, s') \<and>
     (case DLQ_Get memory demo_dlq None i s' of
        (Ok en', s'') \<Rightarrow> en' = demo_entry | (Err e, s'') \<Rightarrow> True | (Panic, s'') \<Rightarrow> False)"
proof -
  obtain i s' where run: "Send memory demo_dlq None demo_entry (mem_init 0 []) = (Ok i, s')"
    by (rule demo_Send)
  have "JobData demo_entry \<noteq> None" by (simp add: demo_entry_ok)
  from DLQ_Send_Get [OF mem_streams.redis_streams_axioms mem_inv_init demo_entry_ok(1) this run, of None] run
  show ?thesis by (auto split: prod.splits go.splits)
qed

theorem Requeue_no_loss_witness:
  "\<exists>i s. Send memory demo_dlq None demo_entry (mem_init 0 []) = (Ok i, s) \<and>
     (case Requeue memory demo_dlq (\<lambda>_. None) i ''logs:ingest:partition:0'' 10000 s of
        (Ok u, s') \<Rightarrow> \<exists>n j w. ents (m_db s') ''logs:ingest:partition:0'' =
                                drop n (ents (m_db s) ''logs:ingest:partition:0'') @ [(j, w)] \<and>
                              carries w (demo_envelope\<lparr>RetryCount := 0, LastError := ''''\<rparr>)
      | (Err e, s') \<Rightarrow> ents (m_db s') ''logs:dlq'' = ents (m_db s) ''logs:dlq''
      | (Panic, s') \<Rightarrow> False)"
proof -
  obtain i s where run: "Send memory demo_dlq None demo_entry (mem_init 0 []) = (Ok i, s)"
    by (rule demo_Send)
  have "JobData demo_entry \<noteq> None" by (simp add: demo_entry_ok)
  from mem_streams.Send_outcome [OF mem_inv_init demo_entry_ok(1) this run]
  obtain v where v: "holds_entry v demo_entry" and i: "mem_inv s" "i \<noteq> ''-''" "i \<noteq> ''+''"
    and a: "added (dq_streamName demo_dlq) (dq_maxLen demo_dlq) v i (m_db (mem_init 0 [])) (m_db s)" by auto
  have wf: "wf_envelope maxNestingDepth (demo_envelope\<lparr>RetryCount := 0, LastError := ''''\<rparr>)"
    by (simp add: wf_envelope_def demo_envelope_def in64_def maxNestingDepth_def)
  have ne: "''logs:ingest:partition:0'' \<noteq> dq_streamName demo_dlq"
    by (simp add: demo_dlq_def NewDLQ_def)
  from Requeue_no_loss [OF mem_streams.redis_streams_axioms i added_unique [OF a] v demo_entry_ok(2) wf ne,
      of "\<lambda>_. None" 10000] run
  show ?thesis by (auto simp: demo_dlq_def NewDLQ_def split: prod.splits go.splits)
qed

end
