(* ===== verification/Queue_Consumer.thy ===== *)
theory Queue_Consumer
  imports Queue_Producer Queue_DLQ
begin

text \<open>
  \<open>internal/queue/consumer.go\<close>: reading one message for a consumer group, acknowledging it,
  retrying a failed job or giving it to the dead letter queue, reclaiming the messages of dead
  consumers, and the pending summary that the throttler polls.
\<close>

record Consumer =
  co_streamName :: string
  co_consumerGroup :: string
  co_consumerName :: string
  co_dlq :: "DLQ option"

definition NewConsumer :: "string \<Rightarrow> string \<Rightarrow> string \<Rightarrow> DLQ option \<Rightarrow> Consumer" where
  "NewConsumer streamName consumerGroup consumerName dlq =
     \<lparr>co_streamName = streamName, co_consumerGroup = consumerGroup, co_consumerName = consumerName,
      co_dlq = dlq\<rparr>"

text \<open>The three results \<open>(*JobEnvelope, string, error)\<close>.\<close>

type_synonym consumed = "JobEnvelope option \<times> string \<times> goerror option"

definition parseMessage :: "xmessage \<Rightarrow> consumed" where
  "parseMessage msg =
     (case map_of (msg_Values msg) ''job'' of
        None \<Rightarrow> (None, msg_ID msg, Some (ErrorString ''message missing data field''))
      | Some jobStr \<Rightarrow>
        (case unmarshal_JobEnvelope jobStr of
           Ok envelope \<Rightarrow> (Some envelope, msg_ID msg, None)
         | Err e \<Rightarrow> (None, msg_ID msg, Some (Wrap ''failed to unmarshal: '' e))
         | Panic \<Rightarrow> (None, msg_ID msg, None)))"

definition Consume :: "'s redis_client \<Rightarrow> Consumer \<Rightarrow> ctx \<Rightarrow> duration \<Rightarrow> 's \<Rightarrow> consumed \<times> 's" where
  "Consume R co c blockDuration s =
     (case XReadGroup R c (co_consumerGroup co) (co_consumerName co) (co_streamName co) 1 blockDuration s of
        (Inl e, s') \<Rightarrow>
          (if e = RedisNil then ((None, '''', None), s')
           else ((None, '''', Some (Wrap ''failed to read from stream: '' e)), s'))
      | (Inr streams, s') \<Rightarrow>
        (case streams of
           [] \<Rightarrow> ((None, '''', None), s')
         | (_, msgs) # _ \<Rightarrow>
           (case msgs of
              [] \<Rightarrow> ((None, '''', None), s')
            | msg # _ \<Rightarrow> (parseMessage msg, s'))))"

definition Ack :: "'s redis_client \<Rightarrow> Consumer \<Rightarrow> ctx \<Rightarrow> string \<Rightarrow> 's \<Rightarrow> goerror option \<times> 's" where
  "Ack R co c messageID s =
     (case XAck R c (co_streamName co) (co_consumerGroup co) messageID s of
        (Inl e, s') \<Rightarrow> (Some (Wrap ''failed to ack: '' e), s')
      | (Inr n, s') \<Rightarrow> (None, s'))"

text \<open>The job after one more failed attempt.\<close>

definition failed_once :: "JobEnvelope \<Rightarrow> goerror \<Rightarrow> JobEnvelope" where
  "failed_once envelope lastError =
     envelope\<lparr>RetryCount := wrap64 (RetryCount envelope + 1), LastError := Error lastError\<rparr>"

definition Retry ::
  "'s redis_client \<Rightarrow> Consumer \<Rightarrow> int64 \<Rightarrow> ctxs \<Rightarrow> JobEnvelope \<Rightarrow> string \<Rightarrow> goerror \<Rightarrow> 's \<Rightarrow> goerror option \<times> 's" where
  "Retry R co now cx envelope0 messageID lastError s =
     (let envelope = failed_once envelope0 lastError in
      if RetryCount envelope \<ge> MaxRetries envelope then
        (let s1 = (case co_dlq co of
                     None \<Rightarrow> s
                   | Some dlq \<Rightarrow>
                       snd (Send R dlq (cx 0)
                              \<lparr>OriginalStreamID = messageID, JobData = Some envelope,
                               FailureReason = Error lastError, SentToDLQAt = now\<rparr> s))
         in Ack R co (cx 1) messageID s1)
      else
        (case buildXAddArgs (co_streamName co) 0 envelope of
           Err e \<Rightarrow> (Some (Wrap ''failed to build retry args: '' e), s)
         | Panic \<Rightarrow> (None, s)
         | Ok ((k, m, v), _) \<Rightarrow>
           (case XAdd R (cx 0) k m v s of
              (Inl e, s1) \<Rightarrow> (Some (Wrap ''failed to re-enqueue: '' e), s1)
            | (Inr i, s1) \<Rightarrow> Ack R co (cx 1) messageID s1)))"

text \<open>The loop body over the claimed messages: those that cannot be decoded are skipped.\<close>

fun claim_all :: "xmessage list \<Rightarrow> (JobEnvelope \<times> string) list" where
  "claim_all [] = []"
| "claim_all (msg # ms) =
     (case parseMessage msg of
        (Some envelope, messageID, None) \<Rightarrow> (envelope, messageID) # claim_all ms
      | _ \<Rightarrow> claim_all ms)"

text \<open>
  The cursor loop. It ends when the server returns the cursor \<open>0-0\<close>; nothing in the code bounds
  it, so it is a partial function and not returning is \<open>None\<close>. \<open>j\<close> counts the uses of the context.
\<close>

partial_function (option) ReclaimStale_loop ::
  "'s redis_client \<Rightarrow> Consumer \<Rightarrow> ctxs \<Rightarrow> nat \<Rightarrow> duration \<Rightarrow> int64 \<Rightarrow> string \<Rightarrow>
   (JobEnvelope \<times> string) list \<Rightarrow> 's \<Rightarrow> (((JobEnvelope \<times> string) list \<times> goerror option) \<times> 's) option" where
  "ReclaimStale_loop R co cx j idleTime maxBatch cursor acc s =
     (case XAutoClaim R (cx j) (co_streamName co) (co_consumerGroup co) (co_consumerName co) idleTime cursor maxBatch s of
        (Inl e, s') \<Rightarrow>
          (if e = RedisNil then Some ((acc, None), s')
           else Some ((acc, Some (Wrap ''failed to reclaim stale messages: '' e)), s'))
      | (Inr (messages, nextCursor), s') \<Rightarrow>
          (if nextCursor = ''0-0'' then Some ((acc @ claim_all messages, None), s')
           else case cx (Suc j) of
                  Some err \<Rightarrow> Some ((acc @ claim_all messages, Some err), s')
                | None \<Rightarrow>
                    ReclaimStale_loop R co cx (j + 2) idleTime maxBatch nextCursor
                      (acc @ claim_all messages) s'))"

definition ReclaimStale ::
  "'s redis_client \<Rightarrow> Consumer \<Rightarrow> ctxs \<Rightarrow> duration \<Rightarrow> int64 \<Rightarrow> 's \<Rightarrow>
   (((JobEnvelope \<times> string) list \<times> goerror option) \<times> 's) option" where
  "ReclaimStale R co cx idleTime maxBatch s =
     ReclaimStale_loop R co cx 0 idleTime maxBatch ''0-0'' [] s"

text \<open>The two results and the error; \<open>nowMs\<close> is \<open>time.Now().UnixMilli()\<close>.\<close>

definition GetPendingInfo :: "'s redis_client \<Rightarrow> Consumer \<Rightarrow> int64 \<Rightarrow> ctx \<Rightarrow> ('s, int64 \<times> int64) act" where
  "GetPendingInfo R co nowMs c s =
     (case XPending R c (co_streamName co) (co_consumerGroup co) s of
        (Inl e, s') \<Rightarrow>
          (if e = RedisNil \<or> Error e = ''NOGROUP'' then (Ok (0, 0), s')
           else (Err (Wrap ''failed to get pending info: '' e), s'))
      | (Inr (count, lower), s') \<Rightarrow>
          (let age = (if count > 0 \<and> lower \<noteq> '''' then
                        (case ParseInt (hd (Split (CHR ''-'') lower)) of
                           None \<Rightarrow> 0
                         | Some timestampMs \<Rightarrow> quot_go (wrap64 (nowMs - timestampMs)) 1000)
                      else 0)
           in (Ok (count, age), s')))"

section \<open>What the consumer promises\<close>

text \<open>A job is in a stream, or in the dead letter queue.\<close>

definition queued :: "stream_db \<Rightarrow> string \<Rightarrow> JobEnvelope \<Rightarrow> bool" where
  "queued d k env \<longleftrightarrow> (\<exists>i v. (i, v) \<in> set (ents d k) \<and> carries v env)"

definition buried :: "stream_db \<Rightarrow> string \<Rightarrow> JobEnvelope \<Rightarrow> bool" where
  "buried d k env \<longleftrightarrow> (\<exists>i v en. (i, v) \<in> set (ents d k) \<and> holds_entry v en \<and> JobData en = Some env)"

definition retry_entry :: "JobEnvelope \<Rightarrow> string \<Rightarrow> goerror \<Rightarrow> int64 \<Rightarrow> DLQEntry" where
  "retry_entry env messageID err now =
     \<lparr>OriginalStreamID = messageID, JobData = Some env, FailureReason = Error err, SentToDLQAt = now\<rparr>"

lemma queued_ack [simp]: "queued (db_ack k g i d) = queued d"
  by (simp add: queued_def fun_eq_iff)

lemma buried_ack [simp]: "buried (db_ack k g i d) = buried d"
  by (simp add: buried_def fun_eq_iff)

lemma queued_added: "\<lbrakk>added k m v i d d'; carries v env\<rbrakk> \<Longrightarrow> queued d' k env"
  using added_in by (fastforce simp: queued_def)

lemma buried_added: "\<lbrakk>added k m v i d d'; holds_entry v en; JobData en = Some env\<rbrakk> \<Longrightarrow> buried d' k env"
  using added_in by (fastforce simp: buried_def)

lemma failed_once_simps [simp]:
  "MaxRetries (failed_once env err) = MaxRetries env" "JobID (failed_once env err) = JobID env"
  "Data (failed_once env err) = Data env" "LastError (failed_once env err) = Error err"
  "RetryCount (failed_once env err) = wrap64 (RetryCount env + 1)"
  by (simp_all add: failed_once_def)

lemma wf_retry_entry:
  assumes "wf_envelope (maxNestingDepth - 1) env" "valid_utf8 i" "valid_utf8 (Error err)" "in64 now"
  shows "wf_entry maxNestingDepth (retry_entry env i err now)"
  using assms by (simp add: wf_entry_def retry_entry_def maxNestingDepth_def)

lemma wf_value_Suc: "wf_value d v \<Longrightarrow> wf_value (Suc d) v"
proof (induction d v rule: wf_value.induct)
  case (3 d vs)
  then show ?case by (cases d) auto
next
  case (4 d m)
  then show ?case by (cases d) fastforce+
qed simp_all

lemma wf_event_Suc: "wf_event d e \<Longrightarrow> wf_event (Suc d) e"
  using wf_value_Suc [of "d - 1" "GoMap (Metadata e)"] by (cases d) (auto simp: wf_event_def)

lemma wf_envelope_Suc: "wf_envelope d env \<Longrightarrow> wf_envelope (Suc d) env"
  using wf_event_Suc [of "d - 1"] by (cases d) (auto simp: wf_envelope_def split: option.splits)

lemma wf_envelope_max: "wf_envelope (maxNestingDepth - 1) env \<Longrightarrow> wf_envelope maxNestingDepth env"
  using wf_envelope_Suc [of "maxNestingDepth - 1"] by (simp add: maxNestingDepth_def)

text \<open>The two branches of \<open>Retry\<close>.\<close>

lemma Retry_give_up:
  assumes "MaxRetries env \<le> RetryCount (failed_once env err)"
  shows "Retry R co now cx env i err s =
    Ack R co (cx 1) i
      (case co_dlq co of None \<Rightarrow> s
       | Some dlq \<Rightarrow> snd (Send R dlq (cx 0) (retry_entry (failed_once env err) i err now) s))"
  using assms by (cases "co_dlq co") (simp_all add: Retry_def retry_entry_def Let_def del: failed_once_simps(5))

lemma Retry_again:
  assumes "RetryCount (failed_once env err) < MaxRetries env"
    and "buildXAddArgs (co_streamName co) 0 (failed_once env err) = Ok ((k, m, v), n)"
  shows "Retry R co now cx env i err s =
    (case XAdd R (cx 0) k m v s of
       (Inl e, s1) \<Rightarrow> (Some (Wrap ''failed to re-enqueue: '' e), s1)
     | (Inr j, s1) \<Rightarrow> Ack R co (cx 1) i s1)"
  using assms by (simp add: Retry_def Let_def del: failed_once_simps(5))

context redis_streams
begin

lemma Ack_outcome:
  assumes "invar s" "Ack R co c i s = (r, s')"
  shows "invar s' \<and> (db s' = db s \<or> db s' = db_ack (co_streamName co) (co_consumerGroup co) i (db s)) \<and>
         (r = None \<longrightarrow> db s' = db_ack (co_streamName co) (co_consumerGroup co) i (db s))"
proof -
  obtain x s1 where x: "XAck R c (co_streamName co) (co_consumerGroup co) i s = (x, s1)" by fastforce
  show ?thesis
  proof (cases x)
    case (Inl e)
    with xack_err [OF assms(1) x [unfolded Inl]] assms(2) x show ?thesis by (auto simp: Ack_def)
  next
    case (Inr n)
    with xack_ok [OF assms(1) x [unfolded Inr]] assms(2) x show ?thesis by (auto simp: Ack_def)
  qed
qed

lemma Retry_again_outcome:
  assumes "invar s" "RetryCount (failed_once env err) < MaxRetries env"
    and wf: "wf_envelope maxNestingDepth (failed_once env err)"
    and run: "Retry R co now cx env i err s = (r, s')"
  shows "invar s' \<and> (db s' = db s \<and> r \<noteq> None \<or>
    (\<exists>v j. carries v (failed_once env err) \<and>
       (db s' = db_add (co_streamName co) j v (db s) \<and> r \<noteq> None \<or>
        db s' = db_ack (co_streamName co) (co_consumerGroup co) i (db_add (co_streamName co) j v (db s)))))"
proof -
  let ?k = "co_streamName co"
  obtain v n where b: "buildXAddArgs ?k 0 (failed_once env err) = Ok ((?k, 0, v), n)"
    and v: "carries v (failed_once env err)" using buildXAddArgs_wf [OF wf] .
  obtain x s1 where x: "XAdd R (cx 0) ?k 0 v s = (x, s1)" by fastforce
  note unfold = Retry_again [OF assms(2) b, of R now cx i s, unfolded x]
  show ?thesis
  proof (cases x)
    case (Inl e)
    with run unfold have "s' = s1" "r \<noteq> None" by auto
    with xadd_err [OF assms(1) x [unfolded Inl]] v added_no_limit show ?thesis by (metis order_refl)
  next
    case (Inr j)
    from xadd_ok [OF assms(1) x [unfolded Inr]] have i1: "invar s1" and d1: "db s1 = db_add ?k j v (db s)"
      by (auto dest: added_no_limit)
    have "Ack R co (cx 1) i s1 = (r, s')" using run unfold Inr by simp
    from Ack_outcome [OF i1 this] d1 v show ?thesis by metis
  qed
qed

lemma Retry_give_up_outcome:
  assumes s: "invar s"
    and wf: "wf_envelope (maxNestingDepth - 1) (failed_once env err)" "valid_utf8 i" "valid_utf8 (Error err)" "in64 now"
    and run: "Retry R co now cx env i err s = (r, s')"
    and ge: "MaxRetries env \<le> RetryCount (failed_once env err)"
  shows "(case co_dlq co of
            None \<Rightarrow> True
          | Some dlq \<Rightarrow> buried (db s') (dq_streamName dlq) (failed_once env err) \<or>
              (\<exists>e. fst (Send R dlq (cx 0) (retry_entry (failed_once env err) i err now) s) = Err e)) \<and>
         (r = None \<longrightarrow> i \<notin> set (pend (db s') (co_streamName co) (co_consumerGroup co)))"
proof -
  note unfold = Retry_give_up [OF ge, of R co now cx i s]
  show ?thesis
  proof (cases "co_dlq co")
    case None
    with run unfold have "Ack R co (cx 1) i s = (r, s')" by simp
    from Ack_outcome [OF s this] show ?thesis
      using None by (auto simp: pend_db_ack)
  next
    case (Some dlq)
    obtain x s1 where x: "Send R dlq (cx 0) (retry_entry (failed_once env err) i err now) s = (x, s1)" by fastforce
    from Send_outcome [OF s wf_retry_entry [OF wf] _ x]
    obtain v where i1: "invar s1" and v: "holds_entry v (retry_entry (failed_once env err) i err now)"
      and o: "case x of
         Ok j \<Rightarrow> added (dq_streamName dlq) (dq_maxLen dlq) v j (db s) (db s1) \<and> j \<noteq> ''-'' \<and> j \<noteq> ''+''
       | Err e \<Rightarrow> db s1 = db s \<or> (\<exists>j. added (dq_streamName dlq) (dq_maxLen dlq) v j (db s) (db s1))
       | Panic \<Rightarrow> False" by (auto simp: retry_entry_def)
    have "Ack R co (cx 1) i s1 = (r, s')" using run unfold Some x by simp
    note a = Ack_outcome [OF i1 this]
    have "buried (db s1) (dq_streamName dlq) (failed_once env err) \<or> (\<exists>e. x = Err e)"
      using o v by (cases x) (auto dest!: buried_added simp: retry_entry_def)
    then have "buried (db s') (dq_streamName dlq) (failed_once env err) \<or> (\<exists>e. x = Err e)"
      using a by auto
    then show ?thesis using Some x a by (auto simp: pend_db_ack)
  qed
qed

lemma Retry_accounted:
  assumes s: "invar s"
    and wf: "wf_envelope (maxNestingDepth - 1) (failed_once env err)" "valid_utf8 i" "valid_utf8 (Error err)" "in64 now"
    and run: "Retry R co now cx env i err s = (r, s')"
    and pending: "i \<in> set (pend (db s) (co_streamName co) (co_consumerGroup co))"
  shows "(i \<in> set (pend (db s') (co_streamName co) (co_consumerGroup co)) \<or>
          (if RetryCount (failed_once env err) < MaxRetries env
           then queued (db s') (co_streamName co) (failed_once env err)
           else case co_dlq co of
                  None \<Rightarrow> True
                | Some dlq \<Rightarrow> buried (db s') (dq_streamName dlq) (failed_once env err) \<or>
                    (\<exists>e. fst (Send R dlq (cx 0) (retry_entry (failed_once env err) i err now) s) = Err e))) \<and>
         (r = None \<longrightarrow> i \<notin> set (pend (db s') (co_streamName co) (co_consumerGroup co)))"
proof (cases "RetryCount (failed_once env err) < MaxRetries env")
  case True
  from Retry_again_outcome [OF s True wf_envelope_max [OF wf(1)] run]
  consider "db s' = db s" "r \<noteq> None"
    | v j where "carries v (failed_once env err)" "db s' = db_add (co_streamName co) j v (db s)" "r \<noteq> None"
    | v j where "carries v (failed_once env err)"
        "db s' = db_ack (co_streamName co) (co_consumerGroup co) i (db_add (co_streamName co) j v (db s))"
    by blast
  then show ?thesis
  proof cases
    case 1
    then show ?thesis using pending by simp
  next
    case 2
    then show ?thesis using pending by simp
  next
    case (3 v j)
    have "(j, v) \<in> set (ents (db s') (co_streamName co))" by (simp add: 3 db_add_def)
    then have "queued (db s') (co_streamName co) (failed_once env err)" using 3 by (auto simp: queued_def)
    moreover have "i \<notin> set (pend (db s') (co_streamName co) (co_consumerGroup co))"
      by (simp add: 3 pend_db_ack)
    ultimately show ?thesis using True by simp
  qed
next
  case False
  with Retry_give_up_outcome [OF s wf run] show ?thesis by auto
qed

text \<open>Whatever \<open>Retry\<close> does and however it fails, it takes at most the one message off the pending list.\<close>

lemma xadd_pend:
  assumes "invar s" "XAdd R c k m v s = (x, s')" shows "invar s' \<and> pend (db s') = pend (db s)"
  using xadd_ok [OF assms(1)] xadd_err [OF assms(1)] assms(2) added_pend by (cases x) metis+

lemma Send_pend:
  assumes "invar s" shows "invar (snd (Send R dlq c entry s)) \<and> pend (db (snd (Send R dlq c entry s))) = pend (db s)"
  using assms xadd_pend [OF assms]
  by (auto simp: Send_def split: go.splits prod.splits sum.splits option.splits)

lemma Retry_ack_step:
  assumes "invar s" "Retry R co now cx env i err s = (r, s')"
  shows "(invar s' \<and> pend (db s') = pend (db s)) \<or>
         (\<exists>s1. invar s1 \<and> pend (db s1) = pend (db s) \<and> Ack R co (cx 1) i s1 = (r, s'))"
proof (cases "RetryCount (failed_once env err) < MaxRetries env")
  case False
  define s1 where "s1 = (case co_dlq co of None \<Rightarrow> s
     | Some dlq \<Rightarrow> snd (Send R dlq (cx 0) (retry_entry (failed_once env err) i err now) s))"
  have "invar s1 \<and> pend (db s1) = pend (db s)"
    using Send_pend [OF assms(1)] assms(1) by (auto simp: s1_def split: option.splits)
  with False assms(2) show ?thesis
    using Retry_give_up [of env err R co now cx i s] by (auto simp del: failed_once_simps(5) simp flip: s1_def)
next
  case True
  show ?thesis
  proof (cases "buildXAddArgs (co_streamName co) 0 (failed_once env err)")
    case (Ok y)
    obtain k m v n where y: "y = ((k, m, v), n)" by (metis prod.exhaust)
    obtain x s1 where x: "XAdd R (cx 0) k m v s = (x, s1)" by fastforce
    have "invar s1 \<and> pend (db s1) = pend (db s)" using xadd_pend [OF assms(1) x] .
    with assms(2) x show ?thesis
      unfolding Retry_again [OF True Ok [unfolded y]] by (auto split: sum.splits)
  qed (use assms True in \<open>simp_all add: Retry_def Let_def del: failed_once_simps(5)\<close>)
qed

lemma Retry_pend:
  assumes "invar s" "Retry R co now cx env i err s = (r, s')"
  shows "invar s' \<and> (pend (db s') = pend (db s) \<or>
                     pend (db s') = pend (db_ack (co_streamName co) (co_consumerGroup co) i (db s)))"
  using Retry_ack_step [OF assms]
proof
  assume "\<exists>s1. invar s1 \<and> pend (db s1) = pend (db s) \<and> Ack R co (cx 1) i s1 = (r, s')"
  then obtain s1 where "invar s1" "pend (db s1) = pend (db s)" "Ack R co (cx 1) i s1 = (r, s')" by blast
  with Ack_outcome [OF this(1,3)] show ?thesis by (auto simp: db_ack_def)
qed simp

end


text \<open>A witness: the last attempt of a job fails while the dead letter queue works.\<close>

definition demo_consumer :: Consumer where
  "demo_consumer = NewConsumer ''logs:ingest:partition:0'' ''log-workers-0'' ''w1'' (Some demo_dlq)"

text \<open>A server in which one message with the demo job has been delivered to the demo group.\<close>

definition demo_pending_db :: stream_db where
  "demo_pending_db = empty_db\<lparr>
     ents := (\<lambda>_. [])(''logs:ingest:partition:0'' := [(''0-1'', [(''job'', ''x'')])]),
     pend := (\<lambda>_ _. [])(''logs:ingest:partition:0'' := (\<lambda>_. [])(''log-workers-0'' := [''0-1''])),
     grp := (\<lambda>_ _. True)\<rparr>"

definition demo_pending :: mem where
  "demo_pending = (mem_init 0 [])\<lparr>m_db := demo_pending_db, m_seq := (\<lambda>_. 1)\<rparr>"

lemma demo_pending_inv [simp]: "mem_inv demo_pending"
proof -
  have "known_id demo_pending k ''0-1''" for k
  proof -
    have "''0-1'' = mem_id 0 1" by code_simp
    then show ?thesis by (auto simp: known_id_def demo_pending_def)
  qed
  then show ?thesis
    by (simp add: mem_inv_def db_ok_def group_ok_def) (simp add: demo_pending_def demo_pending_db_def empty_db_def)
qed

lemma demo_failed_wf:
  "wf_envelope (maxNestingDepth - 1) (failed_once demo_envelope (ErrorString ''boom''))"
  "valid_utf8 ''0-1''" "valid_utf8 (Error (ErrorString ''boom''))" "in64 1700000200"
  by (simp_all add: maxNestingDepth_def wf_envelope_def failed_once_def demo_envelope_def in64_def wrap64_def)


section \<open>The number of attempts\<close>

text \<open>The job after a series of failed attempts.\<close>

definition after_failures :: "JobEnvelope \<Rightarrow> goerror list \<Rightarrow> JobEnvelope" where
  "after_failures env errs = foldl failed_once env errs"

lemma after_failures_count:
  assumes "RetryCount env = 0" "int (length errs) \<le> maxInt64"
  shows "RetryCount (after_failures env errs) = int (length errs) \<and>
         MaxRetries (after_failures env errs) = MaxRetries env"
  using assms
proof (induction errs rule: rev_induct)
  case (snoc e errs)
  then show ?case by (simp add: after_failures_def maxInt64_def in64_def)
qed (simp add: after_failures_def)

text \<open>
  C15: A job that keeps failing is attempted exactly \<open>MaxRetries\<close> times. Starting from a fresh job
  (retry count zero), the \<open>Retry\<close> after the \<open>n\<close>-th failure sends the job back to its own stream
  when \<open>n\<close> is smaller than \<open>MaxRetries\<close>, and when it equals \<open>MaxRetries\<close> the job goes to the
  dead letter queue with that retry count and is acknowledged.
\<close>

theorem Retry_exact_attempts:
  assumes "RetryCount env = 0" and "0 < MaxRetries env" and "MaxRetries env \<le> maxInt64"
    and "n = length errs" and "0 < n" and "int n \<le> MaxRetries env" and "job = after_failures env (butlast errs)"
    and "dlq = the (co_dlq co)" and "co_dlq co \<noteq> None"
    and "buildXAddArgs (co_streamName co) 0 (after_failures env errs) = Ok ((k, m, v), sz)"
  shows "RetryCount (failed_once job (last errs)) = int n \<and>
    Retry R co now cx job i (last errs) s =
      (if int n < MaxRetries env
       then (case XAdd R (cx 0) k m v s of
               (Inl e, s1) \<Rightarrow> (Some (Wrap ''failed to re-enqueue: '' e), s1)
             | (Inr j, s1) \<Rightarrow> Ack R co (cx 1) i s1)
       else Ack R co (cx 1) i
              (snd (Send R dlq (cx 0) (retry_entry (after_failures env errs) i (last errs) now) s)))"
proof -
  have "errs \<noteq> []" using assms(4,5) by auto
  then have split: "after_failures env errs = failed_once job (last errs)"
    unfolding assms(7) after_failures_def by (metis append_butlast_last_id foldl_Cons foldl_Nil foldl_append)
  have "RetryCount job = int (length (butlast errs)) \<and> MaxRetries job = MaxRetries env"
    unfolding assms(7) by (rule after_failures_count [OF assms(1)]) (use assms(3,4,6) in auto)
  moreover have "RetryCount (after_failures env errs) = int n"
    using after_failures_count [OF assms(1), of errs] assms(3,4,6) by auto
  ultimately show ?thesis
    using assms split Retry_again [of job "last errs" co k m v sz R now cx i s]
      Retry_give_up [of job "last errs" R co now cx i s]
    by (auto simp del: failed_once_simps(5))
qed

theorem Retry_exact_attempts_witness:
  "\<exists>job. RetryCount (failed_once job (ErrorString ''boom'')) = 3 \<and>
     Retry memory demo_consumer 0 (\<lambda>_. None) job ''0-1'' (ErrorString ''boom'') demo_pending =
       Ack memory demo_consumer None ''0-1''
         (snd (Send memory demo_dlq None
                 (retry_entry (after_failures (demo_envelope\<lparr>RetryCount := 0\<rparr>)
                    [ErrorString ''boom'', ErrorString ''boom'', ErrorString ''boom'']) ''0-1'' (ErrorString ''boom'') 0)
                 demo_pending))"
proof -
  let ?env = "demo_envelope\<lparr>RetryCount := 0\<rparr>"
  let ?errs = "[ErrorString ''boom'', ErrorString ''boom'', ErrorString ''boom'']"
  have wf: "wf_envelope maxNestingDepth (after_failures ?env ?errs)"
    by (simp add: after_failures_def wf_envelope_def failed_once_def demo_envelope_def in64_def wrap64_def
        maxNestingDepth_def)
  obtain v sz where b: "buildXAddArgs (co_streamName demo_consumer) 0 (after_failures ?env ?errs)
      = Ok ((co_streamName demo_consumer, 0, v), sz)" using buildXAddArgs_wf [OF wf] by blast
  from Retry_exact_attempts [of ?env 3 ?errs "after_failures ?env (butlast ?errs)" demo_dlq demo_consumer,
      OF _ _ _ _ _ _ _ _ _ b, of memory 0 "\<lambda>_. None" "''0-1''" demo_pending]
  show ?thesis by (auto simp: demo_envelope_def demo_consumer_def NewConsumer_def maxInt64_def)
qed

section \<open>Delivery\<close>

text \<open>The worker's view of the fields of a message.\<close>

definition decodes :: "fields \<Rightarrow> JobEnvelope \<Rightarrow> bool" where
  "decodes v env \<longleftrightarrow> (\<exists>t. map_of v ''job'' = Some t \<and> unmarshal_JobEnvelope t = Ok env)"

lemma carries_decodes: "carries v env \<Longrightarrow> decodes v env"
  by (auto simp: carries_def decodes_def)

lemma parseMessage_xmsg: "decodes v env \<Longrightarrow> parseMessage (xmsg (i, v)) = (Some env, i, None)"
  by (auto simp: decodes_def parseMessage_def xmsg_def)

lemma parseMessage_Some: "parseMessage msg = (Some env, i, e) \<Longrightarrow> decodes (msg_Values msg) env \<and> i = msg_ID msg \<and> e = None"
  by (auto simp: parseMessage_def decodes_def split: option.splits go.splits)

lemma parseMessage_not_empty: "\<exists>x. parseMessage msg = (None, msg_ID msg, Some x) \<or> (\<exists>env. parseMessage msg = (Some env, msg_ID msg, None))"
  by (auto simp: parseMessage_def split: option.splits go.splits)

text \<open>Pairs of a job and the identifier of a pending message that carries it.\<close>

definition claimed_from :: "stream_db \<Rightarrow> Consumer \<Rightarrow> (JobEnvelope \<times> string) list \<Rightarrow> bool" where
  "claimed_from d co acc \<longleftrightarrow>
     (\<forall>(env, i)\<in>set acc. i \<in> set (pend d (co_streamName co) (co_consumerGroup co)) \<and>
        (\<exists>v. (i, v) \<in> set (ents d (co_streamName co)) \<and> decodes v env))"

lemma claim_all_decodes:
  "(env, i) \<in> set (claim_all ms) \<Longrightarrow> \<exists>m\<in>set ms. i = msg_ID m \<and> decodes (msg_Values m) env"
proof (induction ms)
  case (Cons m ms)
  consider e where "parseMessage m = (None, msg_ID m, Some e)"
    | env' where "parseMessage m = (Some env', msg_ID m, None)" using parseMessage_not_empty [of m] by auto
  then show ?case
    by cases (use Cons in \<open>auto dest: parseMessage_Some\<close>)
qed simp

text \<open>Two views that differ at most in the pending lists.\<close>

definition same_entries :: "stream_db \<Rightarrow> stream_db \<Rightarrow> bool" where
  "same_entries d d' \<longleftrightarrow> ents d' = ents d \<and> fresh d' = fresh d \<and> grp d' = grp d"

context redis_streams
begin

lemma Consume_next:
  assumes "invar s" "fresh (db s) (co_streamName co) (co_consumerGroup co) = (i, v) # rest" "decodes v env"
    and "Consume R co c b s = ((oe, j, err), s')"
  shows "invar s' \<and> (err = None \<and> oe = Some env \<and> j = i \<and> db s' = db_deliver (co_streamName co) (co_consumerGroup co) (db s) \<or>
         (\<exists>x. err = Some x) \<and> oe = None)"
proof -
  obtain x s1 where x: "XReadGroup R c (co_consumerGroup co) (co_consumerName co) (co_streamName co) 1 b s = (x, s1)"
    by fastforce
  show ?thesis
  proof (cases x)
    case (Inl e)
    have "e \<noteq> RedisNil" using xread_nil [OF assms(1)] assms(2) x Inl by (metis list.distinct(1))
    with xread_err [OF assms(1) x [unfolded Inl]] assms(4) x Inl show ?thesis
      by (auto simp: Consume_def)
  next
    case (Inr res)
    from xread_ok [OF assms(1) x [unfolded Inr]] assms(2)
    have "res = [(co_streamName co, [xmsg (i, v)])]" "invar s1"
      "db s1 = db_deliver (co_streamName co) (co_consumerGroup co) (db s)" by auto
    with assms(4) x Inr parseMessage_xmsg [OF assms(3)] show ?thesis by (auto simp: Consume_def)
  qed
qed

lemma ReclaimStale_loop_spec:
  assumes "invar s"
    and "claimed_from d co acc"
    and "same_entries d (db s)"
    and "set (pend (db s) (co_streamName co) (co_consumerGroup co)) \<subseteq> set (pend d (co_streamName co) (co_consumerGroup co))"
  shows "\<exists>acc' e s'. ReclaimStale_loop R co cx j idle n cursor acc s = Some ((acc', e), s') \<and> invar s' \<and>
    claimed_from d co acc' \<and>
    same_entries d (db s') \<and>
    set (pend (db s') (co_streamName co) (co_consumerGroup co)) \<subseteq> set (pend d (co_streamName co) (co_consumerGroup co)) \<and>
    (\<forall>i\<in>set (pend (db s) (co_streamName co) (co_consumerGroup co)).
       i \<in> fst ` set (ents d (co_streamName co)) \<longrightarrow> i \<in> set (pend (db s') (co_streamName co) (co_consumerGroup co)))"
  using assms
proof (induction "rank s (co_streamName co) (co_consumerGroup co) cursor" arbitrary: s acc cursor j rule: less_induct)
  case less
  let ?k = "co_streamName co" and ?g = "co_consumerGroup co"
  obtain x s1 where x: "XAutoClaim R (cx j) ?k ?g (co_consumerName co) idle cursor n s = (x, s1)" by fastforce
  show ?case
  proof (cases x)
    case (Inl e)
    from xclaim_err [OF less.prems(1) x [unfolded Inl]] obtain gone where
      "invar s1" "gone \<inter> fst ` set (ents (db s) ?k) = {}" "db s1 = db_claim ?k ?g gone (db s)" by auto
    moreover have "\<exists>e. ReclaimStale_loop R co cx j idle n cursor acc s = Some ((acc, e), s1)"
      using x Inl by (subst ReclaimStale_loop.simps) auto
    ultimately show ?thesis using less.prems(2-4) by (fastforce simp: db_claim_def same_entries_def)
  next
    case (Inr y)
    obtain ms nxt where y: "y = (ms, nxt)" by fastforce
    from xclaim_ok [OF less.prems(1) x [unfolded Inr y]] obtain gone where
      i1: "invar s1" and ms: "\<forall>m\<in>set ms. msg_ID m \<in> set (pend (db s) ?k ?g) \<and> (msg_ID m, msg_Values m) \<in> set (ents (db s) ?k)"
      and gone: "gone \<inter> fst ` set (ents (db s) ?k) = {}" "db s1 = db_claim ?k ?g gone (db s)"
      and rk: "nxt \<noteq> ''0-0'' \<longrightarrow> rank s1 ?k ?g nxt < rank s ?k ?g cursor" by auto
    have keep: "\<forall>i\<in>set (pend (db s) ?k ?g). i \<in> fst ` set (ents d ?k) \<longrightarrow> i \<in> set (pend (db s1) ?k ?g)"
      "same_entries d (db s1)" "set (pend (db s1) ?k ?g) \<subseteq> set (pend d ?k ?g)"
      using gone less.prems(3,4) by (auto simp: db_claim_def same_entries_def)
    have acc: "claimed_from d co (acc @ claim_all ms)"
      using ms less.prems(2,3,4) claim_all_decodes [of _ _ ms] unfolding claimed_from_def same_entries_def by fastforce
    show ?thesis
    proof (cases "nxt = ''0-0'' \<or> cx (Suc j) \<noteq> None")
      case True
      then have "\<exists>e. ReclaimStale_loop R co cx j idle n cursor acc s = Some ((acc @ claim_all ms, e), s1)"
        using x Inr y by (subst ReclaimStale_loop.simps) (auto split: option.splits)
      then show ?thesis using acc keep i1 by blast
    next
      case False
      then have step: "ReclaimStale_loop R co cx j idle n cursor acc s =
          ReclaimStale_loop R co cx (j + 2) idle n nxt (acc @ claim_all ms) s1"
        using x Inr y by (subst ReclaimStale_loop.simps) (simp split: option.splits)
      have "rank s1 ?k ?g nxt < rank s ?k ?g cursor" using rk False by simp
      from less.hyps [OF this i1 acc keep(2,3), of "j + 2"] obtain acc' e s'
        where "ReclaimStale_loop R co cx (j + 2) idle n nxt (acc @ claim_all ms) s1 = Some ((acc', e), s')"
          "invar s'" "claimed_from d co acc'" "same_entries d (db s')" "set (pend (db s') ?k ?g) \<subseteq> set (pend d ?k ?g)"
          and p: "\<forall>i\<in>set (pend (db s1) ?k ?g). i \<in> fst ` set (ents d ?k) \<longrightarrow> i \<in> set (pend (db s') ?k ?g)"
        by (elim exE conjE)
      moreover have "\<forall>i\<in>set (pend (db s) ?k ?g). i \<in> fst ` set (ents d ?k) \<longrightarrow> i \<in> set (pend (db s') ?k ?g)"
        using keep(1) p by simp
      ultimately show ?thesis unfolding step by simp
    qed
  qed
qed

lemma ReclaimStale_outcome:
  assumes "invar s"
  obtains acc e s' where "ReclaimStale R co cx idle n s = Some ((acc, e), s')" "invar s'" "claimed_from (db s) co acc"
    "same_entries (db s) (db s')"
    "set (pend (db s') (co_streamName co) (co_consumerGroup co)) \<subseteq> set (pend (db s) (co_streamName co) (co_consumerGroup co))"
    "\<forall>i\<in>set (pend (db s) (co_streamName co) (co_consumerGroup co)).
       i \<in> fst ` set (ents (db s) (co_streamName co)) \<longrightarrow> i \<in> set (pend (db s') (co_streamName co) (co_consumerGroup co))"
proof -
  have "claimed_from (db s) co []" "same_entries (db s) (db s)" by (simp_all add: claimed_from_def same_entries_def)
  from ReclaimStale_loop_spec [OF assms this order_refl, of cx 0 idle n "''0-0''"] show ?thesis
    by (elim exE conjE) (rule that, simp_all add: ReclaimStale_def)
qed

end

section \<open>Properties of delivery\<close>

text \<open>
  C16: \<open>ReclaimStale\<close> always returns: the cursor loop ends because the server's cursor only
  moves forward. Every job it hands out is the content of a message that was pending for the
  group, the pairs of job and identifier belong together, no entry of any stream is changed,
  and a message that is still in the stream stays pending, so that a worker that dies again
  does not lose it.
\<close>

theorem ReclaimStale_returns_pending:
  assumes "redis_streams R db invar rank" and "invar s"
  shows "\<exists>acc e s'. ReclaimStale R co cx idle n s = Some ((acc, e), s') \<and> claimed_from (db s) co acc \<and>
    ents (db s') = ents (db s) \<and>
    (\<forall>i\<in>set (pend (db s) (co_streamName co) (co_consumerGroup co)).
       i \<in> fst ` set (ents (db s) (co_streamName co)) \<longrightarrow>
       i \<in> set (pend (db s') (co_streamName co) (co_consumerGroup co)))"
  using redis_streams.ReclaimStale_outcome [OF assms] unfolding same_entries_def by metis

theorem ReclaimStale_returns_pending_witness:
  "\<exists>acc e s'. ReclaimStale memory demo_consumer (\<lambda>_. None) 0 10 demo_pending = Some ((acc, e), s') \<and>
     claimed_from (m_db demo_pending) demo_consumer acc \<and>
     ''0-1'' \<in> set (pend (m_db s') ''logs:ingest:partition:0'' ''log-workers-0'')"
  using ReclaimStale_returns_pending [OF mem_streams.redis_streams_axioms demo_pending_inv,
      of demo_consumer "\<lambda>_. None" 0 10]
  by (auto simp: demo_pending_def demo_pending_db_def demo_consumer_def NewConsumer_def empty_db_def)

text \<open>
  What is enqueued is delivered. If the consumer group of a partition has no backlog, then
  after a successful \<open>Enqueue\<close> the next \<open>Consume\<close> of a worker of this partition either reports an
  error or returns exactly the enqueued job under the identifier that \<open>Enqueue\<close> returned, and
  that identifier is then pending for the group; it never reports an empty queue.
\<close>

theorem Enqueue_then_Consume:
  assumes R: "redis_streams R db invar rank" and s: "invar s" and cfg: "validateQueue (pr_config p) = None"
    and e: "producible p uuid now e"
    and co: "co_streamName co = stream_of p e" "grp (db s) (stream_of p e) (co_consumerGroup co)"
      "fresh (db s) (stream_of p e) (co_consumerGroup co) = []"
    and enq: "Enqueue R p uuid now c (Some e) s = (Ok i, s1)"
    and con: "Consume R co c' b s1 = ((env, j, err), s2)"
  shows "if err = None
         then env = Some (new_job p uuid now e) \<and> j = i \<and>
              i \<in> set (pend (db s2) (stream_of p e) (co_consumerGroup co))
         else env = None"
proof -
  have "0 < q_PartitionCount (pr_config p)" using cfg by (simp add: cfg_defs)
  from redis_streams.Enqueue_outcome [OF R s this e enq] obtain v
    where s1: "invar s1" and v: "carries v (new_job p uuid now e)"
      and a: "added (stream_of p e) (q_MaxLen (pr_config p)) v i (db s) (db s1)" by auto
  from a co have fr: "fresh (db s1) (co_streamName co) (co_consumerGroup co) = [(i, v)]"
    by (auto simp: added_def db_add_def db_trim_def)
  from redis_streams.Consume_next [OF R s1 fr carries_decodes [OF v] con]
  show ?thesis using fr co(1) by (auto simp: db_deliver_def)
qed

definition demo_stream_consumer :: Consumer where
  "demo_stream_consumer = NewConsumer (stream_of demo_producer demo_event) ''g'' ''w1'' None"

definition demo_ready :: mem where
  "demo_ready = (mem_init 0 [])\<lparr>m_db := db_group (stream_of demo_producer demo_event) ''g'' empty_db\<rparr>"

lemma demo_ready_inv: "mem_inv demo_ready"
  by (simp add: mem_inv_def db_ok_def group_ok_def) (simp add: demo_ready_def db_group_def empty_db_def)

lemma demo_ready_Enqueue:
  obtains i s1 where "Enqueue memory demo_producer ''3f2a'' 1700000000 None (Some demo_event) demo_ready = (Ok i, s1)"
proof -
  let ?m = "q_MaxLen (pr_config demo_producer)"
  have "0 < q_PartitionCount (pr_config demo_producer)" using validate_demo_producer by (simp add: cfg_defs)
  then obtain v n where k: "streamNameFor (pr_config demo_producer) (Service demo_event) = Ok (stream_of demo_producer demo_event)"
    and b: "buildXAddArgs (stream_of demo_producer demo_event) ?m (new_job demo_producer ''3f2a'' 1700000000 demo_event)
            = Ok ((stream_of demo_producer demo_event, ?m, v), n)"
    using producible_args [OF producible_demo] by blast
  have "m_faults demo_ready = []" by (simp add: demo_ready_def)
  from mem_XAdd_live [OF this] b show ?thesis
    by (intro that) (simp add: Enqueue_def k new_job_def)
qed

theorem Enqueue_then_Consume_witness:
  "\<exists>i s1 env j err s2.
     Enqueue memory demo_producer ''3f2a'' 1700000000 None (Some demo_event) demo_ready = (Ok i, s1) \<and>
     Consume memory demo_stream_consumer None 0 s1 = ((env, j, err), s2) \<and>
     (err = None \<longrightarrow> env = Some (new_job demo_producer ''3f2a'' 1700000000 demo_event) \<and> j = i)"
proof -
  obtain i s1 where enq: "Enqueue memory demo_producer ''3f2a'' 1700000000 None (Some demo_event) demo_ready = (Ok i, s1)"
    by (rule demo_ready_Enqueue)
  obtain env j err s2 where con: "Consume memory demo_stream_consumer None 0 s1 = ((env, j, err), s2)"
    by (metis prod_cases3 surj_pair)
  have co: "co_streamName demo_stream_consumer = stream_of demo_producer demo_event"
    "grp (m_db demo_ready) (stream_of demo_producer demo_event) (co_consumerGroup demo_stream_consumer)"
    "fresh (m_db demo_ready) (stream_of demo_producer demo_event) (co_consumerGroup demo_stream_consumer) = []"
    by (simp_all add: demo_stream_consumer_def NewConsumer_def demo_ready_def db_group_def empty_db_def)
  from Enqueue_then_Consume [OF mem_streams.redis_streams_axioms demo_ready_inv validate_demo_producer
      producible_demo co enq con] enq con
  show ?thesis by (auto split: if_splits)
qed

text \<open>
  \<open>GetPendingInfo\<close> reports the number of pending messages, and for an oldest identifier of the
  form \<open>ms-seq\<close> the whole seconds since that millisecond, rounded towards zero; a group without
  pending messages has age zero. It changes nothing.
\<close>

theorem GetPendingInfo_reports_age:
  assumes "redis_streams R db invar rank" and "invar s"
    and "XPending R c (co_streamName co) (co_consumerGroup co) s = (Inr (n, lower), s')"
    and "pend (db s) (co_streamName co) (co_consumerGroup co) \<noteq> [] \<longrightarrow>
           lower = itoa ms @ CHR ''-'' # sq \<and> 0 \<le> ms \<and> ms \<le> nowMs \<and> in64 nowMs"
  shows "GetPendingInfo R co nowMs c s =
      (Ok (int (length (pend (db s) (co_streamName co) (co_consumerGroup co))),
           if pend (db s) (co_streamName co) (co_consumerGroup co) = [] then 0 else (nowMs - ms) div 1000), s')
    \<and> db s' = db s"
proof -
  from redis_streams.xpending [OF assms(1-3)]
  have db: "db s' = db s" and n: "n = int (length (pend (db s) (co_streamName co) (co_consumerGroup co)))" by auto
  show ?thesis
  proof (cases "pend (db s) (co_streamName co) (co_consumerGroup co) = []")
    case True
    then show ?thesis using assms(3) db n by (simp add: GetPendingInfo_def)
  next
    case False
    with assms(4) have low: "lower = itoa ms @ CHR ''-'' # sq" and ms: "0 \<le> ms" "ms \<le> nowMs" "in64 nowMs" by auto
    then have "CHR ''-'' \<notin> set (itoa ms)" by (simp add: itoa_def)
    then have "Split (CHR ''-'') lower = itoa ms # Split (CHR ''-'') sq" unfolding low by (rule Split_first)
    moreover have "in64 ms" "in64 (nowMs - ms)" using ms by (auto simp: in64_def)
    ultimately show ?thesis using assms(3) db n False ms by (simp add: GetPendingInfo_def Let_def low)
  qed
qed

theorem GetPendingInfo_reports_age_witness:
  "\<exists>s'. GetPendingInfo memory demo_consumer 61500 None demo_pending = (Ok (1, 61), s')"
proof -
  have "XPending memory None (co_streamName demo_consumer) (co_consumerGroup demo_consumer) demo_pending
        = (Inr (1, ''0-1''), demo_pending)"
    by (simp add: memory_def mem_XPending_def demo_consumer_def NewConsumer_def demo_pending_def demo_pending_db_def)
  moreover have "''0-1'' = itoa 0 @ CHR ''-'' # ''1''" by code_simp
  moreover have "pend (m_db demo_pending) (co_streamName demo_consumer) (co_consumerGroup demo_consumer) = [''0-1'']"
    by (simp add: demo_consumer_def NewConsumer_def demo_pending_def demo_pending_db_def)
  ultimately show ?thesis
    using GetPendingInfo_reports_age [OF mem_streams.redis_streams_axioms demo_pending_inv, of None demo_consumer 1 "''0-1''" demo_pending 0 "''1''" 61500]
    by (simp add: in64_def)
qed

end
