(* ===== verification/Worker_Processor.thy ===== *)
theory Worker_Processor
  imports Queue_Consumer
begin

text \<open>
  \<open>internal/worker/processor.go\<close> and \<open>internal/worker/dedup_processor.go\<close>: the processor at the end
  of the pipeline and the wrapper that skips an attempt that has been started before. The
  interface \<open>ProcessorInterface\<close> is the type \<open>'s processor\<close>; its contract towards the worker is
  the locale \<open>stream_safe_processor\<close>.
\<close>

type_synonym 's processor = "JobEnvelope \<Rightarrow> ('s, unit) act"

section \<open>DefaultProcessor\<close>

text \<open>
  \<open>Process\<close> reads \<open>envelope.Data\<close> for its log line and then waits for two seconds or for the end of
  the job's context: \<open>ended\<close> is \<open>ctx.Err()\<close> when the context ends first.
\<close>

definition DefaultProcessor_Process :: "goerror option \<Rightarrow> 's processor" where
  "DefaultProcessor_Process ended envelope s =
     (case Data envelope of
        None \<Rightarrow> (Panic, s)
      | Some _ \<Rightarrow>
        (case ended of
           None \<Rightarrow> (Ok (), s)
         | Some e \<Rightarrow> (Err (Wrap ''processing cancelled: '' e), s)))"

section \<open>DeduplicatingProcessor\<close>

record 's DeduplicatingProcessor =
  dp_downstream :: "'s processor"
  dp_dedupTTL :: duration

definition NewDeduplicatingProcessor :: "'s processor \<Rightarrow> duration \<Rightarrow> 's DeduplicatingProcessor" where
  "NewDeduplicatingProcessor downstream ttl = \<lparr>dp_downstream = downstream, dp_dedupTTL = ttl\<rparr>"

definition dedup_key :: "JobEnvelope \<Rightarrow> string" where
  "dedup_key envelope = ''dedup:'' @ JobID envelope @ '':'' @ itoa (RetryCount envelope)"

text \<open>The counter \<open>duplicateCount\<close> is passed in and returned.\<close>

definition Dedup_Process ::
  "'s redis_client \<Rightarrow> 's DeduplicatingProcessor \<Rightarrow> ctx \<Rightarrow> JobEnvelope \<Rightarrow> int64 \<Rightarrow> 's \<Rightarrow> unit go \<times> int64 \<times> 's" where
  "Dedup_Process R p c envelope dups s =
     (case SetNX R c (dedup_key envelope) ''1'' (dp_dedupTTL p) s of
        (Inl e, s1) \<Rightarrow> (Err (Wrap ''dedup check failed: '' e), dups, s1)
      | (Inr wasNew, s1) \<Rightarrow>
          (if \<not> wasNew then (Ok (), wrap64 (dups + 1), s1)
           else case dp_downstream p envelope s1 of (r, s2) \<Rightarrow> (r, dups, s2)))"

text \<open>
  The wrapper as a processor of the worker, which never looks at the counter (it starts at
  \<open>dups\<close> here).
\<close>

definition dedup_processor :: "'s redis_client \<Rightarrow> 's DeduplicatingProcessor \<Rightarrow> ctx \<Rightarrow> int64 \<Rightarrow> 's processor" where
  "dedup_processor R p c dups envelope s =
     (case Dedup_Process R p c envelope dups s of (r, _, s') \<Rightarrow> (r, s'))"

section \<open>The contract of a processor\<close>

text \<open>
  What the worker relies on: a processor may write keys and other stores, but it leaves the
  streams and consumer groups alone.
\<close>

locale stream_safe_processor =
  fixes db :: "'s \<Rightarrow> stream_db"
    and invar :: "'s \<Rightarrow> bool"
    and process :: "'s processor"
  assumes process_safe: "\<lbrakk>invar s; process envelope s = (r, s')\<rbrakk> \<Longrightarrow> invar s' \<and> db s' = db s"

lemma DefaultProcessor_safe: "stream_safe_processor db invar (DefaultProcessor_Process ended)"
  by unfold_locales (auto simp: DefaultProcessor_Process_def split: option.splits)

lemma dedup_processor_safe:
  assumes "redis_server R db invar rank now kv" "stream_safe_processor db invar (dp_downstream p)"
  shows "stream_safe_processor db invar (dedup_processor R p c dups)"
proof
  fix s s' envelope r
  assume s: "invar s" and run: "dedup_processor R p c dups envelope s = (r, s')"
  obtain x s1 where x: "SetNX R c (dedup_key envelope) ''1'' (dp_dedupTTL p) s = (x, s1)" by fastforce
  note s1 = redis_server.setnx_streams [OF assms(1) s x]
  obtain r2 s2 where d: "dp_downstream p envelope s1 = (r2, s2)" by fastforce
  then show "invar s' \<and> db s' = db s"
    using run x s1 stream_safe_processor.process_safe [OF assms(2) _ d]
    by (auto simp: dedup_processor_def Dedup_Process_def split: sum.splits if_splits)
qed

interpretation default_proc: stream_safe_processor db invar "DefaultProcessor_Process ended"
  by (rule DefaultProcessor_safe)

interpretation dedup_mem: stream_safe_processor m_db mem_inv
    "dedup_processor memory (NewDeduplicatingProcessor (DefaultProcessor_Process ended) ttl) c dups"
  by (rule dedup_processor_safe [OF mem_server.redis_server_axioms])
    (simp add: NewDeduplicatingProcessor_def DefaultProcessor_safe)

section \<open>Facts\<close>

lemma dedup_key_inj [simp]:
  "dedup_key a = dedup_key b \<longleftrightarrow> JobID a = JobID b \<and> RetryCount a = RetryCount b"
proof
  assume "dedup_key a = dedup_key b"
  then have "JobID a @ CHR '':'' # itoa (RetryCount a) = JobID b @ CHR '':'' # itoa (RetryCount b)"
    by (simp add: dedup_key_def)
  then have "JobID a = JobID b \<and> itoa (RetryCount a) = itoa (RetryCount b)"
    by (rule split_at_last) simp_all
  then show "JobID a = JobID b \<and> RetryCount a = RetryCount b" by simp
qed (simp add: dedup_key_def)

lemma Dedup_duplicate:
  assumes "SetNX R c (dedup_key env) ''1'' (dp_dedupTTL p) s = (Inr False, s')"
  shows "Dedup_Process R p c env dups s = (Ok (), wrap64 (dups + 1), s')"
  using assms by (simp add: Dedup_Process_def)

context redis_keys
begin

text \<open>While the key of an attempt is live, the attempt is not started again.\<close>

lemma Dedup_live_key:
  assumes "Dedup_Process R p c env dups s = (r, dups', s')" "0 < dp_dedupTTL p"
    and "SetNX R c (dedup_key env) ''1'' (dp_dedupTTL p) s = (x, s1)"
    and "kv s (dedup_key env) = Some (w, dl)" "now s1 < dl"
  shows "(\<exists>e. r = Err (Wrap ''dedup check failed: '' e)) \<or> (r = Ok () \<and> dups' = wrap64 (dups + 1) \<and> s' = s1)"
proof (cases x)
  case (Inl e)
  with assms(1,3) show ?thesis by (auto simp: Dedup_Process_def)
next
  case (Inr b)
  have "\<not> b" using setnx_live [OF assms(3,2,4,5)] Inr by simp
  with assms(1,3) Inr show ?thesis by (auto simp: Dedup_Process_def)
qed

end

section \<open>Properties\<close>

text \<open>
  C26: An attempt at a job is started at most once within the lifetime of its deduplication key.
  If the key of this job and retry count was set for the first time by an earlier \<open>Process\<close>, it
  has not been deleted, and its lifetime since that moment is not over, then \<open>Process\<close> reports
  success without running the downstream processor (the outcome is the same for every
  downstream processor) and counts a duplicate, or it fails because the check itself failed. The
  next attempt of the same job has a different key, so it is not suppressed.
\<close>

theorem dedup_at_most_once:
  assumes R: "redis_keys R now kv" and ttl: "0 < dp_dedupTTL p"
    and first: "SetNX R c1 (dedup_key env) ''1'' (dp_dedupTTL p) s1 = (Inr True, s1')"
    and kept: "kv s2 (dedup_key env) = kv s1' (dedup_key env)"
    and again: "Dedup_Process R p c2 env dups s2 = (r, dups', s2')"
    and soon: "SetNX R c2 (dedup_key env) ''1'' (dp_dedupTTL p) s2 = (x, s3)" "now s3 < now s1 + set_ttl (dp_dedupTTL p)"
  shows "((\<exists>e. r = Err (Wrap ''dedup check failed: '' e)) \<or> (r = Ok () \<and> dups' = wrap64 (dups + 1) \<and> s2' = s3)) \<and>
         (\<forall>q. dp_dedupTTL q = dp_dedupTTL p \<longrightarrow> Dedup_Process R q c2 env dups s2 = (r, dups', s2')) \<and>
         dedup_key (failed_once env err) \<noteq> dedup_key env"
proof -
  obtain t where t: "now s1 \<le> t" "kv s1' (dedup_key env) = Some (''1'', t + set_ttl (dp_dedupTTL p))"
    by (rule redis_keys.setnx_sets [OF R first ttl])
  have live: "kv s2 (dedup_key env) = Some (''1'', t + set_ttl (dp_dedupTTL p))" using kept t by simp
  have dl: "now s3 < t + set_ttl (dp_dedupTTL p)" using t soon(2) by simp
  note o = redis_keys.Dedup_live_key [OF R again ttl soon(1) live dl]
  have "\<forall>q. dp_dedupTTL q = dp_dedupTTL p \<longrightarrow> Dedup_Process R q c2 env dups s2 = (r, dups', s2')"
  proof (cases x)
    case (Inl e)
    with again soon show ?thesis by (auto simp: Dedup_Process_def)
  next
    case (Inr b)
    have "\<not> b" using redis_keys.setnx_once [OF R first ttl ttl kept soon] Inr by simp
    with again soon Inr show ?thesis by (auto simp: Dedup_Process_def)
  qed
  moreover have "wrap64 (RetryCount env + 1) \<noteq> RetryCount env"
  proof
    assume "wrap64 (RetryCount env + 1) = RetryCount env"
    then have "(RetryCount env + 1 + 2 ^ 63) mod 2 ^ 64 = (RetryCount env + 2 ^ 63 :: int)" by (simp add: wrap64_def)
    then have "(RetryCount env + 1 + 2 ^ 63) mod 2 ^ 64 = (RetryCount env + 2 ^ 63) mod 2 ^ 64"
      by (metis mod_mod_trivial)
    then have "((RetryCount env + 1 + 2 ^ 63) - (RetryCount env + 2 ^ 63)) mod 2 ^ 64 = (0 :: int)"
      by (simp only: mod_eq_dvd_iff dvd_imp_mod_0)
    then show False by simp
  qed
  ultimately show ?thesis using o by simp
qed

definition demo_dedup :: "mem DeduplicatingProcessor" where
  "demo_dedup = NewDeduplicatingProcessor (DefaultProcessor_Process None) (1 * Hour)"

theorem dedup_at_most_once_witness:
  "\<exists>s1 s2. SetNX memory None (dedup_key demo_envelope) ''1'' (1 * Hour) (mem_init 0 []) = (Inr True, s1) \<and>
     Dedup_Process memory demo_dedup None demo_envelope 4 (mem_advance (30 * Minute) s1) = (Ok (), 5, s2)"
proof -
  let ?k = "dedup_key demo_envelope"
  define s1 where "s1 = (mem_init 0 [])\<lparr>m_kv := (\<lambda>_. None)(?k := Some (''1'', 1 * Hour))\<rparr>"
  define s2 where "s2 = mem_advance (30 * Minute) s1"
  have ttl: "dp_dedupTTL demo_dedup = 1 * Hour" by (simp add: demo_dedup_def NewDeduplicatingProcessor_def)
  have first: "SetNX memory None ?k ''1'' (dp_dedupTTL demo_dedup) (mem_init 0 []) = (Inr True, s1)"
    by (simp add: ttl memory_def mem_SetNX_def live_at_def mem_init_def s1_def set_ttl_def)
  have soon: "SetNX memory None ?k ''1'' (dp_dedupTTL demo_dedup) s2 = (Inr False, s2)"
    by (simp add: memory_def mem_SetNX_def live_at_def s2_def s1_def mem_advance_def mem_init_def)
  obtain r d s3 where again: "Dedup_Process memory demo_dedup None demo_envelope 4 s2 = (r, d, s3)"
    using prod_cases3 by blast
  have "m_kv s2 ?k = m_kv s1 ?k" by (simp add: s2_def mem_advance_def)
  moreover have "m_now s2 < m_now (mem_init 0 []) + set_ttl (dp_dedupTTL demo_dedup)"
    by (simp add: ttl s2_def s1_def mem_advance_def mem_init_def set_ttl_def)
  ultimately have "(\<exists>e. r = Err (Wrap ''dedup check failed: '' e)) \<or> (r = Ok () \<and> d = wrap64 (4 + 1) \<and> s3 = s2)"
    using dedup_at_most_once [OF mem_keys.redis_keys_axioms _ first _ again soon] ttl by simp
  moreover have "r = Ok ()" using again soon by (simp add: Dedup_Process_def)
  ultimately show ?thesis using first again ttl by (auto simp: s2_def wrap64_def)
qed

end
