(* ===== verification/Registry.thy ===== *)
theory Registry
  imports Configuration Redis_Memory
begin

text \<open>
  \<open>internal/registry/registry.go\<close> and \<open>types.go\<close>: the records of the running workers, kept as Redis
  hashes, and the test whether a worker is alive. A point in time is a number of seconds since
  the epoch where the code uses \<open>Unix()\<close>, and of nanoseconds where it uses \<open>time.Since\<close>.
\<close>

section \<open>Records\<close>

definition workerKeyPrefix :: string where "workerKeyPrefix = ''worker:registry:''"
definition fieldLastSeen :: string where "fieldLastSeen = ''last_seen''"
definition fieldStartedAt :: string where "fieldStartedAt = ''started_at''"
definition fieldWorkerID :: string where "fieldWorkerID = ''worker_id''"

lemmas registry_names [simp] = fieldLastSeen_def fieldStartedAt_def fieldWorkerID_def

text \<open>\<open>LastSeen\<close> and \<open>StartedAt\<close> are \<open>time.Unix(x, 0)\<close>; the record keeps the \<open>x\<close>.\<close>

record WorkerInfo =
  wi_WorkerID :: string
  wi_LastSeen :: int64
  wi_StartedAt :: int64

definition IsAlive :: "WorkerInfo \<Rightarrow> int \<Rightarrow> duration \<Rightarrow> bool" where
  "IsAlive w now threshold \<longleftrightarrow> saturate64 (now - wi_LastSeen w * Second) < threshold"

text \<open>The registry: the client is an argument of its operations.\<close>

record Registry =
  rg_config :: RegistryConfig

definition NewRegistry :: "RegistryConfig \<Rightarrow> Registry" where
  "NewRegistry cfg = \<lparr>rg_config = cfg\<rparr>"

definition workerKey :: "string \<Rightarrow> string" where
  "workerKey workerID = workerKeyPrefix @ workerID"

text \<open>A missing field of a Go map reads as the empty string.\<close>

definition map_get :: "fields \<Rightarrow> string \<Rightarrow> string" where
  "map_get fs f = (case map_of fs f of None \<Rightarrow> '''' | Some v \<Rightarrow> v)"

definition go_quote :: "string \<Rightarrow> string" where
  "go_quote s = CHR 0x22 # s @ [CHR 0x22]"

text \<open>
  The error texts carry the offending value in quotes (verb \<open>%q\<close>, written here without the escapes
  of unprintable characters); the cause of \<open>strconv\<close> is a sentinel.
\<close>

definition parseWorkerInfo :: "fields \<Rightarrow> WorkerInfo go" where
  "parseWorkerInfo fs =
     (let workerID = map_get fs fieldWorkerID in
      if workerID = '''' then Err (ErrorString (''missing required field '' @ go_quote fieldWorkerID))
      else case ParseInt (map_get fs fieldLastSeen) of
             None \<Rightarrow> Err (Wrap (''invalid last_seen '' @ go_quote (map_get fs fieldLastSeen) @ '': '')
                           (Sentinel ''strconv''))
           | Some lastSeen \<Rightarrow>
             (case ParseInt (map_get fs fieldStartedAt) of
                None \<Rightarrow> Err (Wrap (''invalid started_at '' @ go_quote (map_get fs fieldStartedAt) @ '': '')
                              (Sentinel ''strconv''))
              | Some startedAt \<Rightarrow>
                  Ok \<lparr>wi_WorkerID = workerID, wi_LastSeen = lastSeen, wi_StartedAt = startedAt\<rparr>))"

section \<open>Operations\<close>

definition Register :: "'s redis_client \<Rightarrow> ctx \<Rightarrow> int64 \<Rightarrow> string \<Rightarrow> 's \<Rightarrow> goerror option \<times> 's" where
  "Register R c now workerID s =
     (case HSet R c (workerKey workerID)
             [(fieldWorkerID, workerID), (fieldLastSeen, itoa now), (fieldStartedAt, itoa now)] s of
        (Inl e, s') \<Rightarrow> (Some (Wrap (''failed to register worker '' @ workerID @ '': '') e), s')
      | (Inr n, s') \<Rightarrow> (None, s'))"

definition Heartbeat :: "'s redis_client \<Rightarrow> ctx \<Rightarrow> int64 \<Rightarrow> string \<Rightarrow> 's \<Rightarrow> goerror option \<times> 's" where
  "Heartbeat R c now workerID s =
     (case HSet R c (workerKey workerID) [(fieldLastSeen, itoa now)] s of
        (Inl e, s') \<Rightarrow> (Some (Wrap (''failed to heartbeat worker '' @ workerID @ '': '') e), s')
      | (Inr n, s') \<Rightarrow> (None, s'))"

definition Deregister :: "'s redis_client \<Rightarrow> ctx \<Rightarrow> string \<Rightarrow> 's \<Rightarrow> goerror option \<times> 's" where
  "Deregister R c workerID s =
     (case Del R c (workerKey workerID) s of
        (Inl e, s') \<Rightarrow> (Some (Wrap (''failed to deregister worker '' @ workerID @ '': '') e), s')
      | (Inr n, s') \<Rightarrow> (None, s'))"

text \<open>\<open>Ok None\<close> is the result \<open>nil, nil\<close> for a worker that does not exist.\<close>

definition GetWorker :: "'s redis_client \<Rightarrow> ctx \<Rightarrow> string \<Rightarrow> 's \<Rightarrow> WorkerInfo option go \<times> 's" where
  "GetWorker R c workerID s =
     (case HGetAll R c (workerKey workerID) s of
        (Inl e, s') \<Rightarrow> (Err (Wrap (''failed to get worker '' @ workerID @ '': '') e), s')
      | (Inr fs, s') \<Rightarrow>
          (if fs = [] then (Ok None, s') else (bind_go (parseWorkerInfo fs) (\<lambda>w. Ok (Some w)), s')))"

fun list_workers :: "'s redis_client \<Rightarrow> (nat \<Rightarrow> ctx) \<Rightarrow> nat \<Rightarrow> string list \<Rightarrow> 's \<Rightarrow> WorkerInfo list \<times> 's" where
  "list_workers R cx j [] s = ([], s)"
| "list_workers R cx j (key # keys) s =
     (case HGetAll R (cx j) key s of
        (Inl e, s1) \<Rightarrow> list_workers R cx (Suc j) keys s1
      | (Inr fs, s1) \<Rightarrow>
          (case list_workers R cx (Suc j) keys s1 of
             (ws, s2) \<Rightarrow>
               (if fs = [] then (ws, s2)
                else case parseWorkerInfo fs of Ok w \<Rightarrow> (w # ws, s2) | _ \<Rightarrow> (ws, s2))))"

definition ListWorkers :: "'s redis_client \<Rightarrow> (nat \<Rightarrow> ctx) \<Rightarrow> 's \<Rightarrow> WorkerInfo list go \<times> 's" where
  "ListWorkers R cx s =
     (case Keys R (cx 0) (workerKeyPrefix @ ''*'') s of
        (Inl e, s') \<Rightarrow> (Err (Wrap ''failed to list worker keys: '' e), s')
      | (Inr keys, s') \<Rightarrow> (case list_workers R cx 1 keys s' of (ws, s'') \<Rightarrow> (Ok ws, s'')))"

section \<open>Facts\<close>

lemma workerKey_inj [simp]: "workerKey a = workerKey b \<longleftrightarrow> a = b"
  by (simp add: workerKey_def)

lemma list_workers_cong:
  assumes "\<And>c key s r s'. HGetAll R c key s = (r, s') \<Longrightarrow> hv s' = hv s"
  shows "hv (snd (list_workers R cx j keys s)) = hv s"
proof (induction keys arbitrary: j s)
  case (Cons key keys)
  obtain r s1 where "HGetAll R (cx j) key s = (r, s1)" by fastforce
  with assms [OF this] Cons.IH [of "Suc j" s1] show ?case
    by (auto split: sum.splits prod.splits go.splits)
qed simp

text \<open>What the record of a worker says.\<close>

definition worker_record :: "hashview \<Rightarrow> string \<Rightarrow> WorkerInfo option" where
  "worker_record hv workerID =
     (case (hv (workerKey workerID) fieldWorkerID, hv (workerKey workerID) fieldLastSeen,
            hv (workerKey workerID) fieldStartedAt) of
        (Some i, Some l, Some st) \<Rightarrow>
          (case (ParseInt l, ParseInt st) of
             (Some l', Some st') \<Rightarrow>
               if i = '''' then None else Some \<lparr>wi_WorkerID = i, wi_LastSeen = l', wi_StartedAt = st'\<rparr>
           | _ \<Rightarrow> None)
      | _ \<Rightarrow> None)"

lemma parseWorkerInfo_record:
  assumes "map_of fs = hv (workerKey i)" "worker_record hv i = Some w"
  shows "fs \<noteq> [] \<and> parseWorkerInfo fs = Ok w"
  using assms
  by (auto simp: worker_record_def parseWorkerInfo_def map_get_def assms(1) [symmetric]
      split: option.splits if_splits)

context redis_hashes
begin

lemma Register_record:
  assumes "Register R c now i s = (None, s')" "i \<noteq> ''''" "in64 now"
  shows "worker_record (hv s') i = Some \<lparr>wi_WorkerID = i, wi_LastSeen = now, wi_StartedAt = now\<rparr> \<and>
         (\<forall>j. j \<noteq> i \<longrightarrow> worker_record (hv s') j = worker_record (hv s) j)"
proof -
  from assms(1) obtain n where "HSet R c (workerKey i)
      [(fieldWorkerID, i), (fieldLastSeen, itoa now), (fieldStartedAt, itoa now)] s = (Inr n, s')"
    by (auto simp: Register_def split: prod.splits sum.splits)
  from hset_ok [OF this] assms(2,3) show ?thesis
    by (simp add: worker_record_def hash_put_def)
qed

lemma Heartbeat_record:
  assumes "Heartbeat R c now i s = (None, s')" "in64 now" "worker_record (hv s) i = Some w"
  shows "worker_record (hv s') i = Some (w\<lparr>wi_LastSeen := now\<rparr>)"
proof -
  from assms(1) obtain n where "HSet R c (workerKey i) [(fieldLastSeen, itoa now)] s = (Inr n, s')"
    by (auto simp: Heartbeat_def split: prod.splits sum.splits)
  from hset_ok [OF this] assms(2,3) show ?thesis
    by (auto simp: worker_record_def hash_put_def split: option.splits if_splits)
qed

lemma GetWorker_record:
  assumes "worker_record (hv s) i = Some w" "GetWorker R c i s = (r, s')"
  shows "hv s' = hv s \<and> (r = Ok (Some w) \<or> (\<exists>e. r = Err (Wrap (''failed to get worker '' @ i @ '': '') e)))"
proof -
  obtain x s1 where x: "HGetAll R c (workerKey i) s = (x, s1)" by fastforce
  show ?thesis
  proof (cases x)
    case (Inl e)
    with assms(2) x hgetall_same [OF x] show ?thesis by (auto simp: GetWorker_def)
  next
    case (Inr fs)
    from parseWorkerInfo_record [OF hgetall_ok [OF x [unfolded Inr]] assms(1)]
    show ?thesis using assms(2) x Inr hgetall_same [OF x] by (auto simp: GetWorker_def)
  qed
qed

end

section \<open>Properties\<close>

text \<open>
  C32: The registry returns what was registered. After \<open>Register\<close> at \<open>t0\<close> and \<open>Heartbeat\<close> at \<open>t1\<close>,
  \<open>GetWorker\<close> returns the worker with \<open>LastSeen\<close> \<open>t1\<close> and \<open>StartedAt\<close> \<open>t0\<close> unless Redis fails; it
  counts as alive exactly while the time since the heartbeat is below the threshold; other workers'
  records are untouched by the registration; and after \<open>Deregister\<close> the worker does not exist.
\<close>

theorem registry_lifecycle:
  assumes R: "redis_hashes R hv" and i: "i \<noteq> ''''" "in64 t0" "in64 t1"
    and reg: "Register R c0 t0 i s0 = (None, s1)"
    and beat: "Heartbeat R c1 t1 i s1 = (None, s2)"
    and get: "GetWorker R c2 i s2 = (r, s3)"
    and dereg: "Deregister R c3 i s3 = (None, s4)"
    and get': "GetWorker R c4 i s4 = (r', s5)"
  shows "(r = Ok (Some \<lparr>wi_WorkerID = i, wi_LastSeen = t1, wi_StartedAt = t0\<rparr>) \<or>
          (\<exists>e. r = Err (Wrap (''failed to get worker '' @ i @ '': '') e))) \<and>
         (in64 (now - t1 * Second) \<longrightarrow>
            (IsAlive \<lparr>wi_WorkerID = i, wi_LastSeen = t1, wi_StartedAt = t0\<rparr> now threshold
              \<longleftrightarrow> now - t1 * Second < threshold)) \<and>
         (\<forall>j. j \<noteq> i \<longrightarrow> worker_record (hv s1) j = worker_record (hv s0) j) \<and>
         (r' = Ok None \<or> (\<exists>e. r' = Err (Wrap (''failed to get worker '' @ i @ '': '') e)))"
proof -
  note r1 = redis_hashes.Register_record [OF R reg i(1,2)]
  have "worker_record (hv s2) i = Some \<lparr>wi_WorkerID = i, wi_LastSeen = t1, wi_StartedAt = t0\<rparr>"
    using redis_hashes.Heartbeat_record [OF R beat i(3)] r1 by simp
  note r2 = redis_hashes.GetWorker_record [OF R this get]
  from dereg obtain n where "Del R c3 (workerKey i) s3 = (Inr n, s4)"
    by (auto simp: Deregister_def split: prod.splits sum.splits)
  then have gone: "hv s4 (workerKey i) = Map.empty" using redis_hashes.hdel_ok [OF R] by simp
  have "r' = Ok None \<or> (\<exists>e. r' = Err (Wrap (''failed to get worker '' @ i @ '': '') e))"
    using get' gone redis_hashes.hgetall_ok [OF R, of c4 "workerKey i" s4]
    by (auto simp: GetWorker_def split: prod.splits sum.splits if_splits)
  moreover have "in64 (now - t1 * Second) \<longrightarrow>
      (IsAlive \<lparr>wi_WorkerID = i, wi_LastSeen = t1, wi_StartedAt = t0\<rparr> now threshold
        \<longleftrightarrow> now - t1 * Second < threshold)"
    by (auto simp: IsAlive_def saturate64_def in64_def)
  ultimately show ?thesis using r1 r2 by auto
qed

theorem registry_lifecycle_witness:
  "\<exists>s1 s2 s3 s4 s5 r r'. Register memory None 100 ''worker-a-1'' (mem_init 0 []) = (None, s1) \<and>
     Heartbeat memory None 110 ''worker-a-1'' s1 = (None, s2) \<and>
     GetWorker memory None ''worker-a-1'' s2 = (r, s3) \<and>
     (r = Ok (Some \<lparr>wi_WorkerID = ''worker-a-1'', wi_LastSeen = 110, wi_StartedAt = 100\<rparr>) \<or> (\<exists>e. r = Err e)) \<and>
     Deregister memory None ''worker-a-1'' s3 = (None, s4) \<and>
     GetWorker memory None ''worker-a-1'' s4 = (r', s5) \<and> (r' = Ok None \<or> (\<exists>e. r' = Err e))"
proof -
  let ?i = "''worker-a-1''"
  obtain s1 where reg: "Register memory None 100 ?i (mem_init 0 []) = (None, s1)" and f1: "m_faults s1 = []"
    by (auto simp: Register_def memory_def mem_HSet_def Let_def)
  obtain s2 where beat: "Heartbeat memory None 110 ?i s1 = (None, s2)" and f2: "m_faults s2 = []"
    using f1 by (auto simp: Heartbeat_def memory_def mem_HSet_def Let_def)
  obtain r s3 where get: "GetWorker memory None ?i s2 = (r, s3)" by fastforce
  then have f3: "m_faults s3 = []" using f2
    by (auto simp: GetWorker_def memory_def mem_HGetAll_def split: if_splits)
  obtain s4 where dereg: "Deregister memory None ?i s3 = (None, s4)"
    using f3 by (auto simp: Deregister_def memory_def mem_Del_def)
  obtain r' s5 where get': "GetWorker memory None ?i s4 = (r', s5)" by fastforce
  from registry_lifecycle [OF mem_hashes.redis_hashes_axioms _ _ _ reg beat get dereg get'] reg beat get dereg get'
  show ?thesis by (auto simp: in64_def)
qed

end
