(* ===== verification/Http_Response.thy ===== *)
theory Http_Response
  imports Models
begin

text \<open>
  \<open>internal/ingestion/response.go\<close> and \<open>middleware.go\<close>, and \<open>respondJSON\<close> of \<open>internal/health/http.go\<close>.
  What a handler does to its \<open>http.ResponseWriter\<close> is the list of its calls. Two writers interpret
  such a list: \<open>conn\<close>, the writer of \<open>net/http\<close> (the first \<open>WriteHeader\<close> counts, a \<open>Write\<close> before it sends
  200, and the headers are fixed from then on), and the wrapper \<open>responseWriter\<close> of the logging middleware,
  which passes every call on.
\<close>

section \<open>Writers\<close>

datatype http_op = HeaderSet string string | WriteHeader int64 | WriteBytes string

record conn =
  cn_header :: "(string \<times> string) list"
  cn_status :: "int64 option"
  cn_sent :: "(string \<times> string) list"
  cn_body :: string

definition new_conn :: conn where
  "new_conn = \<lparr>cn_header = [], cn_status = None, cn_sent = [], cn_body = ''''\<rparr>"

definition header_set :: "string \<Rightarrow> string \<Rightarrow> (string \<times> string) list \<Rightarrow> (string \<times> string) list" where
  "header_set k v h = filter (\<lambda>x. fst x \<noteq> k) h @ [(k, v)]"

definition header_get :: "(string \<times> string) list \<Rightarrow> string \<Rightarrow> string" where
  "header_get h k = (case map_of h k of None \<Rightarrow> '''' | Some v \<Rightarrow> v)"

definition conn_WriteHeader :: "int64 \<Rightarrow> conn \<Rightarrow> conn" where
  "conn_WriteHeader code c =
     (if cn_status c = None then c\<lparr>cn_status := Some code, cn_sent := cn_header c\<rparr> else c)"

fun conn_op :: "http_op \<Rightarrow> conn \<Rightarrow> conn" where
  "conn_op (HeaderSet k v) c = c\<lparr>cn_header := header_set k v (cn_header c)\<rparr>"
| "conn_op (WriteHeader code) c = conn_WriteHeader code c"
| "conn_op (WriteBytes b) c = (conn_WriteHeader 200 c)\<lparr>cn_body := cn_body c @ b\<rparr>"

text \<open>When the handler returns, the server sends 200 if nothing has been sent.\<close>

definition serve_conn :: "http_op list \<Rightarrow> conn" where
  "serve_conn ops = conn_WriteHeader 200 (fold conn_op ops new_conn)"

definition StatusOK :: int64 where "StatusOK = 200"
definition StatusAccepted :: int64 where "StatusAccepted = 202"
definition StatusBadRequest :: int64 where "StatusBadRequest = 400"
definition StatusTooManyRequests :: int64 where "StatusTooManyRequests = 429"
definition StatusInternalServerError :: int64 where "StatusInternalServerError = 500"
definition StatusServiceUnavailable :: int64 where "StatusServiceUnavailable = 503"

lemmas http_status = StatusOK_def StatusAccepted_def StatusBadRequest_def StatusTooManyRequests_def
  StatusInternalServerError_def StatusServiceUnavailable_def

section \<open>The wrapper of the middleware\<close>

record responseWriter =
  rw_inner :: conn
  rw_statusCode :: int64
  rw_bytesWritten :: int64

definition rw_WriteHeader :: "int64 \<Rightarrow> responseWriter \<Rightarrow> responseWriter" where
  "rw_WriteHeader code rw = rw\<lparr>rw_statusCode := code, rw_inner := conn_op (WriteHeader code) (rw_inner rw)\<rparr>"

definition rw_Write :: "string \<Rightarrow> responseWriter \<Rightarrow> responseWriter" where
  "rw_Write b rw = rw\<lparr>rw_inner := conn_op (WriteBytes b) (rw_inner rw),
                      rw_bytesWritten := wrap64 (rw_bytesWritten rw + int (length b))\<rparr>"

fun rw_op :: "http_op \<Rightarrow> responseWriter \<Rightarrow> responseWriter" where
  "rw_op (HeaderSet k v) rw = rw\<lparr>rw_inner := conn_op (HeaderSet k v) (rw_inner rw)\<rparr>"
| "rw_op (WriteHeader code) rw = rw_WriteHeader code rw"
| "rw_op (WriteBytes b) rw = rw_Write b rw"

text \<open>
  The middleware: the connection after the handler, and the arguments of \<open>LogHTTPRequest\<close> (the
  duration apart).
\<close>

definition loggingMiddleware :: "string \<Rightarrow> string \<Rightarrow> http_op list \<Rightarrow> conn \<times> (string \<times> string \<times> int64 \<times> int64)" where
  "loggingMiddleware req_method path ops =
     (let wrapped = fold rw_op ops \<lparr>rw_inner = new_conn, rw_statusCode = StatusOK, rw_bytesWritten = 0\<rparr>
      in (conn_WriteHeader 200 (rw_inner wrapped), (req_method, path, rw_statusCode wrapped, rw_bytesWritten wrapped)))"

section \<open>JSON responses\<close>

record IngestResponse =
  ir_Accepted :: bool
  ir_ID :: string

record ErrorResponse =
  er_Error :: string

definition json_of_IngestResponse :: "IngestResponse \<Rightarrow> json" where
  "json_of_IngestResponse r = JObj ((''accepted'', JBool (ir_Accepted r)) # omitempty ''id'' (ir_ID r))"

definition json_of_ErrorResponse :: "ErrorResponse \<Rightarrow> json" where
  "json_of_ErrorResponse r = JObj [(''error'', JStr (quote_body (er_Error r)))]"

text \<open>\<open>json.NewEncoder(w).Encode(data)\<close>: one write of the text and a newline.\<close>

definition encode_to :: "json \<Rightarrow> http_op" where
  "encode_to j = WriteBytes (print_json j @ [CHR 0x0A])"

text \<open>\<open>hdrs\<close> are the headers set so far. The responses always encode.\<close>

definition respondJSON :: "(string \<times> string) list \<Rightarrow> int64 \<Rightarrow> json \<Rightarrow> http_op list" where
  "respondJSON hdrs status data =
     (if header_get hdrs ''Content-Type'' = '''' then [HeaderSet ''Content-Type'' ''application/json''] else [])
     @ [WriteHeader status, encode_to data]"

definition respondError :: "(string \<times> string) list \<Rightarrow> int64 \<Rightarrow> string \<Rightarrow> http_op list" where
  "respondError hdrs status message = respondJSON hdrs status (json_of_ErrorResponse \<lparr>er_Error = message\<rparr>)"

text \<open>The helper of the same name in the health package.\<close>

definition health_respondJSON :: "int64 \<Rightarrow> json \<Rightarrow> http_op list" where
  "health_respondJSON status data =
     [HeaderSet ''Content-Type'' ''application/json'', WriteHeader status, encode_to data]"

section \<open>Facts\<close>

lemma header_get_set [simp]: "header_get (header_set k v h) k' = (if k' = k then v else header_get h k')"
proof -
  have "map_of (filter (\<lambda>x. fst x \<noteq> k) h) k = None" by (auto simp: map_of_eq_None_iff)
  moreover have "k' \<noteq> k \<Longrightarrow> map_of (filter (\<lambda>x. fst x \<noteq> k) h) k' = map_of h k'"
    by (induction h) auto
  ultimately show ?thesis
    by (auto simp: header_get_def header_set_def map_add_def split: option.splits)
qed

lemma header_get_Nil [simp]: "header_get [] k = ''''"
  by (simp add: header_get_def)

lemma rw_inner_fold: "rw_inner (fold rw_op ops rw) = fold conn_op ops (rw_inner rw)"
proof (induction ops arbitrary: rw)
  case (Cons x ops)
  then show ?case by (cases x) (simp_all add: rw_WriteHeader_def rw_Write_def)
qed simp

text \<open>A response: some headers, one status, one body.\<close>

definition simple_ops :: "(string \<times> string) list \<Rightarrow> int64 \<Rightarrow> string \<Rightarrow> http_op list" where
  "simple_ops hs status body = map (\<lambda>(k, v). HeaderSet k v) hs @ [WriteHeader status, WriteBytes body]"

lemma fold_headers:
  "fold conn_op (map (\<lambda>(k, v). HeaderSet k v) hs) c = c\<lparr>cn_header := fold (\<lambda>(k, v). header_set k v) hs (cn_header c)\<rparr>"
  by (induction hs arbitrary: c) auto

lemma serve_simple:
  "serve_conn (simple_ops hs status body) =
     \<lparr>cn_header = fold (\<lambda>(k, v). header_set k v) hs [], cn_status = Some status,
      cn_sent = fold (\<lambda>(k, v). header_set k v) hs [], cn_body = body\<rparr>"
  by (simp add: serve_conn_def simple_ops_def fold_headers new_conn_def conn_WriteHeader_def)

lemma rw_headers:
  "fold rw_op (map (\<lambda>(k, v). HeaderSet k v) hs) rw =
     rw\<lparr>rw_inner := fold conn_op (map (\<lambda>(k, v). HeaderSet k v) hs) (rw_inner rw)\<rparr>"
  by (induction hs arbitrary: rw) auto

lemma respondJSON_simple:
  "header_get hs ''Content-Type'' = '''' \<Longrightarrow>
   map (\<lambda>(k, v). HeaderSet k v) hs @ respondJSON hs status data =
     simple_ops (hs @ [(''Content-Type'', ''application/json'')]) status (print_json data @ [CHR 0x0A])"
  by (simp add: respondJSON_def simple_ops_def encode_to_def)

text \<open>What the middleware sends and logs for such a response.\<close>

lemma loggingMiddleware_conn: "fst (loggingMiddleware req_method path ops) = serve_conn ops"
  by (simp add: loggingMiddleware_def Let_def serve_conn_def rw_inner_fold)

lemma loggingMiddleware_simple:
  "loggingMiddleware req_method path (simple_ops hs status body) =
     (serve_conn (simple_ops hs status body), (req_method, path, status, wrap64 (int (length body))))"
  using loggingMiddleware_conn [of req_method path "simple_ops hs status body"]
  by (simp add: loggingMiddleware_def Let_def simple_ops_def rw_headers rw_WriteHeader_def rw_Write_def)

section \<open>Properties\<close>



end
