(* ===== verification/Http_Server.thy ===== *)
theory Http_Server
  imports Http_Response
begin

text \<open>
  What the services use of \<open>net/http\<close> around their handlers: the request multiplexer with its method
  patterns, the plain text errors it sends itself, and the server as its address, handler and
  timeouts. A handler is a function of the request and of the state, with its calls on the
  response writer as result; \<open>Panic\<close> unwinds into \<open>net/http\<close>, which aborts the connection.
\<close>

section \<open>Requests and handlers\<close>

record request =
  rq_Method :: string
  rq_Path :: string
  rq_Body :: string
  rq_Context :: "goerror option"

type_synonym 's handler = "request \<Rightarrow> 's \<Rightarrow> http_op list go \<times> 's"

section \<open>The multiplexer\<close>

text \<open>
  How \<open>http.ServeMux\<close> picks the handler for a clean path: the pattern with this path whose method fits
  (a \<open>GET\<close> pattern also takes \<open>HEAD\<close>); 405 when only the method differs, else 404.
\<close>

datatype 'h dispatch = Matched 'h | MethodNotAllowed | NotFound

definition method_fits :: "string \<Rightarrow> string \<Rightarrow> bool" where
  "method_fits pattern req_method \<longleftrightarrow> pattern = req_method \<or> (pattern = ''GET'' \<and> req_method = ''HEAD'')"

definition mux_dispatch :: "((string \<times> string) \<times> 'h) list \<Rightarrow> string \<Rightarrow> string \<Rightarrow> 'h dispatch" where
  "mux_dispatch rs req_method path =
     (case filter (\<lambda>((m, p), h). p = path \<and> method_fits m req_method) rs of
        (_, h) # _ \<Rightarrow> Matched h
      | [] \<Rightarrow> if path \<in> (snd \<circ> fst) ` set rs then MethodNotAllowed else NotFound)"

text \<open>\<open>http.Error\<close>.\<close>

definition http_Error :: "string \<Rightarrow> int64 \<Rightarrow> http_op list" where
  "http_Error text_body status =
     [HeaderSet ''Content-Type'' ''text/plain; charset=utf-8'', HeaderSet ''X-Content-Type-Options'' ''nosniff'',
      WriteHeader status, WriteBytes (text_body @ [CHR 0x0A])]"

definition StatusNotFound :: int64 where "StatusNotFound = 404"
definition StatusMethodNotAllowed :: int64 where "StatusMethodNotAllowed = 405"

definition mux_ServeHTTP :: "((string \<times> string) \<times> 's handler) list \<Rightarrow> 's handler" where
  "mux_ServeHTTP rs rq s =
     (case mux_dispatch rs (rq_Method rq) (rq_Path rq) of
        Matched h \<Rightarrow> h rq s
      | MethodNotAllowed \<Rightarrow> (Ok (http_Error ''Method Not Allowed'' StatusMethodNotAllowed), s)
      | NotFound \<Rightarrow> (Ok (http_Error ''404 page not found'' StatusNotFound), s))"

lemma serve_http_Error [simp]: "cn_status (serve_conn (http_Error b st)) = Some st"
  by (simp add: http_Error_def serve_conn_def new_conn_def conn_WriteHeader_def)

lemma mux_dispatch_map:
  "mux_dispatch (map (\<lambda>(pat, h). (pat, f h)) rs) m p =
     (case mux_dispatch rs m p of Matched h \<Rightarrow> Matched (f h) | MethodNotAllowed \<Rightarrow> MethodNotAllowed | NotFound \<Rightarrow> NotFound)"
proof -
  have "filter (\<lambda>((m', p'), h). p' = p \<and> method_fits m' m) (map (\<lambda>(pat, h). (pat, f h)) rs) =
        map (\<lambda>(pat, h). (pat, f h)) (filter (\<lambda>((m', p'), h). p' = p \<and> method_fits m' m) rs)"
    by (induction rs) auto
  moreover have "(snd \<circ> fst) ` set (map (\<lambda>(pat, h). (pat, f h)) rs) = (snd \<circ> fst) ` set rs"
    by (force simp: image_iff)
  ultimately show ?thesis
    by (simp add: mux_dispatch_def split: list.splits prod.splits)
qed

section \<open>The server\<close>

text \<open>
  What a server does with a request: the connection at the end and the arguments of the calls of \<open>LogHTTPRequest\<close> (the
  duration apart), or \<open>None\<close> when the handler panicked, which aborts the connection.
\<close>

type_synonym access_log = "string \<times> string \<times> int64 \<times> int64"

type_synonym 's served = "request \<Rightarrow> 's \<Rightarrow> (conn \<times> access_log list) option \<times> 's"

text \<open>A handler on its own, and behind the logging middleware, which does not recover from panics.\<close>

definition serve_plain :: "'s handler \<Rightarrow> 's served" where
  "serve_plain h rq s = (case h rq s of (Ok ops, s') \<Rightarrow> (Some (serve_conn ops, []), s') | (_, s') \<Rightarrow> (None, s'))"

definition serve_logged :: "'s handler \<Rightarrow> 's served" where
  "serve_logged h rq s =
     (case h rq s of
        (Ok ops, s') \<Rightarrow> (case loggingMiddleware (rq_Method rq) (rq_Path rq) ops of (c, line) \<Rightarrow> (Some (c, [line]), s'))
      | (_, s') \<Rightarrow> (None, s'))"

record 'h http_server =
  hs_Addr :: string
  hs_Handler :: 'h
  hs_ReadTimeout :: duration
  hs_WriteTimeout :: duration
  hs_IdleTimeout :: duration

definition ErrServerClosed :: goerror where "ErrServerClosed = Sentinel ''http: Server closed''"

end
