(* ===== verification/Health.thy ===== *)
theory Health
  imports Http_Server Redis_Memory
begin

text \<open>
  \<open>internal/health\<close>: the health checkers, the aggregator that runs them concurrently with a timeout and
  recovers from their panics, and the HTTP endpoints. A checker is its name and what its goroutine
  brings about when it runs; the order in which the goroutines run is an argument.
\<close>

section \<open>Checkers\<close>

text \<open>
  What \<open>runCheckSafe\<close> sees of a check: it returned an error or \<open>nil\<close>, it panicked with a value (as
  text), or the context ended first. The number is \<open>time.Since(start)\<close>.
\<close>

datatype check_run =
    CheckReturned "goerror option" duration
  | CheckPanicked string duration
  | CheckTimeout duration

text \<open>A value of the interface \<open>HealthChecker\<close>: its name, and what its goroutine brings about.\<close>

record 's HealthChecker =
  hc_Name :: string
  hc_Check :: "'s \<Rightarrow> check_run \<times> 's"

record 's RedisChecker =
  rc_client :: "'s redis_client"

definition NewRedisChecker :: "'s redis_client \<Rightarrow> 's RedisChecker" where
  "NewRedisChecker client = \<lparr>rc_client = client\<rparr>"

definition RedisChecker_Check :: "'s RedisChecker \<Rightarrow> ctx \<Rightarrow> 's \<Rightarrow> goerror option \<times> 's" where
  "RedisChecker_Check r c s =
     (case Ping (rc_client r) c s of
        (Inl e, s') \<Rightarrow> (Some (Wrap ''redis ping failed: '' e), s')
      | (Inr _, s') \<Rightarrow> (None, s'))"

definition RedisChecker_Name :: string where "RedisChecker_Name = ''redis''"

text \<open>The Postgres checker. The pool of \<open>pgx\<close> is only pinged: it is an argument.\<close>

record 's PostgresChecker =
  pc_pool :: "ctx \<Rightarrow> 's \<Rightarrow> goerror option \<times> 's"

definition NewPostgresChecker :: "(ctx \<Rightarrow> 's \<Rightarrow> goerror option \<times> 's) \<Rightarrow> 's PostgresChecker" where
  "NewPostgresChecker pool = \<lparr>pc_pool = pool\<rparr>"

definition PostgresChecker_Check :: "'s PostgresChecker \<Rightarrow> ctx \<Rightarrow> 's \<Rightarrow> goerror option \<times> 's" where
  "PostgresChecker_Check p c s =
     (case pc_pool p c s of
        (Some e, s') \<Rightarrow> (Some (Wrap ''postgres ping failed: '' e), s')
      | (None, s') \<Rightarrow> (None, s'))"

definition PostgresChecker_Name :: string where "PostgresChecker_Name = ''postgres''"

text \<open>
  The checkers as values of the interface. \<open>c\<close> is the context of the check, \<open>late\<close> tells whether the
  answer comes after the context has ended, and \<open>d\<close> is the time it takes.
\<close>

definition check_goroutine :: "(ctx \<Rightarrow> 's \<Rightarrow> goerror option \<times> 's) \<Rightarrow> ctx \<Rightarrow> bool \<Rightarrow> duration \<Rightarrow> 's \<Rightarrow> check_run \<times> 's" where
  "check_goroutine check c late d s =
     (case check c s of (r, s') \<Rightarrow> (if late then CheckTimeout d else CheckReturned r d, s'))"

definition redis_HealthChecker :: "'s RedisChecker \<Rightarrow> ctx \<Rightarrow> bool \<Rightarrow> duration \<Rightarrow> 's HealthChecker" where
  "redis_HealthChecker r c late d =
     \<lparr>hc_Name = RedisChecker_Name, hc_Check = check_goroutine (RedisChecker_Check r) c late d\<rparr>"

definition postgres_HealthChecker :: "'s PostgresChecker \<Rightarrow> ctx \<Rightarrow> bool \<Rightarrow> duration \<Rightarrow> 's HealthChecker" where
  "postgres_HealthChecker p c late d =
     \<lparr>hc_Name = PostgresChecker_Name, hc_Check = check_goroutine (PostgresChecker_Check p) c late d\<rparr>"

section \<open>The aggregator\<close>

record CheckResult =
  cr_Name :: string
  cr_Healthy :: bool
  cr_Message :: string
  cr_Duration :: duration

record AggregatedHealth =
  ah_Status :: string
  ah_Checks :: "CheckResult list"
  ah_Overall :: bool

record 's Aggregator =
  ag_checkers :: "'s HealthChecker list"
  ag_timeout :: duration

definition NewAggregator :: "duration \<Rightarrow> 's Aggregator" where
  "NewAggregator timeout = \<lparr>ag_checkers = [], ag_timeout = timeout\<rparr>"

definition Aggregator_Register :: "'s Aggregator \<Rightarrow> 's HealthChecker \<Rightarrow> 's Aggregator" where
  "Aggregator_Register a checker = a\<lparr>ag_checkers := ag_checkers a @ [checker]\<rparr>"

definition runCheckSafe :: "'s HealthChecker \<Rightarrow> 's \<Rightarrow> CheckResult \<times> 's" where
  "runCheckSafe checker s =
     (case hc_Check checker s of
        (CheckReturned err d, s') \<Rightarrow>
          (\<lparr>cr_Name = hc_Name checker, cr_Healthy = (err = None),
            cr_Message = (case err of None \<Rightarrow> '''' | Some e \<Rightarrow> Error e), cr_Duration = d\<rparr>, s')
      | (CheckPanicked r d, s') \<Rightarrow>
          (\<lparr>cr_Name = hc_Name checker, cr_Healthy = False,
            cr_Message = ''health check panicked: '' @ r, cr_Duration = d\<rparr>, s')
      | (CheckTimeout d, s') \<Rightarrow>
          (\<lparr>cr_Name = hc_Name checker, cr_Healthy = False,
            cr_Message = ''health check timeout'', cr_Duration = d\<rparr>, s'))"

fun checkOverallHealth :: "CheckResult list \<Rightarrow> bool" where
  "checkOverallHealth [] \<longleftrightarrow> True"
| "checkOverallHealth (r # rs) \<longleftrightarrow> (if \<not> cr_Healthy r then False else checkOverallHealth rs)"

fun countFailedChecks :: "CheckResult list \<Rightarrow> int64" where
  "countFailedChecks [] = 0"
| "countFailedChecks (r # rs) = (if \<not> cr_Healthy r then 1 else 0) + countFailedChecks rs"

definition zero_CheckResult :: CheckResult where
  "zero_CheckResult = \<lparr>cr_Name = '''', cr_Healthy = False, cr_Message = '''', cr_Duration = 0\<rparr>"

text \<open>The goroutines, in the order in which they run; each writes its own slot.\<close>

fun run_checks :: "'s HealthChecker list \<Rightarrow> nat list \<Rightarrow> CheckResult list \<Rightarrow> 's \<Rightarrow> CheckResult list \<times> 's" where
  "run_checks checkers [] results s = (results, s)"
| "run_checks checkers (i # order) results s =
     (case runCheckSafe (checkers ! i) s of (r, s') \<Rightarrow> run_checks checkers order (results[i := r]) s')"

definition CheckAll :: "'s Aggregator \<Rightarrow> nat list \<Rightarrow> 's \<Rightarrow> AggregatedHealth \<times> 's" where
  "CheckAll a order s =
     (case run_checks (ag_checkers a) order (replicate (length (ag_checkers a)) zero_CheckResult) s of
        (results, s') \<Rightarrow>
          (let overallHealthy = checkOverallHealth results;
               status = (if \<not> overallHealthy then ''unhealthy'' else ''healthy'')
           in (\<lparr>ah_Status = status, ah_Checks = results, ah_Overall = overallHealthy\<rparr>, s')))"

definition CheckLiveness :: AggregatedHealth where
  "CheckLiveness = \<lparr>ah_Status = ''healthy'', ah_Checks = [], ah_Overall = True\<rparr>"

definition CheckReadiness :: "'s Aggregator \<Rightarrow> nat list \<Rightarrow> 's \<Rightarrow> AggregatedHealth \<times> 's" where
  "CheckReadiness a order s = CheckAll a order s"

section \<open>Endpoints\<close>

definition json_of_CheckResult :: "CheckResult \<Rightarrow> json" where
  "json_of_CheckResult r = JObj
     [(''name'', JStr (quote_body (cr_Name r))), (''healthy'', JBool (cr_Healthy r)),
      (''message'', JStr (quote_body (cr_Message r))), (''duration'', JNum (itoa (cr_Duration r)))]"

definition json_of_AggregatedHealth :: "AggregatedHealth \<Rightarrow> json" where
  "json_of_AggregatedHealth h = JObj
     [(''status'', JStr (quote_body (ah_Status h))), (''checks'', JArr (map json_of_CheckResult (ah_Checks h))),
      (''overall'', JBool (ah_Overall h))]"

text \<open>The handler of the endpoints; \<open>order\<close> is the order in which the goroutines of a readiness check run.\<close>

record 's HTTPHandler =
  hh_aggregator :: "'s Aggregator"

definition NewHTTPHandler :: "'s Aggregator \<Rightarrow> 's HTTPHandler" where
  "NewHTTPHandler aggregator = \<lparr>hh_aggregator = aggregator\<rparr>"

definition HandleLive :: "http_op list" where
  "HandleLive = health_respondJSON StatusOK (json_of_AggregatedHealth CheckLiveness)"

definition HandleReady :: "'s HTTPHandler \<Rightarrow> nat list \<Rightarrow> 's \<Rightarrow> http_op list \<times> 's" where
  "HandleReady h order s =
     (case CheckReadiness (hh_aggregator h) order s of
        (result, s') \<Rightarrow>
          (health_respondJSON (if \<not> ah_Overall result then StatusServiceUnavailable else StatusOK)
             (json_of_AggregatedHealth result), s'))"

text \<open>The routes that are added to a mux.\<close>

definition RegisterRoutes :: "'s HTTPHandler \<Rightarrow> nat list \<Rightarrow> ((string \<times> string) \<times> 's handler) list" where
  "RegisterRoutes handler order =
     [((''GET'', ''/health/live''), \<lambda>rq s. (Ok HandleLive, s)),
      ((''GET'', ''/health/ready''), \<lambda>rq s. (case HandleReady handler order s of (ops, s') \<Rightarrow> (Ok ops, s')))]"

section \<open>Facts\<close>

lemma checkOverallHealth_iff: "checkOverallHealth rs \<longleftrightarrow> (\<forall>r\<in>set rs. cr_Healthy r)"
  by (induction rs) auto

lemma countFailedChecks_0: "0 \<le> countFailedChecks rs \<and> (countFailedChecks rs = 0 \<longleftrightarrow> checkOverallHealth rs)"
  by (induction rs) auto

lemma health_status [simp]: "cn_status (serve_conn (health_respondJSON st j)) = Some st"
  using serve_simple [of "[(''Content-Type'', ''application/json'')]" st]
  by (simp add: health_respondJSON_def simple_ops_def encode_to_def)

lemma runCheckSafe_name: "cr_Name (fst (runCheckSafe checker s)) = hc_Name checker"
  by (simp add: runCheckSafe_def split: prod.splits check_run.splits)

lemma runCheckSafe_healthy: "cr_Healthy (fst (runCheckSafe checker s)) \<longleftrightarrow> (\<exists>d. fst (hc_Check checker s) = CheckReturned None d)"
  by (cases "hc_Check checker s"; cases "fst (hc_Check checker s)") (auto simp: runCheckSafe_def)

lemma run_checks_length: "length (fst (run_checks checkers order results s)) = length results"
  by (induction order arbitrary: results s) (auto split: prod.splits)

lemma run_checks_other:
  "i \<notin> set order \<Longrightarrow> fst (run_checks checkers order results s) ! i = results ! i"
  by (induction order arbitrary: results s) (auto split: prod.splits)

text \<open>Every slot holds the result of its checker, run in some state.\<close>

lemma run_checks_slot:
  assumes "i \<in> set order" "distinct order" "set order \<subseteq> {..<length results}"
  shows "\<exists>s'. fst (run_checks checkers order results s) ! i = fst (runCheckSafe (checkers ! i) s')"
  using assms
proof (induction order arbitrary: results s)
  case (Cons j order)
  obtain r s1 where r: "runCheckSafe (checkers ! j) s = (r, s1)" by fastforce
  show ?case
  proof (cases "i = j")
    case True
    with Cons.prems r run_checks_other [of j order checkers "results[j := r]" s1]
    have "fst (run_checks checkers (j # order) results s) ! i = fst (runCheckSafe (checkers ! i) s)" by simp
    then show ?thesis by blast
  next
    case False
    with Cons.IH [of "results[j := r]" s1] Cons.prems r show ?thesis by auto
  qed
qed simp

section \<open>Properties\<close>

text \<open>
  C36: Readiness. For every order in which the checks finish, the endpoint answers with one result for each
  registered checker, in the order of registration and under its name, each obtained by running
  that checker; the status is 200 exactly when every check returned without error in time, and 503 when
  one failed, panicked or timed out. A panic is contained in its own result. Liveness is always 200.
\<close>

theorem HandleReady_reports_all:
  assumes order: "distinct order" "set order = {..<length (ag_checkers a)}"
    and run: "HandleReady (NewHTTPHandler a) order s = (ops, s')"
  shows "\<exists>results. ops = health_respondJSON (if \<forall>r\<in>set results. cr_Healthy r then 200 else 503)
           (json_of_AggregatedHealth
              \<lparr>ah_Status = (if \<forall>r\<in>set results. cr_Healthy r then ''healthy'' else ''unhealthy''),
               ah_Checks = results, ah_Overall = (\<forall>r\<in>set results. cr_Healthy r)\<rparr>) \<and>
         map cr_Name results = map hc_Name (ag_checkers a) \<and>
         (\<forall>i<length results. \<exists>si. results ! i = fst (runCheckSafe (ag_checkers a ! i) si) \<and>
            (cr_Healthy (results ! i) \<longleftrightarrow> (\<exists>d. fst (hc_Check (ag_checkers a ! i) si) = CheckReturned None d))) \<and>
         cn_status (serve_conn HandleLive) = Some 200"
proof -
  let ?n = "length (ag_checkers a)"
  define results where "results = fst (run_checks (ag_checkers a) order (replicate ?n zero_CheckResult) s)"
  have len: "length results = ?n" by (simp add: results_def run_checks_length)
  have slot: "\<exists>si. results ! i = fst (runCheckSafe (ag_checkers a ! i) si)" if "i < ?n" for i
    using run_checks_slot [of i order "replicate ?n zero_CheckResult" "ag_checkers a" s] order that
    by (simp add: results_def)
  have names: "map cr_Name results = map hc_Name (ag_checkers a)"
  proof (rule nth_equalityI)
    fix i assume i: "i < length (map cr_Name results)"
    then obtain si where "results ! i = fst (runCheckSafe (ag_checkers a ! i) si)" using slot len by auto
    then show "map cr_Name results ! i = map hc_Name (ag_checkers a) ! i" using i len by (simp add: runCheckSafe_name)
  qed (simp add: len)
  have live: "cn_status (serve_conn HandleLive) = Some 200" by (simp add: HandleLive_def http_status)
  have ops: "ops = health_respondJSON (if \<forall>r\<in>set results. cr_Healthy r then 200 else 503)
      (json_of_AggregatedHealth
         \<lparr>ah_Status = (if \<forall>r\<in>set results. cr_Healthy r then ''healthy'' else ''unhealthy''),
          ah_Checks = results, ah_Overall = (\<forall>r\<in>set results. cr_Healthy r)\<rparr>)"
    using run by (auto simp: NewHTTPHandler_def HandleReady_def CheckReadiness_def CheckAll_def Let_def http_status results_def
        checkOverallHealth_iff split: prod.splits)
  have slots: "\<forall>i<length results. \<exists>si. results ! i = fst (runCheckSafe (ag_checkers a ! i) si) \<and>
      (cr_Healthy (results ! i) \<longleftrightarrow> (\<exists>d. fst (hc_Check (ag_checkers a ! i) si) = CheckReturned None d))"
    using slot len by (metis runCheckSafe_healthy)
  show ?thesis by (rule exI [of _ results], intro conjI) (rule ops names slots live)+
qed

theorem HandleReady_reports_all_witness:
  "\<exists>ops s'. HandleReady (NewHTTPHandler (Aggregator_Register (NewAggregator (2 * Second)) (redis_HealthChecker (NewRedisChecker memory) None False 5))) [0] (mem_init 0 [True])
       = (ops, s') \<and> cn_status (serve_conn ops) = Some 503"
proof -
  let ?a = "Aggregator_Register (NewAggregator (2 * Second)) (redis_HealthChecker (NewRedisChecker memory) None False 5)"
  obtain ops s' where run: "HandleReady (NewHTTPHandler ?a) [0] (mem_init 0 [True]) = (ops, s')" by fastforce
  have c: "ag_checkers ?a = [redis_HealthChecker (NewRedisChecker memory) None False 5]"
    by (simp add: Aggregator_Register_def NewAggregator_def)
  have "fst (runCheckSafe (redis_HealthChecker (NewRedisChecker memory) None False 5) (mem_init 0 [True])) =
      \<lparr>cr_Name = ''redis'', cr_Healthy = False, cr_Message = ''redis ping failed: connection refused'', cr_Duration = 5\<rparr>"
    by (simp add: runCheckSafe_def NewRedisChecker_def redis_HealthChecker_def check_goroutine_def RedisChecker_Check_def RedisChecker_Name_def memory_def
        mem_Ping_def mem_cmd_def mem_init_def)
  then have no: "cn_status (serve_conn ops) \<noteq> Some 200"
    using run unfolding NewHTTPHandler_def HandleReady_def CheckReadiness_def CheckAll_def HTTPHandler.select_convs c
    by (auto simp: Let_def http_status split: prod.splits)
  have "distinct [0::nat]" "set [0] = {..<length (ag_checkers ?a)}" unfolding c by auto
  note HandleReady_reports_all [OF this run]
  then have "\<exists>b j. ops = health_respondJSON (if b then 200 else 503) j" by (elim exE conjE) (intro exI)
  then show ?thesis using run no by (auto split: if_splits)
qed

end
