(* ===== verification/Health_Server.thy ===== *)
theory Health_Server
  imports Health Configuration
begin

text \<open>\<open>internal/worker/server.go\<close>: the HTTP server on which a worker answers health checks.\<close>

record 's HealthServer =
  hv_httpServer :: "'s served http_server"

text \<open>\<open>order\<close> is the order of the goroutines of a readiness check. There is no middleware around the mux.\<close>

definition NewHealthServer :: "Config \<Rightarrow> 's Aggregator \<Rightarrow> nat list \<Rightarrow> 's HealthServer" where
  "NewHealthServer cfg healthAgg order =
     (let healthHandler = NewHTTPHandler healthAgg;
          mux = mux_ServeHTTP (RegisterRoutes healthHandler order)
      in \<lparr>hv_httpServer = \<lparr>hs_Addr = CHR '':'' # w_HealthPort (c_Worker cfg), hs_Handler = serve_plain mux,
            hs_ReadTimeout = 5 * Second, hs_WriteTimeout = 5 * Second, hs_IdleTimeout = 60 * Second\<rparr>\<rparr>)"

text \<open>
  The result of \<open>Start\<close> for the result of \<open>ListenAndServe\<close>. The goroutine that waits for the end of the context calls
  \<open>Shutdown\<close>, after which \<open>ListenAndServe\<close> returns \<open>ErrServerClosed\<close>.
\<close>

definition HealthServer_Start :: "goerror option \<Rightarrow> goerror option" where
  "HealthServer_Start served =
     (case served of
        Some e \<Rightarrow> (if \<not> errors_Is e ErrServerClosed then Some (Wrap ''health server failed: '' e) else None)
      | None \<Rightarrow> None)"

lemma HealthServer_Start_closed [simp]: "HealthServer_Start (Some ErrServerClosed) = None"
  by (simp add: HealthServer_Start_def ErrServerClosed_def)

lemma health_mux:
  "mux_dispatch (RegisterRoutes h order) m ''/health/live'' =
     (if method_fits ''GET'' m then Matched (\<lambda>rq s. (Ok HandleLive, s)) else MethodNotAllowed)"
  "mux_dispatch (RegisterRoutes h order) m ''/health/ready'' =
     (if method_fits ''GET'' m then Matched (\<lambda>rq s. (case HandleReady h order s of (ops, s') \<Rightarrow> (Ok ops, s'))) else MethodNotAllowed)"
  by (simp_all add: mux_dispatch_def RegisterRoutes_def)

text \<open>The two endpoints of the worker: liveness is always 200, readiness is what \<open>HandleReady\<close> says.\<close>

lemma health_server_answers:
  assumes "rq_Method rq = ''GET''"
  shows "rq_Path rq = ''/health/live'' \<Longrightarrow>
      hs_Handler (hv_httpServer (NewHealthServer cfg a order)) rq s = (Some (serve_conn HandleLive, []), s)"
    and "rq_Path rq = ''/health/ready'' \<Longrightarrow>
      hs_Handler (hv_httpServer (NewHealthServer cfg a order)) rq s =
        (case HandleReady (NewHTTPHandler a) order s of (ops, s') \<Rightarrow> (Some (serve_conn ops, []), s'))"
  using assms by (simp_all add: NewHealthServer_def serve_plain_def mux_ServeHTTP_def health_mux method_fits_def split: prod.splits)

end
