(* ===== verification/Worker.thy ===== *)
theory Worker
  imports Worker_Processor Registry Health_Server Go_Float
begin

text \<open>
  \<open>internal/worker/worker.go\<close>: the backoff of the poll loop, the handling of one message, the
  reclaim lock, and the loops. This theory has the sequential operations; \<open>Worker_Concurrency\<close> puts
  the goroutines together.
\<close>

section \<open>The backoff\<close>

record exponentialBackoff =
  eb_current :: duration
  eb_min :: duration
  eb_max :: duration

definition newExponentialBackoff :: "duration \<Rightarrow> duration \<Rightarrow> exponentialBackoff" where
  "newExponentialBackoff mn mx = \<lparr>eb_current = mn, eb_min = mn, eb_max = mx\<rparr>"

text \<open>
  \<open>u\<close> is the result of \<open>rand.Float64()\<close>; \<open>impl\<close> is the platform's conversion of a float
  outside the range of \<open>int64\<close>. The result is the delay and the new state.
\<close>

definition Next :: "(float64 \<Rightarrow> int64) \<Rightarrow> float64 \<Rightarrow> exponentialBackoff \<Rightarrow> duration \<times> exponentialBackoff" where
  "Next impl u eb =
     (let current = eb_current eb;
          doubled = int64_of_float impl (fmul (f_of_int (eb_current eb)) (Fin 2));
          next_current = (if doubled > eb_max eb then eb_max eb else doubled);
          jitter = int64_of_float impl (fmul (fmul (f_of_int current) (Fin (1 / 4))) (fsub (fmul u (Fin 2)) (Fin 1)))
      in (wrap64 (current + jitter), eb\<lparr>eb_current := next_current\<rparr>))"

definition Reset :: "exponentialBackoff \<Rightarrow> exponentialBackoff" where
  "Reset eb = eb\<lparr>eb_current := eb_min eb\<rparr>"

text \<open>What the configuration gives: delays below \<open>2 ^ 51\<close> nanoseconds (26 days).\<close>

definition backoff_ok :: "exponentialBackoff \<Rightarrow> bool" where
  "backoff_ok eb \<longleftrightarrow> 0 < eb_min eb \<and> eb_min eb \<le> eb_current eb \<and> eb_current eb \<le> eb_max eb \<and> eb_max eb \<le> 2 ^ 51"

lemma unit_symmetric:
  assumes "0 \<le> u" "u < 1" shows "\<exists>v. fsub (fmul (Fin u) (Fin 2)) (Fin 1) = Fin v \<and> - 1 \<le> v \<and> v \<le> 1"
proof -
  have "of_int 0 \<le> u * 2" "u * 2 \<le> of_int 2" using assms by simp_all
  from round64_within [OF this] obtain w where w: "round64 (u * 2) = Fin w" "0 \<le> w" "w \<le> 2" by auto
  have "of_int (- 1) \<le> w + - 1" "w + - 1 \<le> of_int 1" using w by simp_all
  from round64_within [OF this] w(1) show ?thesis by (auto simp: fsub_def)
qed

lemma int64_of_float_within:
  assumes "of_int a \<le> r" "r \<le> of_int b" "a \<le> 0" "0 \<le> b" "in64 a" "in64 b"
  shows "a \<le> int64_of_float impl (Fin r) \<and> int64_of_float impl (Fin r) \<le> b"
  using trunc_rat_within [OF assms(1-4)] assms(5,6) by (auto simp: int64_of_float_def in64_def)

lemma jitter_within:
  assumes "0 < cur" "cur \<le> 2 ^ 51" "- 1 \<le> v" "v \<le> 1"
  shows "\<bar>int64_of_float impl (fmul (fmul (f_of_int cur) (Fin (1 / 4))) (Fin v))\<bar> \<le> (cur + 3) div 4"
proof -
  let ?q = "(cur + 3) div 4"
  have q: "0 \<le> ?q" "?q \<le> 2 ^ 50" "cur \<le> 4 * ?q" using assms(1,2) by simp_all
  have "f_of_int cur = Fin (of_int cur)" using assms(1,2) by (intro f_of_int_exact) simp
  then have m: "fmul (f_of_int cur) (Fin (1 / 4)) = round64 (of_int cur / 4)" by simp
  have "(of_int cur :: rat) \<le> of_int (4 * ?q)" using q(3) by (simp only: of_int_le_iff)
  then have "of_int cur / 4 \<le> (of_int ?q :: rat)" by simp
  moreover have "of_int 0 \<le> (of_int cur / 4 :: rat)" using assms(1) by simp
  ultimately obtain x where x: "round64 (of_int cur / 4) = Fin x" "0 \<le> x" "x \<le> of_int ?q"
    using round64_within [of 0 "of_int cur / 4" ?q] q by auto
  have "- x \<le> x * v" "x * v \<le> x"
    using mult_left_mono [OF assms(3) x(2)] mult_left_mono [OF assms(4) x(2)] by simp_all
  then have "of_int (- ?q) \<le> x * v" "x * v \<le> of_int ?q" using x(3) by simp_all
  from round64_within [OF this] q obtain y where y: "round64 (x * v) = Fin y" "of_int (- ?q) \<le> y" "y \<le> of_int ?q"
    by auto
  have "- ?q \<le> int64_of_float impl (Fin y) \<and> int64_of_float impl (Fin y) \<le> ?q"
    using q by (intro int64_of_float_within y(2,3)) (simp_all add: in64_def)
  then show ?thesis unfolding m by (simp add: x(1) y(1) abs_le_iff)
qed

lemma Next_doubles:
  assumes "0 < eb_current eb" "eb_current eb \<le> 2 ^ 51"
  shows "int64_of_float impl (fmul (f_of_int (eb_current eb)) (Fin 2)) = 2 * eb_current eb"
proof -
  have "f_of_int (eb_current eb) = Fin (of_int (eb_current eb))" using assms by (intro f_of_int_exact) simp
  moreover have "round64 (of_int (2 * eb_current eb)) = Fin (of_int (2 * eb_current eb))"
    using assms by (intro round64_exact) simp
  moreover have "trunc_rat (of_int (2 * eb_current eb)) = 2 * eb_current eb" by (rule trunc_rat_of_int)
  ultimately show ?thesis using assms by (simp add: int64_of_float_def in64_def mult.commute)
qed

lemma Next_spec:
  assumes "backoff_ok eb" and "0 \<le> u" and "u < 1" and "Next impl (Fin u) eb = (delay, eb')"
  shows "\<bar>delay - eb_current eb\<bar> \<le> (eb_current eb + 3) div 4 \<and> 0 \<le> delay \<and>
         delay \<le> eb_max eb + (eb_max eb + 3) div 4 \<and>
         eb_current eb' = min (2 * eb_current eb) (eb_max eb) \<and> backoff_ok eb' \<and> backoff_ok (Reset eb)"
proof -
  let ?c = "eb_current eb"
  have c: "0 < ?c" "?c \<le> 2 ^ 51" "?c \<le> eb_max eb" using assms(1) by (simp_all add: backoff_ok_def)
  obtain v where v: "fsub (fmul (Fin u) (Fin 2)) (Fin 1) = Fin v" "- 1 \<le> v" "v \<le> 1"
    using unit_symmetric [OF assms(2,3)] by blast
  define j where "j = int64_of_float impl (fmul (fmul (f_of_int ?c) (Fin (1 / 4))) (Fin v))"
  have j: "\<bar>j\<bar> \<le> (?c + 3) div 4" unfolding j_def using c v by (intro jitter_within)
  have "(?c + 3) div 4 \<le> ?c" using c by linarith
  with j c have "in64 (?c + j)" by (simp add: in64_def) linarith
  with assms(4) [unfolded Next_def Let_def v(1) Next_doubles [OF c(1,2)], folded j_def]
  have d: "delay = ?c + j" and eb': "eb' = eb\<lparr>eb_current := min (2 * ?c) (eb_max eb)\<rparr>" by auto
  have "(?c + 3) div 4 \<le> (eb_max eb + 3) div 4" using c by (intro zdiv_mono1) simp_all
  moreover have "0 \<le> delay" using d j \<open>(?c + 3) div 4 \<le> ?c\<close> by linarith
  moreover have "delay \<le> eb_max eb + (eb_max eb + 3) div 4" using d j c calculation by linarith
  moreover have "backoff_ok eb'" "backoff_ok (Reset eb)" using assms(1) by (auto simp: eb' backoff_ok_def Reset_def)
  ultimately show ?thesis using d j eb' by simp
qed

text \<open>
  The delay of the poll loop's backoff. Starting from a valid state, \<open>Next\<close> returns a delay that
  differs from the current one by at most a quarter (rounded up), so that it is never negative, and
  at most \<open>max\<close> plus a quarter; the state doubles up to \<open>max\<close>; and \<open>Next\<close> and \<open>Reset\<close> keep
  the state within \<open>[min, max]\<close>.
\<close>

theorem backoff_bounds:
  assumes "backoff_ok eb" and "0 \<le> u" and "u < 1" and "Next impl (Fin u) eb = (delay, eb')"
  shows "\<bar>delay - eb_current eb\<bar> \<le> (eb_current eb + 3) div 4 \<and> 0 \<le> delay \<and>
         delay \<le> eb_max eb + (eb_max eb + 3) div 4 \<and>
         eb_current eb' = min (2 * eb_current eb) (eb_max eb) \<and> backoff_ok eb' \<and> backoff_ok (Reset eb)"
  using assms by (rule Next_spec)

theorem backoff_bounds_witness:
  "\<exists>delay eb'. Next (\<lambda>_. 0) (Fin (3 / 4)) (newExponentialBackoff (100 * Millisecond) (30 * Second)) = (delay, eb') \<and>
     0 \<le> delay \<and> eb_current eb' = 200 * Millisecond \<and> backoff_ok eb'"
proof -
  let ?eb = "newExponentialBackoff (100 * Millisecond) (30 * Second)"
  obtain delay eb' where n: "Next (\<lambda>_. 0) (Fin (3 / 4)) ?eb = (delay, eb')" by fastforce
  have "backoff_ok ?eb" by (simp add: backoff_ok_def newExponentialBackoff_def)
  from backoff_bounds [OF this _ _ n] n show ?thesis by (simp add: newExponentialBackoff_def)
qed

section \<open>The worker\<close>

record 's Worker =
  wk_consumer :: Consumer
  wk_processor :: "'s processor"
  wk_config :: WorkerConfig
  wk_registryConfig :: RegistryConfig
  wk_partitionID :: int64
  wk_healthServer :: "'s HealthServer"
  wk_workerID :: string
  wk_registry :: Registry

text \<open>The backoff, the semaphore and the channel \<open>ready\<close>, which the constructor also makes, are in \<open>Worker_Concurrency\<close>.\<close>

definition NewWorker ::
  "Consumer \<Rightarrow> 's processor \<Rightarrow> WorkerConfig \<Rightarrow> RegistryConfig \<Rightarrow> int64 \<Rightarrow> 's HealthServer \<Rightarrow> string \<Rightarrow> Registry \<Rightarrow> 's Worker" where
  "NewWorker consumer processor workerCfg registryCfg partitionID healthServer workerID reg =
     \<lparr>wk_consumer = consumer, wk_processor = processor, wk_config = workerCfg,
      wk_registryConfig = registryCfg, wk_partitionID = partitionID,
      wk_healthServer = healthServer, wk_workerID = workerID, wk_registry = reg\<rparr>"

text \<open>
  The second half of \<open>processMessage\<close>: what happens with the message once \<open>Process\<close> has returned.
  Errors of \<open>Ack\<close> and \<open>Retry\<close> are only logged. A panic ends the program and touches nothing.
\<close>

definition settle ::
  "'s redis_client \<Rightarrow> 's Worker \<Rightarrow> int64 \<Rightarrow> ctxs \<Rightarrow> JobEnvelope \<Rightarrow> string \<Rightarrow> unit go \<Rightarrow> 's \<Rightarrow> unit go \<times> 's" where
  "settle R w now cx envelope messageID outcome s =
     (case outcome of
        Panic \<Rightarrow> (Panic, s)
      | Err e \<Rightarrow> (Ok (), snd (Retry R (wk_consumer w) now cx envelope messageID e s))
      | Ok _ \<Rightarrow> (Ok (), snd (Ack R (wk_consumer w) (cx 0) messageID s)))"

definition processMessage ::
  "'s redis_client \<Rightarrow> 's Worker \<Rightarrow> int64 \<Rightarrow> ctxs \<Rightarrow> JobEnvelope \<Rightarrow> string \<Rightarrow> 's \<Rightarrow> unit go \<times> 's" where
  "processMessage R w now cx envelope messageID s =
     (case wk_processor w envelope s of
        (outcome, s1) \<Rightarrow> settle R w now cx envelope messageID outcome s1)"

section \<open>Reclaiming\<close>

text \<open>
  The jobs that \<open>reclaimStale\<close> goes on to start, or its error. When \<open>ReclaimStale\<close> reports an error,
  the messages it has claimed before are dropped here and stay pending.
\<close>

definition reclaimStale ::
  "'s redis_client \<Rightarrow> 's Worker \<Rightarrow> ctxs \<Rightarrow> 's \<Rightarrow> ((JobEnvelope \<times> string) list go \<times> 's) option" where
  "reclaimStale R w cx s =
     (case ReclaimStale R (wk_consumer w) cx (w_ReclaimIdleTime (wk_config w)) (w_ReclaimBatchSize (wk_config w)) s of
        None \<Rightarrow> None
      | Some ((jobs, Some e), s') \<Rightarrow> Some (Err (Wrap ''failed to reclaim stale messages: '' e), s')
      | Some ((jobs, None), s') \<Rightarrow> Some (Ok jobs, s'))"

definition reclaim_lockKey :: "'s Worker \<Rightarrow> string" where
  "reclaim_lockKey w = ''worker:reclaim:lock:'' @ itoa (wk_partitionID w)"

definition tryReclaim ::
  "'s redis_client \<Rightarrow> 's Worker \<Rightarrow> ctxs \<Rightarrow> 's \<Rightarrow> ((JobEnvelope \<times> string) list go \<times> 's) option" where
  "tryReclaim R w cx s =
     (case SetNX R (cx 0) (reclaim_lockKey w) (wk_workerID w) (w_ReclaimInterval (wk_config w)) s of
        (Inl e, s') \<Rightarrow> Some (Err (Wrap ''failed to acquire reclaim lock: '' e), s')
      | (Inr acquired, s') \<Rightarrow>
          (if \<not> acquired then Some (Ok [], s')
           else reclaimStale R w (\<lambda>j. cx (Suc j)) s'))"

section \<open>The registry loop\<close>

text \<open>
  One element of the list for each tick: the context and \<open>time.Now().Unix()\<close>. The first heartbeat
  comes before the first tick; errors are only logged.
\<close>

fun registryLoop :: "'s redis_client \<Rightarrow> 's Worker \<Rightarrow> (ctx \<times> int64) list \<Rightarrow> 's \<Rightarrow> 's" where
  "registryLoop R w [] s = s"
| "registryLoop R w ((c, now) # ticks) s = registryLoop R w ticks (snd (Heartbeat R c now (wk_workerID w) s))"

section \<open>Facts\<close>

abbreviation wpend :: "stream_db \<Rightarrow> 's Worker \<Rightarrow> string set" where
  "wpend d w \<equiv> set (pend d (co_streamName (wk_consumer w)) (co_consumerGroup (wk_consumer w)))"

text \<open>Where a failed job is after \<open>Retry\<close>, when its message is not pending any more.\<close>

definition accounted ::
  "'s redis_client \<Rightarrow> Consumer \<Rightarrow> int64 \<Rightarrow> ctxs \<Rightarrow> JobEnvelope \<Rightarrow> string \<Rightarrow> goerror \<Rightarrow> 's \<Rightarrow> stream_db \<Rightarrow> bool" where
  "accounted R co now cx env i err s d \<longleftrightarrow>
     (if RetryCount (failed_once env err) < MaxRetries env
      then queued d (co_streamName co) (failed_once env err)
      else case co_dlq co of
             None \<Rightarrow> True
           | Some dlq \<Rightarrow> buried d (dq_streamName dlq) (failed_once env err) \<or>
               (\<exists>e. fst (Send R dlq (cx 0) (retry_entry (failed_once env err) i err now) s) = Err e))"

context redis_streams
begin

lemma settle_pend:
  assumes "invar s" "settle R w now cx env i outcome s = (r, s')"
  shows "invar s' \<and> (\<forall>j. j \<in> wpend (db s) w \<longrightarrow> j \<in> wpend (db s') w \<or> (j = i \<and> outcome \<noteq> Panic))"
proof (cases outcome)
  case (Ok u)
  then have "Ack R (wk_consumer w) (cx 0) i s = (fst (Ack R (wk_consumer w) (cx 0) i s), s')"
    using assms(2) by (auto simp: settle_def)
  from Ack_outcome [OF assms(1) this] Ok show ?thesis by (auto simp: pend_db_ack)
next
  case (Err e)
  then have "Retry R (wk_consumer w) now cx env i e s = (fst (Retry R (wk_consumer w) now cx env i e s), s')"
    using assms(2) by (auto simp: settle_def)
  from Retry_pend [OF assms(1) this] Err show ?thesis by (auto simp: pend_db_ack)
qed (use assms in \<open>simp add: settle_def\<close>)

lemma reclaimStale_returns:
  assumes "invar s"
  shows "\<exists>x s'. reclaimStale R w cx s = Some (x, s') \<and> x \<noteq> Panic \<and> invar s' \<and> ents (db s') = ents (db s) \<and>
    (\<forall>jobs. x = Ok jobs \<longrightarrow> claimed_from (db s) (wk_consumer w) jobs) \<and>
    (\<forall>i\<in>wpend (db s) w. i \<in> fst ` set (ents (db s) (co_streamName (wk_consumer w))) \<longrightarrow> i \<in> wpend (db s') w)"
proof -
  from ReclaimStale_outcome [OF assms]
  obtain acc e s' where "ReclaimStale R (wk_consumer w) cx (w_ReclaimIdleTime (wk_config w)) (w_ReclaimBatchSize (wk_config w)) s
      = Some ((acc, e), s')" "invar s'" "claimed_from (db s) (wk_consumer w) acc" "ents (db s') = ents (db s)"
    "\<forall>i\<in>wpend (db s) w. i \<in> fst ` set (ents (db s) (co_streamName (wk_consumer w))) \<longrightarrow> i \<in> wpend (db s') w"
    unfolding same_entries_def by metis
  then show ?thesis by (cases e) (auto simp: reclaimStale_def)
qed

end

section \<open>Properties\<close>


definition demo_worker :: "mem processor \<Rightarrow> mem Worker" where
  "demo_worker process = NewWorker demo_consumer process DefaultWorker DefaultRegistry 0
     (NewHealthServer GetDefaults (NewAggregator (5 * Second)) []) ''w1'' (NewRegistry DefaultRegistry)"


text \<open>
  C27: Delivery is at most once per attempt behind the deduplication, not at least once. If an
  attempt has been started (its key is set) and then its message is delivered again within the
  lifetime of the key, because the worker died before the acknowledgement or because the job was
  requeued from the dead letter queue, which sets its retry count back to zero, then
  \<open>processMessage\<close> does not run the downstream processor: unless the check itself fails, it only
  acknowledges the message. No stream gets a new entry, so the job is gone.
\<close>

theorem started_attempt_is_dropped:
  assumes R: "redis_server R db invar rank now kv" and ttl: "0 < dp_dedupTTL p"
    and w: "wk_processor w = dedup_processor R p c2 dups"
    and first: "SetNX R c1 (dedup_key env) ''1'' (dp_dedupTTL p) s1 = (Inr True, s1')"
    and kept: "kv s2 (dedup_key env) = kv s1' (dedup_key env)"
    and env': "JobID env' = JobID env" "RetryCount env' = RetryCount env"
    and soon: "SetNX R c2 (dedup_key env) ''1'' (dp_dedupTTL p) s2 = (Inr wasNew, s3)"
      "now s3 < now s1 + set_ttl (dp_dedupTTL p)"
    and s2: "invar s2"
    and run: "processMessage R w t cx env' i s2 = (r, s')"
  shows "s' = snd (Ack R (wk_consumer w) (cx 0) i s3) \<and> ents (db s') = ents (db s2) \<and>
         (fst (Ack R (wk_consumer w) (cx 0) i s3) = None \<longrightarrow> i \<notin> wpend (db s') w)"
proof -
  have K: "redis_keys R now kv" and S: "redis_streams R db invar rank"
    using R by (simp_all add: redis_server_def)
  have key: "dedup_key env' = dedup_key env" using env' by simp
  have "\<not> wasNew" using redis_keys.setnx_once [OF K first ttl ttl kept soon] by simp
  then have "wk_processor w env' s2 = (Ok (), s3)"
    using soon(1) by (simp add: w dedup_processor_def Dedup_Process_def key del: dedup_key_inj)
  then have s': "s' = snd (Ack R (wk_consumer w) (cx 0) i s3)"
    using run by (auto simp: processMessage_def settle_def)
  have s3: "invar s3" "db s3 = db s2" using redis_server.setnx_streams [OF R s2 soon(1)] by simp_all
  have "Ack R (wk_consumer w) (cx 0) i s3 = (fst (Ack R (wk_consumer w) (cx 0) i s3), s')" by (simp add: s')
  from redis_streams.Ack_outcome [OF S s3(1) this] s' s3(2) show ?thesis by (auto simp: pend_db_ack)
qed

text \<open>The witness: a job is requeued half an hour after its first attempt was started.\<close>

theorem started_attempt_is_dropped_witness:
  "\<exists>s1 r s'. SetNX memory None (dedup_key demo_envelope) ''1'' (1 * Hour) demo_pending = (Inr True, s1) \<and>
     processMessage memory (demo_worker (dedup_processor memory demo_dedup None 0)) 1700000200 (\<lambda>_. None)
       (demo_envelope\<lparr>LastError := ''boom''\<rparr>) ''0-1'' (mem_advance (30 * Minute) s1) = (r, s') \<and>
     ents (m_db s') = ents (m_db demo_pending)"
proof -
  let ?k = "dedup_key demo_envelope" and ?w = "demo_worker (dedup_processor memory demo_dedup None 0)"
  define s1 where "s1 = demo_pending\<lparr>m_kv := (\<lambda>_. None)(?k := Some (''1'', 1 * Hour))\<rparr>"
  define s2 where "s2 = mem_advance (30 * Minute) s1"
  have ttl: "dp_dedupTTL demo_dedup = 1 * Hour" by (simp add: demo_dedup_def NewDeduplicatingProcessor_def)
  have first: "SetNX memory None ?k ''1'' (dp_dedupTTL demo_dedup) demo_pending = (Inr True, s1)"
    by (simp add: ttl memory_def mem_SetNX_def live_at_def demo_pending_def mem_init_def s1_def set_ttl_def)
  have soon: "SetNX memory None ?k ''1'' (dp_dedupTTL demo_dedup) s2 = (Inr False, s2)"
    by (simp add: memory_def mem_SetNX_def live_at_def s2_def s1_def mem_advance_def demo_pending_def mem_init_def)
  have inv2: "mem_inv s2"
  proof -
    have "known_id s2 k ''0-1''" for k
    proof -
      have "''0-1'' = mem_id 0 1" by code_simp
      then show ?thesis by (auto simp: known_id_def s2_def s1_def mem_advance_def demo_pending_def)
    qed
    then show ?thesis
      by (simp add: mem_inv_def db_ok_def group_ok_def)
        (simp add: s2_def s1_def mem_advance_def demo_pending_def demo_pending_db_def empty_db_def)
  qed
  obtain r s' where run: "processMessage memory ?w 1700000200 (\<lambda>_. None) (demo_envelope\<lparr>LastError := ''boom''\<rparr>) ''0-1'' s2 = (r, s')"
    by fastforce
  have "m_now s2 < m_now demo_pending + set_ttl (dp_dedupTTL demo_dedup)"
    by (simp add: ttl s2_def s1_def mem_advance_def demo_pending_def mem_init_def set_ttl_def)
  moreover have w: "wk_processor ?w = dedup_processor memory demo_dedup None 0" by (simp add: demo_worker_def NewWorker_def)
  moreover have "m_kv s2 ?k = m_kv s1 ?k" by (simp add: s2_def mem_advance_def)
  ultimately have "s' = snd (Ack memory (wk_consumer ?w) None ''0-1'' s2) \<and> ents (m_db s') = ents (m_db s2) \<and>
      (fst (Ack memory (wk_consumer ?w) None ''0-1'' s2) = None \<longrightarrow> ''0-1'' \<notin> wpend (m_db s') ?w)"
    by (intro started_attempt_is_dropped [OF mem_server.redis_server_axioms _ w first _ _ _ soon _ inv2 run]) (simp_all add: ttl)
  then have "ents (m_db s') = ents (m_db s2)" by (elim conjE)
  moreover have "m_db s2 = m_db demo_pending" by (simp add: s2_def s1_def mem_advance_def)
  ultimately show ?thesis using first run ttl by (auto simp: s2_def)
qed


definition demo_poison :: mem where
  "demo_poison = (mem_init 0 [])\<lparr>m_db := empty_db\<lparr>
       ents := (\<lambda>_. [])(''logs:ingest:partition:0'' := [(''0-1'', [(''data'', ''x'')])]),
       fresh := (\<lambda>_ _. [])(''logs:ingest:partition:0'' := (\<lambda>_. [])(''log-workers-0'' := [(''0-1'', [(''data'', ''x'')])])),
       grp := (\<lambda>_ _. True)\<rparr>, m_seq := (\<lambda>_. 1)\<rparr>"


text \<open>
  C29: At most one worker of a partition reclaims within a reclaim interval. When a worker has
  obtained the reclaim lock, then until the interval is over and unless the key is deleted, another
  worker of the same partition that tries claims nothing and starts no job: the streams stay as they are.
\<close>

theorem reclaim_lock_excludes:
  assumes R: "redis_server R db invar rank now kv"
    and ttl: "0 < w_ReclaimInterval (wk_config w)" "0 < w_ReclaimInterval (wk_config w')"
    and part: "wk_partitionID w' = wk_partitionID w"
    and got: "SetNX R c (reclaim_lockKey w) (wk_workerID w) (w_ReclaimInterval (wk_config w)) s0 = (Inr True, s1)"
    and kept: "kv s2 (reclaim_lockKey w) = kv s1 (reclaim_lockKey w)" and s2: "invar s2"
    and soon: "SetNX R (cx 0) (reclaim_lockKey w') (wk_workerID w') (w_ReclaimInterval (wk_config w')) s2 = (x, s3)"
      "now s3 < now s0 + set_ttl (w_ReclaimInterval (wk_config w))"
  shows "(tryReclaim R w' cx s2 = Some (Ok [], s3) \<or>
          (\<exists>e. tryReclaim R w' cx s2 = Some (Err (Wrap ''failed to acquire reclaim lock: '' e), s3))) \<and> db s3 = db s2"
proof -
  have K: "redis_keys R now kv" using R by (simp add: redis_server_def)
  have key: "reclaim_lockKey w' = reclaim_lockKey w" by (simp add: reclaim_lockKey_def part)
  have "x \<noteq> Inr True" using redis_keys.setnx_once [OF K got ttl kept soon(1) [unfolded key] soon(2)] .
  then show ?thesis using soon(1) redis_server.setnx_streams [OF R s2 soon(1)]
    by (cases x) (auto simp: tryReclaim_def)
qed

theorem reclaim_lock_excludes_witness:
  "\<exists>s1. SetNX memory None (reclaim_lockKey (demo_worker (DefaultProcessor_Process None))) ''w1'' (w_ReclaimInterval DefaultWorker) demo_pending
          = (Inr True, s1) \<and>
     tryReclaim memory (demo_worker (DefaultProcessor_Process None)) (\<lambda>_. None) s1 = Some (Ok [], s1)"
proof -
  let ?w = "demo_worker (DefaultProcessor_Process None)"
  define s1 where "s1 = demo_pending\<lparr>m_kv := (\<lambda>_. None)(reclaim_lockKey ?w := Some (''w1'', set_ttl (w_ReclaimInterval DefaultWorker)))\<rparr>"
  have w: "wk_workerID ?w = ''w1''" "wk_config ?w = DefaultWorker" by (simp_all add: demo_worker_def NewWorker_def)
  have pos: "0 < w_ReclaimInterval DefaultWorker" "0 < set_ttl (w_ReclaimInterval DefaultWorker)"
    by (simp_all add: DefaultWorker_def set_ttl_def)
  have got: "SetNX memory None (reclaim_lockKey ?w) (wk_workerID ?w) (w_ReclaimInterval (wk_config ?w)) demo_pending = (Inr True, s1)"
    by (simp add: w memory_def mem_SetNX_def live_at_def demo_pending_def mem_init_def s1_def)
  have again: "SetNX memory None (reclaim_lockKey ?w) (wk_workerID ?w) (w_ReclaimInterval (wk_config ?w)) s1 = (Inr False, s1)"
    using pos by (simp add: w memory_def mem_SetNX_def live_at_def s1_def demo_pending_def mem_init_def)
  have inv: "mem_inv s1" using mem_server.setnx_streams [OF demo_pending_inv got] by simp
  have "m_now s1 < m_now demo_pending + set_ttl (w_ReclaimInterval (wk_config ?w))" using pos by (simp add: w s1_def)
  from reclaim_lock_excludes [OF mem_server.redis_server_axioms _ _ refl got refl inv, of "\<lambda>_. None", OF _ _ again this]
    got again show ?thesis by (simp add: w pos tryReclaim_def)
qed

end
