(* ===== verification/Worker_Concurrency.thy ===== *)
theory Worker_Concurrency
  imports Worker
begin

text \<open>
  The goroutines of \<open>internal/worker/worker.go\<close>: \<open>Worker.Start\<close>, the poll loop, the reclaim loop, the registry loop, the
  health server and one goroutine for each job, as steps on a shared state. A step is one operation of the queue
  package, of the semaphore, of the error group or of the processor; the order in which the goroutines take their
  steps is open. The semaphore (\<open>golang.org/x/sync/semaphore\<close>) and the error group (\<open>golang.org/x/sync/errgroup\<close>) are
  only called by the code: their operations are arguments and their documented behaviour is given by the locales
  \<open>weighted_semaphore\<close> and \<open>error_group\<close>. Panics of a processor, which end the program, have no further step.
\<close>

section \<open>The semaphore\<close>

text \<open>
  \<open>sem_acquire q n\<close> is the state after \<open>Acquire(ctx, n)\<close> has succeeded, or \<open>None\<close> while it
  has to wait.
\<close>

record 'q semaphore =
  NewWeighted :: "int64 \<Rightarrow> 'q"
  sem_acquire :: "'q \<Rightarrow> int64 \<Rightarrow> 'q option"
  sem_release :: "'q \<Rightarrow> int64 \<Rightarrow> 'q"

locale weighted_semaphore =
  fixes S :: "'q semaphore"
    and held :: "'q \<Rightarrow> int"
    and capacity :: "'q \<Rightarrow> int"
  assumes new: "held (NewWeighted S n) = 0 \<and> capacity (NewWeighted S n) = n"
    and acquire: "\<lbrakk>sem_acquire S q n = Some q'; 0 \<le> n\<rbrakk> \<Longrightarrow>
                  held q' = held q + n \<and> held q' \<le> capacity q \<and> capacity q' = capacity q"
    and release: "\<lbrakk>0 \<le> n; n \<le> held q\<rbrakk> \<Longrightarrow>
                  held (sem_release S q n) = held q - n \<and> capacity (sem_release S q n) = capacity q"

section \<open>The error group\<close>

text \<open>
  \<open>group_Go\<close> starts a function, \<open>group_return\<close> is the return of one of them with its result, \<open>group_Wait\<close> is the
  result of \<open>Wait\<close>, or \<open>None\<close> while it blocks. \<open>group_Err\<close> is \<open>ctx.Err()\<close> of the context that \<open>WithContext\<close> derives
  and \<open>group_signal\<close> the end of its parent.
\<close>

record 'g errgroup =
  group_WithContext :: "ctx \<Rightarrow> 'g"
  group_Go :: "'g \<Rightarrow> 'g"
  group_return :: "'g \<Rightarrow> goerror option \<Rightarrow> 'g"
  group_Wait :: "'g \<Rightarrow> (goerror option \<times> 'g) option"
  group_signal :: "'g \<Rightarrow> goerror \<Rightarrow> 'g"
  group_Err :: "'g \<Rightarrow> ctx"

text \<open>
  \<open>running\<close> counts the functions that have not returned; \<open>first\<close> is the first error one of them returned. The context
  is cancelled by the first error or when \<open>Wait\<close> returns, whichever comes first, and stays cancelled.
\<close>

locale error_group =
  fixes G :: "'g errgroup"
    and running :: "'g \<Rightarrow> nat"
    and first :: "'g \<Rightarrow> goerror option"
  assumes group_new: "running (group_WithContext G c) = 0 \<and> first (group_WithContext G c) = None \<and>
                      group_Err G (group_WithContext G c) = c"
    and group_go: "running (group_Go G g) = Suc (running g) \<and> first (group_Go G g) = first g \<and>
                   group_Err G (group_Go G g) = group_Err G g"
    and group_ret: "0 < running g \<Longrightarrow>
                   running (group_return G g r) = running g - 1 \<and>
                   first (group_return G g r) = (if first g = None then r else first g) \<and>
                   (r = None \<longrightarrow> group_Err G (group_return G g r) = group_Err G g) \<and>
                   (r \<noteq> None \<longrightarrow> group_Err G (group_return G g r) \<noteq> None)"
    and group_wait: "group_Wait G g = Some (err, g') \<Longrightarrow>
                   running g = 0 \<and> err = first g \<and> running g' = 0 \<and> group_Err G g' \<noteq> None"
    and group_wait_ready: "running g = 0 \<Longrightarrow> group_Wait G g \<noteq> None"
    and group_sig: "running (group_signal G g e) = running g \<and> first (group_signal G g e) = first g \<and>
                    group_Err G (group_signal G g e) \<noteq> None"

section \<open>The state of a running worker\<close>

text \<open>Each goroutine is at one of these points; the first value of each type says that it has not been started.\<close>

datatype start_pc = Launching nat | Waiting | StartReturned "goerror option"

datatype poll_pc = PollIdle | PollEntry | Polling | Consuming | Sleeping duration | Holding JobEnvelope string | PollStopped

datatype reclaim_pc = ReclaimIdle | Reclaiming | AwaitTick | Starting "(JobEnvelope \<times> string) list" | ReclaimStopped

datatype registry_pc = RegistryIdle | Beating | AwaitBeat | RegistryStopped

datatype health_pc = HealthIdle | Serving | HealthStopped

text \<open>A goroutine of a job: before the counter is increased, in \<open>Process\<close>, after it, and after the settlement.\<close>

datatype job_pc = Spawned | Processing | Processed "unit go" | Settled

record ('q, 'g, 's) wstate =
  st_start :: start_pc
  st_poll :: poll_pc
  st_reclaim :: reclaim_pc
  st_registry :: registry_pc
  st_health :: health_pc
  st_jobs :: "(JobEnvelope \<times> string \<times> job_pc) list"
  st_ready :: bool
  st_active :: int64
  st_sem :: 'q
  st_backoff :: exponentialBackoff
  st_group :: 'g
  st_redis :: 's

text \<open>What \<open>NewWorker\<close> makes, at the first statement of \<open>Start(ctx)\<close>.\<close>

definition start_state :: "'q semaphore \<Rightarrow> 'g errgroup \<Rightarrow> 's Worker \<Rightarrow> ctx \<Rightarrow> 's \<Rightarrow> ('q, 'g, 's) wstate" where
  "start_state S G w c s =
     \<lparr>st_start = Launching 0, st_poll = PollIdle, st_reclaim = ReclaimIdle, st_registry = RegistryIdle,
      st_health = HealthIdle, st_jobs = [], st_ready = False, st_active = 0,
      st_sem = NewWeighted S (w_Concurrency (wk_config w)),
      st_backoff = newExponentialBackoff (w_BackoffMinDelay (wk_config w)) (w_BackoffMaxDelay (wk_config w)),
      st_group = group_WithContext G c, st_redis = s\<rparr>"

text \<open>\<open>Ready\<close>: whether the channel is closed. \<open>ActiveJobs\<close>: the counter.\<close>

definition Ready :: "('q, 'g, 's) wstate \<Rightarrow> bool" where
  "Ready st = st_ready st"

definition ActiveJobs :: "('q, 'g, 's) wstate \<Rightarrow> int64" where
  "ActiveJobs st = st_active st"

section \<open>Steps\<close>

text \<open>
  The result of \<open>Start\<close>: \<open>err\<close> is the result of \<open>g.Wait()\<close> and \<open>ctxErr\<close> is \<open>ctx.Err()\<close> of the derived context.
\<close>

definition Worker_Start :: "goerror option \<Rightarrow> ctx \<Rightarrow> goerror option" where
  "Worker_Start err ctxErr = (if err \<noteq> None \<and> ctxErr = None then err else None)"

text \<open>
  The contexts of the calls inside one step (\<open>ctx_since\<close>): once the context of the group is cancelled every call sees it
  cancelled; before that, it may be cancelled between two calls.

  \<open>launch\<close>: the four calls of \<open>g.Go\<close> in \<open>Start\<close>. The select statement of the poll loop has a default, so it goes on to \<open>Consume\<close> only
  while the context is live; the other select statements may take either branch. \<open>Acquire\<close> may succeed with
  a cancelled context, and fails only with one. \<open>ListenAndServe\<close> returns an error, which is \<open>ErrServerClosed\<close> only after
  \<open>Shutdown\<close>. \<open>signal\<close> is the end of the context of the program. \<open>others\<close> is what happens outside of the worker: producers,
  other workers, the passing of time; it does not take messages off the pending list of the worker's group.
\<close>

inductive wstep ::
  "'s redis_client \<Rightarrow> ('s \<Rightarrow> stream_db) \<Rightarrow> ('s \<Rightarrow> bool) \<Rightarrow> 'q semaphore \<Rightarrow> 'g errgroup \<Rightarrow> (float64 \<Rightarrow> int64) \<Rightarrow> 's Worker \<Rightarrow>
   ('q, 'g, 's) wstate \<Rightarrow> ('q, 'g, 's) wstate \<Rightarrow> bool"
  for R db invar S G impl w where
  launch_poll: "st_start st = Launching 0 \<Longrightarrow>
    wstep R db invar S G impl w st (st\<lparr>st_start := Launching 1, st_poll := PollEntry, st_group := group_Go G (st_group st)\<rparr>)"
| launch_reclaim: "st_start st = Launching 1 \<Longrightarrow>
    wstep R db invar S G impl w st (st\<lparr>st_start := Launching 2, st_reclaim := Reclaiming, st_group := group_Go G (st_group st)\<rparr>)"
| launch_registry: "st_start st = Launching 2 \<Longrightarrow>
    wstep R db invar S G impl w st (st\<lparr>st_start := Launching 3, st_registry := Beating, st_group := group_Go G (st_group st)\<rparr>)"
| launch_health: "st_start st = Launching 3 \<Longrightarrow>
    wstep R db invar S G impl w st (st\<lparr>st_start := Waiting, st_health := Serving, st_group := group_Go G (st_group st)\<rparr>)"
| start_returns: "\<lbrakk>st_start st = Waiting; group_Wait G (st_group st) = Some (err, g')\<rbrakk> \<Longrightarrow>
    wstep R db invar S G impl w st
      (st\<lparr>st_start := StartReturned (Worker_Start err (group_Err G g')), st_group := g'\<rparr>)"
| poll_ready: "st_poll st = PollEntry \<Longrightarrow>
    wstep R db invar S G impl w st (st\<lparr>st_poll := Polling, st_ready := True\<rparr>)"
| poll_done: "\<lbrakk>st_poll st = Polling; group_Err G (st_group st) \<noteq> None\<rbrakk> \<Longrightarrow>
    wstep R db invar S G impl w st (st\<lparr>st_poll := PollStopped, st_group := group_return G (st_group st) None\<rparr>)"
| poll_select: "\<lbrakk>st_poll st = Polling; group_Err G (st_group st) = None\<rbrakk> \<Longrightarrow>
    wstep R db invar S G impl w st (st\<lparr>st_poll := Consuming\<rparr>)"
| poll_error: "\<lbrakk>st_poll st = Consuming; ctx_since (group_Err G (st_group st)) c;
    Consume R (wk_consumer w) c (w_PollInterval (wk_config w)) (st_redis st) = ((oe, i, Some e), s');
    0 \<le> u; u < 1; Next impl (Fin u) (st_backoff st) = (delay, eb')\<rbrakk> \<Longrightarrow>
    wstep R db invar S G impl w st (st\<lparr>st_poll := Sleeping delay, st_backoff := eb', st_redis := s'\<rparr>)"
| poll_wake: "st_poll st = Sleeping d \<Longrightarrow> wstep R db invar S G impl w st (st\<lparr>st_poll := Polling\<rparr>)"
| poll_interrupt: "\<lbrakk>st_poll st = Sleeping d; group_Err G (st_group st) \<noteq> None\<rbrakk> \<Longrightarrow>
    wstep R db invar S G impl w st (st\<lparr>st_poll := PollStopped, st_group := group_return G (st_group st) None\<rparr>)"
| poll_empty: "\<lbrakk>st_poll st = Consuming; ctx_since (group_Err G (st_group st)) c;
    Consume R (wk_consumer w) c (w_PollInterval (wk_config w)) (st_redis st) = ((None, i, None), s')\<rbrakk> \<Longrightarrow>
    wstep R db invar S G impl w st (st\<lparr>st_poll := Polling, st_backoff := Reset (st_backoff st), st_redis := s'\<rparr>)"
| poll_message: "\<lbrakk>st_poll st = Consuming; ctx_since (group_Err G (st_group st)) c;
    Consume R (wk_consumer w) c (w_PollInterval (wk_config w)) (st_redis st) = ((Some env, i, None), s')\<rbrakk> \<Longrightarrow>
    wstep R db invar S G impl w st
      (st\<lparr>st_poll := Holding env i, st_backoff := Reset (st_backoff st), st_redis := s'\<rparr>)"
| poll_start: "\<lbrakk>st_poll st = Holding env i; sem_acquire S (st_sem st) 1 = Some q'\<rbrakk> \<Longrightarrow>
    wstep R db invar S G impl w st
      (st\<lparr>st_poll := Polling, st_sem := q', st_jobs := st_jobs st @ [(env, i, Spawned)],
          st_group := group_Go G (st_group st)\<rparr>)"
| poll_abandon: "\<lbrakk>st_poll st = Holding env i; group_Err G (st_group st) \<noteq> None\<rbrakk> \<Longrightarrow>
    wstep R db invar S G impl w st (st\<lparr>st_poll := PollStopped, st_group := group_return G (st_group st) None\<rparr>)"
| reclaim_tick: "st_reclaim st = AwaitTick \<Longrightarrow> wstep R db invar S G impl w st (st\<lparr>st_reclaim := Reclaiming\<rparr>)"
| reclaim_fails: "\<lbrakk>st_reclaim st = Reclaiming; \<forall>n. ctx_since (group_Err G (st_group st)) (cx n);
    tryReclaim R w cx (st_redis st) = Some (Err e, s')\<rbrakk> \<Longrightarrow>
    wstep R db invar S G impl w st (st\<lparr>st_reclaim := AwaitTick, st_redis := s'\<rparr>)"
| reclaim_jobs: "\<lbrakk>st_reclaim st = Reclaiming; \<forall>n. ctx_since (group_Err G (st_group st)) (cx n);
    tryReclaim R w cx (st_redis st) = Some (Ok jobs, s')\<rbrakk> \<Longrightarrow>
    wstep R db invar S G impl w st (st\<lparr>st_reclaim := Starting jobs, st_redis := s'\<rparr>)"
| reclaim_start: "\<lbrakk>st_reclaim st = Starting ((env, i) # jobs); sem_acquire S (st_sem st) 1 = Some q'\<rbrakk> \<Longrightarrow>
    wstep R db invar S G impl w st
      (st\<lparr>st_reclaim := Starting jobs, st_sem := q', st_jobs := st_jobs st @ [(env, i, Spawned)],
          st_group := group_Go G (st_group st)\<rparr>)"
| reclaim_end: "st_reclaim st = Starting [] \<Longrightarrow> wstep R db invar S G impl w st (st\<lparr>st_reclaim := AwaitTick\<rparr>)"
| reclaim_abandon: "\<lbrakk>st_reclaim st = Starting (job # jobs); group_Err G (st_group st) \<noteq> None\<rbrakk> \<Longrightarrow>
    wstep R db invar S G impl w st (st\<lparr>st_reclaim := AwaitTick\<rparr>)"
| reclaim_done: "\<lbrakk>st_reclaim st = AwaitTick; group_Err G (st_group st) \<noteq> None\<rbrakk> \<Longrightarrow>
    wstep R db invar S G impl w st (st\<lparr>st_reclaim := ReclaimStopped, st_group := group_return G (st_group st) None\<rparr>)"
| beat: "\<lbrakk>st_registry st = Beating; ctx_since (group_Err G (st_group st)) c;
    Heartbeat R c now (wk_workerID w) (st_redis st) = (r, s')\<rbrakk> \<Longrightarrow>
    wstep R db invar S G impl w st (st\<lparr>st_registry := AwaitBeat, st_redis := s'\<rparr>)"
| beat_tick: "st_registry st = AwaitBeat \<Longrightarrow> wstep R db invar S G impl w st (st\<lparr>st_registry := Beating\<rparr>)"
| registry_done: "\<lbrakk>st_registry st = AwaitBeat; group_Err G (st_group st) \<noteq> None\<rbrakk> \<Longrightarrow>
    wstep R db invar S G impl w st (st\<lparr>st_registry := RegistryStopped, st_group := group_return G (st_group st) None\<rparr>)"
| health_returns: "\<lbrakk>st_health st = Serving; errors_Is e ErrServerClosed \<Longrightarrow> group_Err G (st_group st) \<noteq> None\<rbrakk> \<Longrightarrow>
    wstep R db invar S G impl w st
      (st\<lparr>st_health := HealthStopped, st_group := group_return G (st_group st) (HealthServer_Start (Some e))\<rparr>)"
| signal: "group_Err G (st_group st) = None \<Longrightarrow>
    wstep R db invar S G impl w st (st\<lparr>st_group := group_signal G (st_group st) e\<rparr>)"
| job_begin: "\<lbrakk>j < length (st_jobs st); st_jobs st ! j = (env, i, Spawned)\<rbrakk> \<Longrightarrow>
    wstep R db invar S G impl w st
      (st\<lparr>st_active := wrap64 (st_active st + 1), st_jobs := (st_jobs st)[j := (env, i, Processing)]\<rparr>)"
| job_process: "\<lbrakk>j < length (st_jobs st); st_jobs st ! j = (env, i, Processing);
    wk_processor w env (st_redis st) = (outcome, s')\<rbrakk> \<Longrightarrow>
    wstep R db invar S G impl w st
      (st\<lparr>st_jobs := (st_jobs st)[j := (env, i, Processed outcome)], st_redis := s'\<rparr>)"
| job_settle: "\<lbrakk>j < length (st_jobs st); st_jobs st ! j = (env, i, Processed outcome);
    \<forall>n. ctx_since (group_Err G (st_group st)) (cx n);
    settle R w now cx env i outcome (st_redis st) = (Ok u, s')\<rbrakk> \<Longrightarrow>
    wstep R db invar S G impl w st
      (st\<lparr>st_jobs := (st_jobs st)[j := (env, i, Settled)], st_redis := s'\<rparr>)"
| job_end: "\<lbrakk>j < length (st_jobs st); st_jobs st ! j = (env, i, Settled)\<rbrakk> \<Longrightarrow>
    wstep R db invar S G impl w st
      (st\<lparr>st_active := wrap64 (st_active st - 1), st_sem := sem_release S (st_sem st) 1,
          st_jobs := take j (st_jobs st) @ drop (Suc j) (st_jobs st), st_group := group_return G (st_group st) None\<rparr>)"
| others: "\<lbrakk>invar s'; wpend (db (st_redis st)) w \<subseteq> wpend (db s') w\<rbrakk> \<Longrightarrow>
    wstep R db invar S G impl w st (st\<lparr>st_redis := s'\<rparr>)"

inductive_simps wstep_simps: "wstep R db invar S G impl w st st'"

inductive reachable ::
  "'s redis_client \<Rightarrow> ('s \<Rightarrow> stream_db) \<Rightarrow> ('s \<Rightarrow> bool) \<Rightarrow> 'q semaphore \<Rightarrow> 'g errgroup \<Rightarrow> (float64 \<Rightarrow> int64) \<Rightarrow> 's Worker \<Rightarrow>
   's \<Rightarrow> ('q, 'g, 's) wstate \<Rightarrow> bool"
  for R db invar S G impl w s0 where
  init: "reachable R db invar S G impl w s0 (start_state S G w c s0)"
| step: "\<lbrakk>reachable R db invar S G impl w s0 st; wstep R db invar S G impl w st st'\<rbrakk> \<Longrightarrow>
         reachable R db invar S G impl w s0 st'"

section \<open>The invariant\<close>

fun is_active :: "JobEnvelope \<times> string \<times> job_pc \<Rightarrow> bool" where
  "is_active (env, i, Spawned) \<longleftrightarrow> False"
| "is_active (env, i, _) \<longleftrightarrow> True"

definition active_jobs :: "(JobEnvelope \<times> string \<times> job_pc) list \<Rightarrow> nat" where
  "active_jobs js = length (filter is_active js)"

definition worker_inv :: "('q \<Rightarrow> int) \<Rightarrow> ('q \<Rightarrow> int) \<Rightarrow> 's Worker \<Rightarrow> ('q, 'g, 's) wstate \<Rightarrow> bool" where
  "worker_inv held capacity w st \<longleftrightarrow>
     st_active st = int (active_jobs (st_jobs st)) \<and>
     held (st_sem st) = int (length (st_jobs st)) \<and>
     capacity (st_sem st) = w_Concurrency (wk_config w) \<and>
     int (length (st_jobs st)) \<le> w_Concurrency (wk_config w) \<and>
     backoff_ok (st_backoff st)"

lemma active_jobs_simps [simp]:
  "active_jobs [] = 0" "active_jobs (js @ js') = active_jobs js + active_jobs js'"
  "active_jobs (x # js) = (if is_active x then 1 else 0) + active_jobs js"
  by (simp_all add: active_jobs_def)

lemma active_jobs_le: "active_jobs js \<le> length js"
  by (simp add: active_jobs_def)

lemma active_jobs_update:
  assumes "j < length js"
  shows "int (active_jobs (js[j := x])) = int (active_jobs js) + of_bool (is_active x) - of_bool (is_active (js ! j))"
proof -
  have "active_jobs js = active_jobs (take j js @ js ! j # drop (Suc j) js)"
    using id_take_nth_drop [OF assms] by simp
  then show ?thesis using assms by (simp add: upd_conv_take_nth_drop)
qed

lemma active_jobs_remove:
  assumes "j < length js" "is_active (js ! j)"
  shows "int (active_jobs (take j js @ drop (Suc j) js)) = int (active_jobs js) - 1"
proof -
  have "active_jobs js = active_jobs (take j js @ js ! j # drop (Suc j) js)"
    using id_take_nth_drop [OF assms(1)] by simp
  then show ?thesis using assms(2) by simp
qed

lemma active_in64:
  assumes "int (length js) \<le> n" "in64 n" shows "in64 (int (active_jobs js))"
  using active_jobs_le [of js] assms by (simp add: in64_def)

context weighted_semaphore
begin

lemma inv_spawn:
  assumes "worker_inv held capacity w st" "sem_acquire S (st_sem st) 1 = Some q'"
    and "st_jobs st' = st_jobs st @ [(env, i, Spawned)]" "st_sem st' = q'"
    and "st_active st' = st_active st" "st_backoff st' = st_backoff st"
  shows "worker_inv held capacity w st'"
  using acquire [OF assms(2)] assms(1,3-6) by (simp add: worker_inv_def)

lemma inv_job:
  assumes "worker_inv held capacity w st" "j < length (st_jobs st)"
    and "st_jobs st' = (st_jobs st)[j := x]" "st_sem st' = st_sem st" "st_backoff st' = st_backoff st"
    and "st_active st' = wrap64 (st_active st + of_bool (is_active x) - of_bool (is_active (st_jobs st ! j)))"
    and "in64 (w_Concurrency (wk_config w))"
  shows "worker_inv held capacity w st'"
proof -
  have "in64 (int (active_jobs ((st_jobs st)[j := x])))"
    using assms(1,7) by (intro active_in64) (auto simp: worker_inv_def)
  with assms(1,3-6) active_jobs_update [OF assms(2), of x] show ?thesis by (simp add: worker_inv_def)
qed

lemma inv_job_end:
  assumes "worker_inv held capacity w st" "j < length (st_jobs st)" "is_active (st_jobs st ! j)"
    and "st_active st' = wrap64 (st_active st - 1)" "st_sem st' = sem_release S (st_sem st) 1"
    and "st_jobs st' = take j (st_jobs st) @ drop (Suc j) (st_jobs st)" "st_backoff st' = st_backoff st"
    and "in64 (w_Concurrency (wk_config w))"
  shows "worker_inv held capacity w st'"
proof -
  have len: "int (length (st_jobs st')) = int (length (st_jobs st)) - 1" using assms(2,6) by simp
  then have "in64 (int (active_jobs (st_jobs st')))"
    using assms(1,8) by (intro active_in64) (auto simp: worker_inv_def)
  moreover have "1 \<le> held (st_sem st)" using assms(1,2) by (simp add: worker_inv_def)
  moreover have "st_active st - 1 = int (active_jobs (st_jobs st'))"
    using assms(1) active_jobs_remove [OF assms(2,3)] by (simp add: worker_inv_def assms(6))
  ultimately show ?thesis using assms(1) release [of 1 "st_sem st"] len
    by (simp add: worker_inv_def assms(4,5,7))
qed

lemma inv_wrap:
  "\<lbrakk>worker_inv held capacity w st; in64 (w_Concurrency (wk_config w))\<rbrakk> \<Longrightarrow> wrap64 (st_active st) = st_active st"
  using active_in64 [of "st_jobs st" "w_Concurrency (wk_config w)"] by (simp add: worker_inv_def)

lemma inv_step:
  assumes "worker_inv held capacity w st" "wstep R db invar S G impl w st st'" "in64 (w_Concurrency (wk_config w))"
  shows "worker_inv held capacity w st'"
  using assms(2)
proof cases
  case (poll_error c oe i e s' u delay eb')
  then show ?thesis using assms(1) Next_spec [OF _ poll_error(5-7)] by (simp add: worker_inv_def)
next
  case (poll_start env i q')
  then show ?thesis by (intro inv_spawn [OF assms(1) poll_start(3)]) simp_all
next
  case (reclaim_start env i jobs q')
  then show ?thesis by (intro inv_spawn [OF assms(1) reclaim_start(3)]) simp_all
next
  case (job_begin j env i)
  then show ?thesis by (intro inv_job [where x = "(env, i, Processing)", OF assms(1) job_begin(2) _ _ _ _ assms(3)]) simp_all
next
  case (job_process j env i outcome s')
  then show ?thesis using inv_wrap [OF assms(1,3)]
    by (intro inv_job [where x = "(env, i, Processed outcome)", OF assms(1) job_process(2) _ _ _ _ assms(3)]) simp_all
next
  case (job_settle j env i outcome cx now u s')
  then show ?thesis using inv_wrap [OF assms(1,3)]
    by (intro inv_job [where x = "(env, i, Settled)", OF assms(1) job_settle(2) _ _ _ _ assms(3)]) simp_all
next
  case (job_end j env i)
  then show ?thesis by (intro inv_job_end [OF assms(1) job_end(2) _ _ _ _ _ assms(3)]) simp_all
qed (use assms(1) in \<open>auto simp: worker_inv_def backoff_ok_def Reset_def\<close>)

lemma inv_start:
  assumes "0 \<le> w_Concurrency (wk_config w)" "0 < w_BackoffMinDelay (wk_config w)"
    "w_BackoffMinDelay (wk_config w) \<le> w_BackoffMaxDelay (wk_config w)" "w_BackoffMaxDelay (wk_config w) \<le> 2 ^ 51"
  shows "worker_inv held capacity w (start_state S G w c s)"
  using assms new by (simp add: worker_inv_def start_state_def backoff_ok_def newExponentialBackoff_def)

lemma inv_reachable:
  assumes cfg: "0 \<le> w_Concurrency (wk_config w)" "in64 (w_Concurrency (wk_config w))" "0 < w_BackoffMinDelay (wk_config w)"
      "w_BackoffMinDelay (wk_config w) \<le> w_BackoffMaxDelay (wk_config w)" "w_BackoffMaxDelay (wk_config w) \<le> 2 ^ 51"
    and "reachable R db invar S G impl w s0 st"
  shows "worker_inv held capacity w st"
  using assms(6)
proof induction
  case (init c)
  then show ?case using inv_start [OF cfg(1,3-5)] .
next
  case (step st st')
  then show ?case using inv_step [OF _ _ cfg(2)] by blast
qed

end

section \<open>The life of the goroutines\<close>

definition live_loops :: "('q, 'g, 's) wstate \<Rightarrow> nat" where
  "live_loops st = of_bool (st_poll st \<notin> {PollIdle, PollStopped}) + of_bool (st_reclaim st \<notin> {ReclaimIdle, ReclaimStopped}) +
     of_bool (st_registry st \<notin> {RegistryIdle, RegistryStopped}) + of_bool (st_health st = Serving)"

text \<open>Which loops \<open>Start\<close> has launched.\<close>

definition launched :: "('q, 'g, 's) wstate \<Rightarrow> bool" where
  "launched st \<longleftrightarrow>
     (\<forall>n. st_start st = Launching n \<longrightarrow> n \<le> 3) \<and>
     (st_poll st = PollIdle \<longleftrightarrow> st_start st = Launching 0) \<and>
     (st_reclaim st = ReclaimIdle \<longleftrightarrow> st_start st \<in> Launching ` {0, 1}) \<and>
     (st_registry st = RegistryIdle \<longleftrightarrow> st_start st \<in> Launching ` {0, 1, 2}) \<and>
     (st_health st = HealthIdle \<longleftrightarrow> st_start st \<in> Launching ` {0, 1, 2, 3})"

text \<open>
  The group counts the loops and the jobs; the channel \<open>ready\<close> is closed exactly when the poll loop has begun; and once
  \<open>Start\<close> has returned nothing runs any more and the context is cancelled.
\<close>

definition group_inv :: "'g errgroup \<Rightarrow> ('g \<Rightarrow> nat) \<Rightarrow> ('q, 'g, 's) wstate \<Rightarrow> bool" where
  "group_inv G running st \<longleftrightarrow>
     running (st_group st) = live_loops st + length (st_jobs st) \<and>
     (st_ready st \<longleftrightarrow> st_poll st \<notin> {PollIdle, PollEntry}) \<and>
     (\<forall>r. st_start st = StartReturned r \<longrightarrow> r = None \<and> running (st_group st) = 0 \<and> group_Err G (st_group st) \<noteq> None)"

lemma Worker_Start_never_fails: "ctxErr \<noteq> None \<Longrightarrow> Worker_Start err ctxErr = None"
  by (auto simp: Worker_Start_def)

lemma launched_step:
  assumes "launched st" "wstep R db invar S G impl w st st'" shows "launched st'"
  using assms(2) by cases (use assms(1) in \<open>auto simp: launched_def\<close>)

context error_group
begin

lemma group_simps [simp]:
  "running (group_Go G g) = Suc (running g)" "group_Err G (group_Go G g) = group_Err G g"
  "running (group_signal G g e) = running g" "group_Err G (group_signal G g e) \<noteq> None"
  "0 < running g \<Longrightarrow> running (group_return G g r) = running g - 1"
  "0 < running g \<Longrightarrow> group_Err G (group_return G g None) = group_Err G g"
  using group_go group_ret group_sig by auto

lemma count_step:
  assumes "running (st_group st) = live_loops st + length (st_jobs st)" "launched st" "wstep R db invar S G impl w st st'"
  shows "running (st_group st') = live_loops st' + length (st_jobs st')"
  using assms(3)
proof cases
  case (start_returns err g')
  from group_wait [OF start_returns(3)] assms(1) start_returns show ?thesis by (simp add: live_loops_def)
next
  case (job_end j env i)
  then have "length (st_jobs st) = Suc (length (st_jobs st'))" "live_loops st' = live_loops st" by (simp_all add: live_loops_def)
  moreover from job_end have "st_group st' = group_return G (st_group st) None" by simp
  ultimately show ?thesis using assms(1) by simp
next
  case launch_poll
  then have "st_poll st = PollIdle" using assms(2) by (simp add: launched_def)
  with launch_poll assms(1) show ?thesis by (simp add: live_loops_def)
next
  case launch_reclaim
  then have "st_reclaim st = ReclaimIdle" using assms(2) by (simp add: launched_def)
  with launch_reclaim assms(1) show ?thesis by (simp add: live_loops_def)
next
  case launch_registry
  then have "st_registry st = RegistryIdle" using assms(2) by (simp add: launched_def)
  with launch_registry assms(1) show ?thesis by (simp add: live_loops_def)
next
  case launch_health
  then have "st_health st = HealthIdle" using assms(2) by (simp add: launched_def)
  with launch_health assms(1) show ?thesis by (simp add: live_loops_def)
qed (use assms(1) in \<open>simp_all add: live_loops_def\<close>)

text \<open>When \<open>Start\<close> has returned, only the world outside of the worker takes steps.\<close>

lemma returned_step:
  assumes "group_inv G running st" "st_start st = StartReturned r" "wstep R db invar S G impl w st st'"
  shows "st' = st\<lparr>st_redis := st_redis st'\<rparr>"
proof -
  from assms(1,2) have "st_jobs st = []" "st_poll st \<in> {PollIdle, PollStopped}" "st_reclaim st \<in> {ReclaimIdle, ReclaimStopped}"
    "st_registry st \<in> {RegistryIdle, RegistryStopped}" "st_health st \<noteq> Serving" "group_Err G (st_group st) \<noteq> None"
    by (auto simp: group_inv_def live_loops_def)
  with assms(2,3) show ?thesis by (elim wstep.cases) auto
qed

lemma ready_step:
  assumes "st_ready st \<longleftrightarrow> st_poll st \<notin> {PollIdle, PollEntry}" "launched st" "wstep R db invar S G impl w st st'"
  shows "st_ready st' \<longleftrightarrow> st_poll st' \<notin> {PollIdle, PollEntry}"
  using assms(3)
proof cases
  case launch_poll
  then have "st_poll st = PollIdle" using assms(2) by (simp add: launched_def)
  with launch_poll assms(1) show ?thesis by simp
qed (use assms(1) in simp_all)

lemma group_step:
  assumes "group_inv G running st" "launched st" "wstep R db invar S G impl w st st'"
  shows "group_inv G running st'"
proof -
  have "r = None \<and> running (st_group st') = 0 \<and> group_Err G (st_group st') \<noteq> None" if "st_start st' = StartReturned r" for r
  proof (cases "\<exists>r'. st_start st = StartReturned r'")
    case True
    then obtain r' where r': "st_start st = StartReturned r'" by blast
    from returned_step [OF assms(1) r' assms(3)] have "st_start st' = st_start st" "st_group st' = st_group st"
      by (metis wstate.select_convs wstate.surjective wstate.update_convs(12))+
    with assms(1) r' that show ?thesis by (auto simp: group_inv_def)
  next
    case False
    from assms(3) that False obtain err g' where "group_Wait G (st_group st) = Some (err, g')" "st_group st' = g'"
      "r = Worker_Start err (group_Err G g')" by cases auto
    with group_wait [OF this(1)] show ?thesis by (simp add: Worker_Start_never_fails)
  qed
  with assms(1) count_step [OF _ assms(2,3)] ready_step [OF _ assms(2,3)] show ?thesis by (simp add: group_inv_def)
qed

lemma group_init: "group_inv G running (start_state S G w c s) \<and> launched (start_state S G w c s)"
  using group_new by (auto simp: group_inv_def launched_def live_loops_def start_state_def)

lemma group_reachable:
  "reachable R db invar S G impl w s0 st \<Longrightarrow> group_inv G running st \<and> launched st"
proof (induction rule: reachable.induct)
  case (init c)
  then show ?case by (rule group_init)
next
  case (step st st')
  then show ?case using group_step launched_step by blast
qed

text \<open>A context that is cancelled stays cancelled.\<close>

lemma cancelled_return:
  assumes "0 < running g" "group_Err G g \<noteq> None" shows "group_Err G (group_return G g r) \<noteq> None"
  using group_ret [OF assms(1), of r] assms(2) by (cases r) auto

lemma cancelled_step:
  assumes "group_inv G running st" "wstep R db invar S G impl w st st'" "group_Err G (st_group st) \<noteq> None"
  shows "group_Err G (st_group st') \<noteq> None"
  using assms(2)
proof cases
  case (start_returns err g')
  with group_wait [OF start_returns(3)] show ?thesis by auto
next
  case (job_end j env i)
  then have "0 < running (st_group st)" using assms(1) by (auto simp: group_inv_def)
  from cancelled_return [OF this assms(3)] job_end show ?thesis by simp
next
  case (health_returns e)
  then have "0 < running (st_group st)" using assms(1) by (auto simp: group_inv_def live_loops_def)
  from cancelled_return [OF this assms(3)] health_returns show ?thesis by simp
qed (use assms(1,3) in \<open>auto simp: group_inv_def live_loops_def\<close>)

end

section \<open>Messages stay pending\<close>

context redis_streams
begin

lemma Consume_pend:
  assumes "invar s" "Consume R co c b s = (res, s')"
  shows "invar s' \<and> set (pend (db s) (co_streamName co) (co_consumerGroup co)) \<subseteq> set (pend (db s') (co_streamName co) (co_consumerGroup co))"
proof -
  obtain x s1 where x: "XReadGroup R c (co_consumerGroup co) (co_consumerName co) (co_streamName co) 1 b s = (x, s1)"
    by fastforce
  have "s1 = s'" using assms(2) x by (auto simp: Consume_def split: sum.splits if_splits list.splits prod.splits)
  then show ?thesis
    using x xread_ok [OF assms(1)] xread_err [OF assms(1)] by (cases x) (fastforce simp: db_deliver_def)+
qed

end

context redis_server
begin

lemma tryReclaim_returns:
  assumes "invar s"
  shows "\<exists>x s'. tryReclaim R w cx s = Some (x, s') \<and> x \<noteq> Panic \<and> invar s' \<and> ents (db s') = ents (db s) \<and>
    (\<forall>jobs. x = Ok jobs \<longrightarrow> claimed_from (db s) (wk_consumer w) jobs) \<and>
    (\<forall>i\<in>wpend (db s) w. i \<in> fst ` set (ents (db s) (co_streamName (wk_consumer w))) \<longrightarrow> i \<in> wpend (db s') w)"
proof -
  obtain x s1 where x: "SetNX R (cx 0) (reclaim_lockKey w) (wk_workerID w) (w_ReclaimInterval (wk_config w)) s = (x, s1)"
    by fastforce
  note s1 = setnx_streams [OF assms x]
  from reclaimStale_returns [of s1 w "\<lambda>j. cx (Suc j)"] s1 show ?thesis
    by (cases x) (auto simp: tryReclaim_def x claimed_from_def)
qed

end

context redis_backend
begin

lemma Heartbeat_streams:
  assumes "invar s" "Heartbeat R c t wid s = (r, s')" shows "invar s' \<and> db s' = db s"
  using assms hset_streams [OF assms(1)] by (auto simp: Heartbeat_def split: prod.splits sum.splits)

text \<open>A message leaves the pending list only by the settlement of its job, or when its entry is no longer in the stream.\<close>

lemma wstep_pend:
  assumes P: "stream_safe_processor db invar (wk_processor w)" and s: "invar (st_redis st)"
    and step: "wstep R db invar S G impl w st st'"
  shows "invar (st_redis st') \<and>
    (\<forall>i\<in>wpend (db (st_redis st)) w. i \<in> wpend (db (st_redis st')) w \<or>
       i \<notin> fst ` set (ents (db (st_redis st)) (co_streamName (wk_consumer w))) \<or>
       (\<exists>env outcome. (env, i, Processed outcome) \<in> set (st_jobs st) \<and> outcome \<noteq> Panic))"
  using step
proof cases
  case (poll_error c oe i e s' u delay eb')
  with Consume_pend [OF s poll_error(4)] show ?thesis by auto
next
  case (poll_empty c i s')
  with Consume_pend [OF s poll_empty(4)] show ?thesis by auto
next
  case (poll_message c env i s')
  with Consume_pend [OF s poll_message(4)] show ?thesis by auto
next
  case (reclaim_fails cx e s')
  with tryReclaim_returns [OF s, of w cx] show ?thesis by auto
next
  case (reclaim_jobs cx jobs s')
  with tryReclaim_returns [OF s, of w cx] show ?thesis by auto
next
  case (beat c now r s')
  with Heartbeat_streams [OF s beat(4)] show ?thesis by auto
next
  case (job_process j env i outcome s')
  with stream_safe_processor.process_safe [OF P s job_process(4)] show ?thesis by auto
next
  case (job_settle j env i outcome cx now u s')
  then have "(env, i, Processed outcome) \<in> set (st_jobs st)" by (metis nth_mem)
  with job_settle settle_pend [OF s job_settle(5)] show ?thesis by auto
qed (use s in auto)

lemma reachable_invar:
  assumes "stream_safe_processor db invar (wk_processor w)" "invar s0" "reachable R db invar S G impl w s0 st"
  shows "invar (st_redis st)"
  using assms(3)
proof induction
  case (init c)
  then show ?case using assms(2) by (simp add: start_state_def)
next
  case (step st st')
  then show ?case using wstep_pend [OF assms(1)] by blast
qed

end

section \<open>Properties\<close>

text \<open>
  C6: Bounded concurrency. In every state that a worker can reach, for every interleaving of the
  loops and the jobs and for every behaviour of Redis and of the
  processor, \<open>activeJobs\<close> is the number of jobs between their first and their last statement, it is
  between zero and \<open>Concurrency\<close>, the semaphore holds one permit for every started job, and
  the backoff is within its bounds.
\<close>

theorem worker_concurrency_bounded:
  assumes S: "weighted_semaphore S held capacity"
    and cfg: "0 \<le> w_Concurrency (wk_config w)" "in64 (w_Concurrency (wk_config w))" "0 < w_BackoffMinDelay (wk_config w)"
      "w_BackoffMinDelay (wk_config w) \<le> w_BackoffMaxDelay (wk_config w)" "w_BackoffMaxDelay (wk_config w) \<le> 2 ^ 51"
    and reach: "reachable R db invar S G impl w s0 st"
  shows "ActiveJobs st = int (active_jobs (st_jobs st)) \<and> 0 \<le> ActiveJobs st \<and> ActiveJobs st \<le> w_Concurrency (wk_config w) \<and>
         held (st_sem st) = int (length (st_jobs st)) \<and> backoff_ok (st_backoff st)"
  using weighted_semaphore.inv_reachable [OF S cfg reach] active_jobs_le [of "st_jobs st"]
  by (simp add: worker_inv_def ActiveJobs_def)

text \<open>
  C7: No step of a running worker drops a message. From a reachable state, a message that is
  pending for the group stays pending in every step, except that the settlement of a job that has
  been processed without a panic takes its own message off the list, and that \<open>XAUTOCLAIM\<close> may
  remove a message whose entry is no longer in the stream. In particular abandoning a message when
  the context ends, failed reads and failed reclaims leave it to be reclaimed.
\<close>

theorem worker_keeps_messages:
  assumes R: "redis_backend R db invar rank now kv hv" and P: "stream_safe_processor db invar (wk_processor w)"
    and s0: "invar s0" and reach: "reachable R db invar S G impl w s0 st" and step: "wstep R db invar S G impl w st st'"
    and i: "i \<in> wpend (db (st_redis st)) w"
  shows "i \<in> wpend (db (st_redis st')) w \<or>
         i \<notin> fst ` set (ents (db (st_redis st)) (co_streamName (wk_consumer w))) \<or>
         (\<exists>env outcome. (env, i, Processed outcome) \<in> set (st_jobs st) \<and> outcome \<noteq> Panic)"
  using redis_backend.wstep_pend [OF R P redis_backend.reachable_invar [OF R P s0 reach] step] i by blast

section \<open>Witnesses\<close>

text \<open>A counting semaphore: the permits given out and the size.\<close>

definition counting :: "(int \<times> int) semaphore" where
  "counting = \<lparr>NewWeighted = (\<lambda>n. (0, n)),
     sem_acquire = (\<lambda>(h, n) k. if h + k \<le> n then Some (h + k, n) else None),
     sem_release = (\<lambda>(h, n) k. (h - k, n))\<rparr>"

interpretation counting_sem: weighted_semaphore counting fst snd
  by unfold_locales (auto simp: counting_def split: if_splits)

text \<open>An error group: the number of running functions, the first error and the context.\<close>

definition simple_group :: "(nat \<times> goerror option \<times> ctx) errgroup" where
  "simple_group = \<lparr>group_WithContext = (\<lambda>c. (0, None, c)), group_Go = (\<lambda>(n, f, c). (Suc n, f, c)),
     group_return = (\<lambda>(n, f, c) r. (n - 1, if f = None then r else f, if r \<noteq> None \<and> c = None then Some ContextCanceled else c)),
     group_Wait = (\<lambda>(n, f, c). if n = 0 then Some (f, (0, f, if c = None then Some ContextCanceled else c)) else None),
     group_signal = (\<lambda>(n, f, c) e. (n, f, if c = None then Some e else c)), group_Err = (\<lambda>(n, f, c). c)\<rparr>"

interpretation simple_errgroup: error_group simple_group fst "\<lambda>g. fst (snd g)"
  by unfold_locales (auto simp: simple_group_def split: if_splits)

abbreviation demo_plain :: "mem Worker" where
  "demo_plain \<equiv> demo_worker (\<lambda>env s. (Ok (), s))"

lemma demo_plain_facts:
  "wk_config demo_plain = DefaultWorker" "stream_safe_processor m_db mem_inv (wk_processor demo_plain)"
  "fst (wk_processor demo_plain env s) \<noteq> Panic" "''0-1'' \<in> wpend (m_db demo_pending) demo_plain"
  "''0-1'' \<in> fst ` set (ents (m_db demo_pending) (co_streamName (wk_consumer demo_plain)))"
  by (simp_all add: demo_worker_def NewWorker_def stream_safe_processor_def demo_consumer_def
      NewConsumer_def demo_pending_def demo_pending_db_def)

text \<open>The worker at the end of a shutdown that was requested before it started.\<close>

definition demo_stopping :: "(int \<times> int, nat \<times> goerror option \<times> ctx, mem) wstate" where
  "demo_stopping = start_state counting simple_group demo_plain (Some ContextCanceled) demo_pending"

lemma demo_stopping_reachable: "reachable memory m_db mem_inv counting simple_group impl demo_plain demo_pending demo_stopping"
  unfolding demo_stopping_def by (rule reachable.init)

lemma demo_stopping_cancelled: "group_Err simple_group (st_group demo_stopping) \<noteq> None" "st_redis demo_stopping = demo_pending"
  by (simp_all add: demo_stopping_def start_state_def simple_group_def)

theorem worker_concurrency_bounded_witness:
  "ActiveJobs demo_stopping \<le> w_Concurrency DefaultWorker"
  using worker_concurrency_bounded [OF counting_sem.weighted_semaphore_axioms _ _ _ _ _ demo_stopping_reachable]
  by (simp add: demo_plain_facts(1) DefaultWorker_def in64_def)

theorem worker_keeps_messages_witness:
  "\<exists>st'. wstep memory m_db mem_inv counting simple_group (\<lambda>_. 0) demo_plain demo_stopping st' \<and> ''0-1'' \<in> wpend (m_db (st_redis st')) demo_plain"
proof -
  let ?st = "demo_stopping\<lparr>st_start := Launching 1, st_poll := PollEntry, st_group := group_Go simple_group (st_group demo_stopping)\<rparr>"
  have step: "wstep memory m_db mem_inv counting simple_group (\<lambda>_. 0) demo_plain demo_stopping ?st"
    by (rule launch_poll) (simp add: demo_stopping_def start_state_def)
  have "st_jobs demo_stopping = []" by (simp add: demo_stopping_def start_state_def)
  with worker_keeps_messages [OF mem_backend.redis_backend_axioms demo_plain_facts(2) demo_pending_inv demo_stopping_reachable step, of "''0-1''"]
    demo_plain_facts(4,5) step demo_stopping_cancelled(2) show ?thesis by auto
qed

end
