(* ===== verification/Transition_Systems.thy ===== *)
theory Transition_Systems
  imports Main
begin

text \<open>
  Step relations: that a goal is reached whatever steps are taken. Some steps are quiet (a ticker fires, something happens outside
  of the program); a goal that is reached in spite of any finite number of quiet steps is called inevitable.
\<close>

inductive inevitable :: "('a \<Rightarrow> 'a \<Rightarrow> bool) \<Rightarrow> ('a \<Rightarrow> 'a \<Rightarrow> bool) \<Rightarrow> ('a \<Rightarrow> bool) \<Rightarrow> nat \<Rightarrow> 'a \<Rightarrow> bool"
  for step quiet goal where
  reached: "goal x \<Longrightarrow> inevitable step quiet goal n x"
| onward: "\<lbrakk>\<exists>y. step x y \<and> \<not> quiet x y;
    \<And>y. \<lbrakk>step x y; \<not> quiet x y\<rbrakk> \<Longrightarrow> inevitable step quiet goal n y;
    \<And>m y. \<lbrakk>n = Suc m; step x y; quiet x y\<rbrakk> \<Longrightarrow> inevitable step quiet goal m y\<rbrakk> \<Longrightarrow>
    inevitable step quiet goal n x"

lemma inevitable_run:
  assumes "inevitable step quiet goal n x" shows "\<exists>y. step\<^sup>*\<^sup>* x y \<and> goal y"
  using assms
proof induction
  case (onward x n)
  then obtain y where "step x y" "\<not> quiet x y" by blast
  with onward show ?case by (meson converse_rtranclp_into_rtranclp)
qed blast

text \<open>
  How to prove it: an invariant under which every step that is not quiet goes down a well-founded order, and under which
  such a step exists until the goal is reached.
\<close>

locale draining =
  fixes step :: "'a \<Rightarrow> 'a \<Rightarrow> bool"
    and quiet :: "'a \<Rightarrow> 'a \<Rightarrow> bool"
    and goal :: "'a \<Rightarrow> bool"
    and good :: "'a \<Rightarrow> bool"
    and order :: "('a \<times> 'a) set"
  assumes well_founded: "wf order"
    and preserved: "\<lbrakk>good x; step x y\<rbrakk> \<Longrightarrow> good y"
    and progress: "\<lbrakk>good x; \<not> goal x\<rbrakk> \<Longrightarrow> \<exists>y. step x y \<and> \<not> quiet x y"
    and decreases: "\<lbrakk>good x; step x y; \<not> quiet x y\<rbrakk> \<Longrightarrow> (y, x) \<in> order"
begin

theorem drains:
  assumes "good x" shows "inevitable step quiet goal n x"
  using assms
proof (induction n arbitrary: x rule: less_induct)
  case outer: (less n)
  show ?case using well_founded outer.prems
  proof (induction x rule: wf_induct_rule)
    case (less x)
    show ?case
    proof (cases "goal x")
      case False
      show ?thesis
      proof (rule onward)
        show "\<exists>y. step x y \<and> \<not> quiet x y" using progress [OF less.prems False] .
        show "inevitable step quiet goal n y" if "step x y" "\<not> quiet x y" for y
          using less.IH [OF decreases [OF less.prems that] preserved [OF less.prems that(1)]] .
        show "inevitable step quiet goal m y" if "n = Suc m" "step x y" "quiet x y" for m y
          using outer.IH [of m] preserved [OF less.prems that(2)] that(1) by simp
      qed
    qed (rule reached)
  qed
qed

end

end
