(* ===== verification/Worker_Shutdown.thy ===== *)
theory Worker_Shutdown
  imports Worker_Concurrency Transition_Systems
begin

text \<open>
  The end of \<open>Worker.Start\<close> (\<open>internal/worker/worker.go\<close>): that it returns once its context is cancelled, what has ended when it
  has returned, and what happens to the jobs that are in flight at that moment.
\<close>

section \<open>Shutdown\<close>

text \<open>
  Once the context is cancelled, the steps of the worker itself, apart from the two tickers, lead to the return of \<open>Start\<close>.
  A quiet step is a tick or something outside of the worker.
\<close>

definition quiet :: "('q, 'g, 's) wstate \<Rightarrow> ('q, 'g, 's) wstate \<Rightarrow> bool" where
  "quiet st st' \<longleftrightarrow> st' = st\<lparr>st_redis := st_redis st'\<rparr> \<or>
     (st_reclaim st = AwaitTick \<and> st_reclaim st' = Reclaiming) \<or> (st_registry st = AwaitBeat \<and> st_registry st' = Beating)"

fun job_rank :: "JobEnvelope \<times> string \<times> job_pc \<Rightarrow> nat" where
  "job_rank (env, i, Spawned) = 4"
| "job_rank (env, i, Processing) = 3"
| "job_rank (env, i, Processed outcome) = 2"
| "job_rank (env, i, Settled) = 1"

fun start_rank :: "start_pc \<Rightarrow> nat" where
  "start_rank (Launching n) = 6 - n"
| "start_rank Waiting = 1"
| "start_rank (StartReturned r) = 0"

fun poll_rank :: "poll_pc \<Rightarrow> nat" where
  "poll_rank PollEntry = 2"
| "poll_rank Polling = 1"
| "poll_rank Consuming = 7"
| "poll_rank (Sleeping d) = 2"
| "poll_rank (Holding env i) = 6"
| "poll_rank _ = 0"

fun reclaim_rank :: "reclaim_pc \<Rightarrow> nat" where
  "reclaim_rank AwaitTick = 1"
| "reclaim_rank (Starting jobs) = 2 + 5 * length jobs"
| "reclaim_rank _ = 0"

fun registry_rank :: "registry_pc \<Rightarrow> nat" where
  "registry_rank Beating = 2"
| "registry_rank AwaitBeat = 1"
| "registry_rank _ = 0"

definition work_rank :: "('q, 'g, 's) wstate \<Rightarrow> nat" where
  "work_rank st = poll_rank (st_poll st) + reclaim_rank (st_reclaim st) + registry_rank (st_registry st) +
     of_bool (st_health st = Serving) + sum_list (map job_rank (st_jobs st))"

text \<open>The order of the shutdown: calls of \<open>Go\<close> left to do, a reclaim under way, and the remaining work.\<close>

definition shutdown_order :: "(('q, 'g, 's) wstate \<times> ('q, 'g, 's) wstate) set" where
  "shutdown_order = measures [\<lambda>st. start_rank (st_start st), \<lambda>st. of_bool (st_reclaim st = Reclaiming), work_rank]"

lemma job_ranks_remove:
  assumes "j < length js" "0 < job_rank (js ! j)"
  shows "sum_list (map job_rank (take j js @ drop (Suc j) js)) < sum_list (map job_rank js)"
proof -
  have "sum_list (map job_rank js) = sum_list (map job_rank (take j js @ js ! j # drop (Suc j) js))"
    using id_take_nth_drop [OF assms(1)] by simp
  then show ?thesis using assms(2) by simp
qed

lemma shutdown_decreases:
  assumes "launched st" "wstep R db invar S G impl w st st'" "\<not> quiet st st'" "group_Err G (st_group st) \<noteq> None"
  shows "(st', st) \<in> shutdown_order"
  using assms(2)
proof cases
  case (job_begin j env i)
  then show ?thesis using sum_list_update_less [OF job_begin(2), of job_rank "(env, i, Processing)"]
    by (simp add: shutdown_order_def work_rank_def)
next
  case (job_process j env i outcome s')
  then show ?thesis using sum_list_update_less [OF job_process(2), of job_rank "(env, i, Processed outcome)"]
    by (simp add: shutdown_order_def work_rank_def)
next
  case (job_settle j env i outcome cx now u s')
  then show ?thesis using sum_list_update_less [OF job_settle(2), of job_rank "(env, i, Settled)"]
    by (simp add: shutdown_order_def work_rank_def)
next
  case (job_end j env i)
  then show ?thesis using job_ranks_remove [OF job_end(2)]
    by (simp add: shutdown_order_def work_rank_def)
qed (use assms(1,3,4) in \<open>auto simp: shutdown_order_def work_rank_def quiet_def launched_def\<close>)

text \<open>
  Every run reaches the return of \<open>Start\<close>, or a panic of the processor ends the program: in each state some step of the
  worker is possible, and whatever steps are taken, with at most \<open>n\<close> quiet ones, the end is reached.
\<close>

definition crashed :: "('q, 'g, 's) wstate \<Rightarrow> bool" where
  "crashed st \<longleftrightarrow> (\<exists>env i. (env, i, Processed Panic) \<in> set (st_jobs st))"

definition ended :: "('q, 'g, 's) wstate \<Rightarrow> bool" where
  "ended st \<longleftrightarrow> (\<exists>r. st_start st = StartReturned r) \<or> crashed st"

definition returns_within ::
  "'s redis_client \<Rightarrow> ('s \<Rightarrow> stream_db) \<Rightarrow> ('s \<Rightarrow> bool) \<Rightarrow> 'q semaphore \<Rightarrow> 'g errgroup \<Rightarrow> (float64 \<Rightarrow> int64) \<Rightarrow> 's Worker \<Rightarrow>
   nat \<Rightarrow> ('q, 'g, 's) wstate \<Rightarrow> bool" where
  "returns_within R db invar S G impl w = inevitable (wstep R db invar S G impl w) quiet ended"

lemma not_quiet:
  "quiet st st' \<longleftrightarrow> st_start st' = st_start st \<and> st_poll st' = st_poll st \<and> st_reclaim st' = st_reclaim st \<and>
     st_registry st' = st_registry st \<and> st_health st' = st_health st \<and> st_jobs st' = st_jobs st \<and> st_ready st' = st_ready st \<and>
     st_active st' = st_active st \<and> st_sem st' = st_sem st \<and> st_backoff st' = st_backoff st \<and> st_group st' = st_group st \<or>
     (st_reclaim st = AwaitTick \<and> st_reclaim st' = Reclaiming) \<or> (st_registry st = AwaitBeat \<and> st_registry st' = Beating)"
  by (cases st; cases st') (auto simp: quiet_def)

text \<open>The worker with all it calls.\<close>

locale worker_runtime = weighted_semaphore S held capacity + error_group G running first +
  redis_backend R db invar rank now kv hv
  for S :: "'q semaphore" and held capacity and G :: "'g errgroup" and running first
    and R :: "'s redis_client" and db invar rank now kv hv
begin

text \<open>Each goroutine that is still alive has a step that is not quiet.\<close>

lemma moves:
  "\<lbrakk>wstep R db invar S G impl w st st'; \<not> quiet st st'\<rbrakk> \<Longrightarrow> \<exists>st'. wstep R db invar S G impl w st st' \<and> \<not> quiet st st'"
  by blast

lemma poll_progress:
  assumes "st_poll st \<notin> {PollIdle, PollStopped}" "group_Err G (st_group st) \<noteq> None"
  shows "\<exists>st'. wstep R db invar S G impl w st st' \<and> \<not> quiet st st'"
proof (cases "st_poll st")
  case PollEntry
  show ?thesis by (rule moves [OF poll_ready [OF PollEntry]]) (simp add: not_quiet PollEntry)
next
  case Polling
  show ?thesis by (rule moves [OF poll_done [OF Polling assms(2)]]) (simp add: not_quiet Polling)
next
  case Consuming
  obtain oe i err s' where c: "Consume R (wk_consumer w) (group_Err G (st_group st)) (w_PollInterval (wk_config w)) (st_redis st)
      = ((oe, i, err), s')" by (metis prod.exhaust)
  have since: "ctx_since (group_Err G (st_group st)) (group_Err G (st_group st))" by (simp add: ctx_since_def)
  obtain delay eb' where n: "Next impl (Fin 0) (st_backoff st) = (delay, eb')" by fastforce
  show ?thesis
  proof (cases err)
    case (Some e)
    show ?thesis by (rule moves [OF poll_error [OF Consuming since c [unfolded Some] _ _ n]]) (simp_all add: not_quiet Consuming)
  next
    case err: None
    show ?thesis
    proof (cases oe)
      case None
      show ?thesis by (rule moves [OF poll_empty [OF Consuming since c [unfolded None err]]]) (simp add: not_quiet Consuming)
    next
      case (Some env)
      show ?thesis by (rule moves [OF poll_message [OF Consuming since c [unfolded Some err]]]) (simp add: not_quiet Consuming)
    qed
  qed
next
  case (Sleeping d)
  show ?thesis by (rule moves [OF poll_interrupt [OF Sleeping assms(2)]]) (simp add: not_quiet Sleeping)
next
  case (Holding env i)
  show ?thesis by (rule moves [OF poll_abandon [OF Holding assms(2)]]) (simp add: not_quiet Holding)
qed (use assms in auto)

lemma reclaim_progress:
  assumes "st_reclaim st \<notin> {ReclaimIdle, ReclaimStopped}" "group_Err G (st_group st) \<noteq> None" "invar (st_redis st)"
  shows "\<exists>st'. wstep R db invar S G impl w st st' \<and> \<not> quiet st st'"
proof (cases "st_reclaim st")
  case Reclaiming
  have since: "\<forall>n. ctx_since (group_Err G (st_group st)) (group_Err G (st_group st))" by (simp add: ctx_since_def)
  obtain x s' where x: "tryReclaim R w (\<lambda>_. group_Err G (st_group st)) (st_redis st) = Some (x, s')" "x \<noteq> Panic"
    using tryReclaim_returns [OF assms(3)] by blast
  show ?thesis
  proof (cases x)
    case (Ok jobs)
    show ?thesis by (rule moves [OF reclaim_jobs [OF Reclaiming since x(1) [unfolded Ok]]]) (simp add: not_quiet Reclaiming)
  next
    case (Err e)
    show ?thesis by (rule moves [OF reclaim_fails [OF Reclaiming since x(1) [unfolded Err]]]) (simp add: not_quiet Reclaiming)
  qed (use x in simp)
next
  case AwaitTick
  show ?thesis by (rule moves [OF reclaim_done [OF AwaitTick assms(2)]]) (simp add: not_quiet AwaitTick)
next
  case (Starting jobs)
  show ?thesis
  proof (cases jobs)
    case Nil
    show ?thesis by (rule moves [OF reclaim_end [OF Starting [unfolded Nil]]]) (simp add: not_quiet Starting)
  next
    case (Cons job rest)
    show ?thesis by (rule moves [OF reclaim_abandon [OF Starting [unfolded Cons] assms(2)]]) (simp add: not_quiet Starting)
  qed
qed (use assms in auto)

lemma registry_progress:
  assumes "st_registry st \<notin> {RegistryIdle, RegistryStopped}" "group_Err G (st_group st) \<noteq> None"
  shows "\<exists>st'. wstep R db invar S G impl w st st' \<and> \<not> quiet st st'"
proof (cases "st_registry st")
  case Beating
  have since: "ctx_since (group_Err G (st_group st)) (group_Err G (st_group st))" by (simp add: ctx_since_def)
  obtain r s' where "Heartbeat R (group_Err G (st_group st)) 0 (wk_workerID w) (st_redis st) = (r, s')" by fastforce
  then show ?thesis by (intro moves [OF beat [OF Beating since]]) (simp_all add: not_quiet Beating)
next
  case AwaitBeat
  show ?thesis by (rule moves [OF registry_done [OF AwaitBeat assms(2)]]) (simp add: not_quiet AwaitBeat)
qed (use assms in auto)

lemma job_progress:
  assumes "st_jobs st = (env, i, pc) # js" "\<not> crashed st"
  shows "\<exists>st'. wstep R db invar S G impl w st st' \<and> \<not> quiet st st'"
proof -
  have j: "0 < length (st_jobs st)" "st_jobs st ! 0 = (env, i, pc)" "pc \<noteq> Processed Panic" using assms by (auto simp: crashed_def)
  show ?thesis
  proof (cases pc)
    case Spawned
    show ?thesis by (rule moves [OF job_begin [OF j(1) j(2) [unfolded Spawned]]]) (simp add: not_quiet assms(1) Spawned)
  next
    case Processing
    obtain outcome s' where "wk_processor w env (st_redis st) = (outcome, s')" by fastforce
    from moves [OF job_process [OF j(1) j(2) [unfolded Processing] this]] show ?thesis by (simp add: not_quiet assms(1) Processing)
  next
    case (Processed outcome)
    have since: "\<forall>n. ctx_since (group_Err G (st_group st)) (group_Err G (st_group st))" by (simp add: ctx_since_def)
    obtain u s' where "settle R w 0 (\<lambda>_. group_Err G (st_group st)) env i outcome (st_redis st) = (Ok u, s')"
      using Processed j(3) by (cases outcome) (auto simp: settle_def)
    from moves [OF job_settle [OF j(1) j(2) [unfolded Processed] since this]] show ?thesis by (simp add: not_quiet assms(1) Processed)
  next
    case Settled
    show ?thesis by (rule moves [OF job_end [OF j(1) j(2) [unfolded Settled]]]) (simp add: not_quiet assms(1))
  qed
qed


lemma launch_progress:
  assumes "launched st" "st_start st = Launching n"
  shows "\<exists>st'. wstep R db invar S G impl w st st' \<and> \<not> quiet st st'"
proof -
  consider "n = 0" | "n = 1" "st_reclaim st = ReclaimIdle" | "n = 2" "st_registry st = RegistryIdle" | "n = 3"
    using assms by (auto simp: launched_def)
  then show ?thesis
  proof cases
    case 1
    from moves [OF launch_poll [OF assms(2) [unfolded 1]]] assms(2) 1 show ?thesis by (simp add: not_quiet)
  next
    case 2
    from moves [OF launch_reclaim [OF assms(2) [unfolded 2(1)]]] assms(2) 2 show ?thesis by (simp add: not_quiet)
  next
    case 3
    from moves [OF launch_registry [OF assms(2) [unfolded 3(1)]]] assms(2) 3 show ?thesis by (simp add: not_quiet)
  next
    case 4
    from moves [OF launch_health [OF assms(2) [unfolded 4]]] assms(2) 4 show ?thesis by (simp add: not_quiet)
  qed
qed

lemma shutdown_progress:
  assumes inv: "group_inv G running st" "launched st" "invar (st_redis st)"
    and "group_Err G (st_group st) \<noteq> None" "\<nexists>r. st_start st = StartReturned r"
    and "\<not> crashed st"
  shows "\<exists>st'. wstep R db invar S G impl w st st' \<and> \<not> quiet st st'"
proof (cases "live_loops st + length (st_jobs st) = 0")
  case idle: True
  show ?thesis
  proof (cases "st_start st")
    case (Launching n)
    from launch_progress [OF inv(2) this] show ?thesis .
  next
    case Waiting
    obtain err g' where "group_Wait G (st_group st) = Some (err, g')"
      using group_wait_ready [of "st_group st"] inv(1) idle by (auto simp: group_inv_def)
    from moves [OF start_returns [OF Waiting this]] show ?thesis by (simp add: not_quiet Waiting)
  qed (use assms(5) in simp)
next
  case False
  then consider "st_poll st \<notin> {PollIdle, PollStopped}" | "st_reclaim st \<notin> {ReclaimIdle, ReclaimStopped}"
    | "st_registry st \<notin> {RegistryIdle, RegistryStopped}" | "st_health st = Serving" | "st_jobs st \<noteq> []"
    by (auto simp: live_loops_def split: if_splits)
  then show ?thesis
  proof cases
    case 4
    from moves [OF health_returns [OF this, of ErrServerClosed]] assms(4) show ?thesis by (simp add: not_quiet 4)
  next
    case 5
    then obtain env i pc js where js: "st_jobs st = (env, i, pc) # js" by (metis list.exhaust prod.exhaust)
    from job_progress [OF js assms(6)] show ?thesis .
  qed (use poll_progress reclaim_progress registry_progress assms in blast)+
qed

text \<open>The invariant of a shutdown.\<close>

definition stopping :: "('q, 'g, 's) wstate \<Rightarrow> bool" where
  "stopping st \<longleftrightarrow> group_inv G running st \<and> launched st \<and> invar (st_redis st) \<and> group_Err G (st_group st) \<noteq> None"

lemma shutdown_draining:
  assumes P: "stream_safe_processor db invar (wk_processor w)"
  shows "draining (wstep R db invar S G impl w) quiet ended stopping shutdown_order"
proof
  show "wf shutdown_order" by (simp add: shutdown_order_def)
next
  fix x y assume x: "stopping x" and step: "wstep R db invar S G impl w x y"
  then have "group_inv G running x" "launched x" "invar (st_redis x)" "group_Err G (st_group x) \<noteq> None"
    by (simp_all add: stopping_def)
  from group_step [OF this(1,2) step] launched_step [OF this(2) step] wstep_pend [OF P this(3) step]
    cancelled_step [OF this(1) step this(4)] show "stopping y" by (simp add: stopping_def)
next
  fix x assume "stopping x" "\<not> ended x"
  then show "\<exists>y. wstep R db invar S G impl w x y \<and> \<not> quiet x y"
    using shutdown_progress unfolding stopping_def ended_def by blast
next
  fix x y assume "stopping x" "wstep R db invar S G impl w x y" "\<not> quiet x y"
  then show "(y, x) \<in> shutdown_order" using shutdown_decreases unfolding stopping_def by blast
qed

lemma reachable_returns:
  assumes P: "stream_safe_processor db invar (wk_processor w)"
    and s0: "invar s0" and reach: "reachable R db invar S G impl w s0 st"
    and cancelled: "group_Err G (st_group st) \<noteq> None"
  shows "returns_within R db invar S G impl w n st"
  unfolding returns_within_def
  by (rule draining.drains [OF shutdown_draining [OF P]])
    (use group_reachable [OF reach] reachable_invar [OF P s0 reach] cancelled in \<open>simp add: stopping_def\<close>)

end

text \<open>With a processor that does not panic nothing crashes.\<close>

lemma no_panic_reachable:
  assumes "\<And>env s. fst (wk_processor w env s) \<noteq> Panic" "reachable R db invar S G impl w s0 st" shows "\<not> crashed st"
  using assms(2)
proof induction
  case (step st st')
  from step(2) show ?case
  proof cases
    case (job_process j env i outcome s')
    then have "outcome \<noteq> Panic" using assms(1) by (metis fst_conv)
    with job_process step(3) show ?thesis by (auto simp: crashed_def dest: in_set_update)
  qed (use step(3) in \<open>auto simp: crashed_def dest: in_set_update in_set_takeD in_set_dropD\<close>)
qed (simp add: start_state_def crashed_def)

section \<open>Settlement after the context has ended\<close>

text \<open>
  \<open>go-redis\<close> asks for a connection with the context of the command, and gives it up when the context is done: nothing is
  sent to the server and the command reports an error.
\<close>

definition refuses_cancelled :: "'s redis_client \<Rightarrow> ('s \<Rightarrow> stream_db) \<Rightarrow> bool" where
  "refuses_cancelled R db \<longleftrightarrow>
     (\<forall>e k g i s r s'. XAck R (Some e) k g i s = (r, s') \<longrightarrow> isl r \<and> db s' = db s) \<and>
     (\<forall>e k g wid idle start n s r s'. XAutoClaim R (Some e) k g wid idle start n s = (r, s') \<longrightarrow> isl r \<and> db s' = db s)"

context redis_backend
begin

lemma Ack_refused:
  assumes "refuses_cancelled R db" "Ack R co (Some e) i s = (r, s')" shows "db s' = db s"
  using assms unfolding refuses_cancelled_def by (auto simp: Ack_def split: prod.splits sum.splits)

lemma settle_refused:
  assumes R: "refuses_cancelled R db" and s: "invar s" and cx: "\<And>n. cx n = Some e"
    and run: "settle R w t cx env i outcome s = (r, s')"
  shows "pend (db s') = pend (db s)"
proof (cases outcome)
  case (Ok u)
  then show ?thesis using run Ack_refused [OF R, of "wk_consumer w" e i s] by (cases "Ack R (wk_consumer w) (Some e) i s") (auto simp: settle_def cx)
next
  case (Err err)
  obtain x where "Retry R (wk_consumer w) t cx env i err s = (x, s')"
    using run Err by (cases "Retry R (wk_consumer w) t cx env i err s") (auto simp: settle_def)
  from Retry_ack_step [OF s this] show ?thesis using Ack_refused [OF R] by (auto simp: cx)
qed (use run in \<open>simp add: settle_def\<close>)

lemma tryReclaim_refused:
  assumes R: "refuses_cancelled R db" and s: "invar s" and cx: "\<And>n. cx n = Some e"
    and run: "tryReclaim R w cx s = Some (x, s')"
  shows "pend (db s') = pend (db s)"
proof -
  obtain y s1 where y: "SetNX R (cx 0) (reclaim_lockKey w) (wk_workerID w) (w_ReclaimInterval (wk_config w)) s = (y, s1)" by fastforce
  note s1 = setnx_streams [OF s y]
  obtain z s2 where z: "XAutoClaim R (Some e) (co_streamName (wk_consumer w)) (co_consumerGroup (wk_consumer w))
      (co_consumerName (wk_consumer w)) (w_ReclaimIdleTime (wk_config w)) ''0-0'' (w_ReclaimBatchSize (wk_config w)) s1 = (z, s2)"
    by fastforce
  with R have z': "isl z" "db s2 = db s1" unfolding refuses_cancelled_def by blast+
  have "s' = s1 \<or> s' = s2"
    using run y z z'(1) by (auto simp: tryReclaim_def reclaimStale_def ReclaimStale_def ReclaimStale_loop.simps cx isl_def
        split: sum.splits if_splits)
  then show ?thesis using s1 z'(2) by auto
qed

lemma wstep_cancelled:
  assumes R: "refuses_cancelled R db" and P: "stream_safe_processor db invar (wk_processor w)" and s: "invar (st_redis st)"
    and step: "wstep R db invar S G impl w st st'" and e: "group_Err G (st_group st) = Some e"
  shows "wpend (db (st_redis st)) w \<subseteq> wpend (db (st_redis st')) w"
  using step
proof cases
  case (poll_error c oe i e s' u delay eb')
  with Consume_pend [OF s poll_error(4)] show ?thesis by auto
next
  case (poll_empty c i s')
  with Consume_pend [OF s poll_empty(4)] show ?thesis by auto
next
  case (poll_message c env i s')
  with Consume_pend [OF s poll_message(4)] show ?thesis by auto
next
  case (reclaim_fails cx err s')
  then have "cx n = Some e" for n using e by (simp add: ctx_since_def)
  from tryReclaim_refused [OF R s this reclaim_fails(4)] reclaim_fails show ?thesis by simp
next
  case (reclaim_jobs cx jobs s')
  then have "cx n = Some e" for n using e by (simp add: ctx_since_def)
  from tryReclaim_refused [OF R s this reclaim_jobs(4)] reclaim_jobs show ?thesis by simp
next
  case (beat c now r s')
  with Heartbeat_streams [OF s beat(4)] show ?thesis by auto
next
  case (job_process j env i outcome s')
  with stream_safe_processor.process_safe [OF P s job_process(4)] show ?thesis by auto
next
  case (job_settle j env i outcome cx now u s')
  then have "cx n = Some e" for n using e by (simp add: ctx_since_def)
  from settle_refused [OF R s this job_settle(5)] job_settle show ?thesis by simp
qed auto

end

section \<open>Properties\<close>


text \<open>
  C9: Shutdown completes. Once the context of the group is cancelled, by a signal or because the health server failed,
  \<open>Worker.Start\<close> returns: in every state before that some goroutine can take a step, and whatever the order of
  the steps, however Redis answers and whatever the processor returns, there is no infinite run without its return in which the tickers
  and the world outside interfere only finitely often (\<open>n\<close> times, for any \<open>n\<close>). The only other end is a crash: a panic of
  the processor ends the program.
\<close>

theorem shutdown_completes:
  assumes RT: "worker_runtime S held capacity G running first R db invar rank now kv hv"
    and P: "stream_safe_processor db invar (wk_processor w)"
    and s0: "invar s0" and reach: "reachable R db invar S G impl w s0 st"
    and cancelled: "group_Err G (st_group st) \<noteq> None"
  shows "returns_within R db invar S G impl w n st"
  by (rule worker_runtime.reachable_returns [OF assms])

text \<open>
  C10: What a graceful shutdown does not do. Jobs are settled with the context of the group, so once it is cancelled, no
  job that is still in flight can be acknowledged or retried: every message that is pending at that moment is still
  pending when \<open>Start\<close> has returned, although its job has been processed. It is left to the reclaim of another worker (which
  skips it when deduplication has recorded the attempt).
\<close>

theorem shutdown_leaves_jobs_pending:
  assumes R: "redis_backend R db invar rank now kv hv" and ctx: "refuses_cancelled R db" and G: "error_group G running first"
    and P: "stream_safe_processor db invar (wk_processor w)" and s0: "invar s0"
    and reach: "reachable R db invar S G impl w s0 st" and cancelled: "group_Err G (st_group st) \<noteq> None"
    and run: "(wstep R db invar S G impl w)\<^sup>*\<^sup>* st st'"
  shows "wpend (db (st_redis st)) w \<subseteq> wpend (db (st_redis st')) w"
proof -
  from run have "reachable R db invar S G impl w s0 st' \<and> group_Err G (st_group st') \<noteq> None \<and>
      wpend (db (st_redis st)) w \<subseteq> wpend (db (st_redis st')) w"
  proof induction
    case base
    then show ?case using reach cancelled by simp
  next
    case (step st1 st2)
    then obtain e where e: "group_Err G (st_group st1) = Some e" and r1: "reachable R db invar S G impl w s0 st1" by auto
    have "wpend (db (st_redis st1)) w \<subseteq> wpend (db (st_redis st2)) w"
      using redis_backend.wstep_cancelled [OF R ctx P redis_backend.reachable_invar [OF R P s0 r1] step(2) e] .
    moreover have "group_Err G (st_group st2) \<noteq> None"
      using error_group.cancelled_step [OF G _ step(2)] error_group.group_reachable [OF G r1] e by simp
    ultimately show ?case using step reachable.step [OF r1 step(2)] by blast
  qed
  then show ?thesis by blast
qed

section \<open>Witnesses\<close>

interpretation mem_runtime: worker_runtime counting fst snd simple_group fst "\<lambda>g. fst (snd g)"
  memory m_db mem_inv mem_rank m_now m_kv mem_hv ..

interpretation mem_shutdown: draining "wstep memory m_db mem_inv counting simple_group impl demo_plain" quiet ended
  mem_runtime.stopping shutdown_order
  by (rule mem_runtime.shutdown_draining) (rule demo_plain_facts)

lemma reachable_rtranclp:
  "\<lbrakk>(wstep R db invar S G impl w)\<^sup>*\<^sup>* st st'; reachable R db invar S G impl w s0 st\<rbrakk> \<Longrightarrow> reachable R db invar S G impl w s0 st'"
  by (induction rule: rtranclp_induct) (auto intro: reachable.step)

lemma demo_stopped:
  obtains st' r where "(wstep memory m_db mem_inv counting simple_group (\<lambda>_. 0) demo_plain)\<^sup>*\<^sup>* demo_stopping st'"
    "reachable memory m_db mem_inv counting simple_group (\<lambda>_. 0) demo_plain demo_pending st'" "st_start st' = StartReturned r"
  using inevitable_run [OF mem_runtime.reachable_returns [OF demo_plain_facts(2) demo_pending_inv demo_stopping_reachable
        demo_stopping_cancelled(1), of "\<lambda>_. 0" 0, unfolded returns_within_def]]
    reachable_rtranclp [OF _ demo_stopping_reachable] no_panic_reachable [OF demo_plain_facts(3)] unfolding ended_def by blast


theorem shutdown_completes_witness:
  "returns_within memory m_db mem_inv counting simple_group (\<lambda>_. 0) demo_plain 7 demo_stopping"
  by (rule shutdown_completes [OF mem_runtime.worker_runtime_axioms demo_plain_facts(2) demo_pending_inv demo_stopping_reachable
        demo_stopping_cancelled(1)])

lemma mem_refuses_cancelled: "refuses_cancelled memory m_db"
  by (auto simp: refuses_cancelled_def memory_def mem_XAck_def mem_XAutoClaim_def mem_cmd_def)

theorem shutdown_leaves_jobs_pending_witness:
  "\<exists>st' r. (wstep memory m_db mem_inv counting simple_group (\<lambda>_. 0) demo_plain)\<^sup>*\<^sup>* demo_stopping st' \<and>
     st_start st' = StartReturned r \<and> ''0-1'' \<in> wpend (m_db (st_redis st')) demo_plain"
proof -
  obtain st' r where st': "(wstep memory m_db mem_inv counting simple_group (\<lambda>_. 0) demo_plain)\<^sup>*\<^sup>* demo_stopping st'" "st_start st' = StartReturned r"
    by (rule demo_stopped)
  from shutdown_leaves_jobs_pending [OF mem_backend.redis_backend_axioms mem_refuses_cancelled simple_errgroup.error_group_axioms
      demo_plain_facts(2) demo_pending_inv demo_stopping_reachable demo_stopping_cancelled(1) st'(1)]
  show ?thesis using st' demo_plain_facts(4) demo_stopping_cancelled(2) by auto
qed

end
