(* ===== verification/Throttler.thy ===== *)
theory Throttler
  imports Queue_Consumer
begin

text \<open>
  \<open>internal/ingestion/adpative_throttler.go\<close> and \<open>throttler.go\<close>: the cached queue metrics, the
  overload score and the decision whether a request is let through. Times are nanoseconds since
  the epoch. The four atomic variables are one record: a decision that runs during an update may
  see old and new values mixed, which is again such a record.
\<close>

datatype ThrottleDecision = ThrottleAllow | ThrottleRateLimit | ThrottleCircuitOpen

text \<open>The constants are numbered by \<open>iota\<close> in the order of their severity; comparisons are those of the numbers.\<close>

definition iota :: "ThrottleDecision \<Rightarrow> int64" where
  "iota d = (case d of ThrottleAllow \<Rightarrow> 0 | ThrottleRateLimit \<Rightarrow> 1 | ThrottleCircuitOpen \<Rightarrow> 2)"

instantiation ThrottleDecision :: linorder
begin

definition less_eq_ThrottleDecision :: "ThrottleDecision \<Rightarrow> ThrottleDecision \<Rightarrow> bool" where
  "less_eq_ThrottleDecision a b \<longleftrightarrow> iota a \<le> iota b"

definition less_ThrottleDecision :: "ThrottleDecision \<Rightarrow> ThrottleDecision \<Rightarrow> bool" where
  "less_ThrottleDecision a b \<longleftrightarrow> iota a < iota b"

instance
  by standard (auto simp: less_eq_ThrottleDecision_def less_ThrottleDecision_def iota_def split: ThrottleDecision.splits)

end

record ThrottlerMetrics =
  tm_streamDepth :: int64
  tm_pendingCount :: int64
  tm_oldestMessageAge :: int64
  tm_lastUpdated :: int64

text \<open>The value of an interface variable for the consumer: none, or a pointer, which may itself be nil.\<close>

datatype consumer_ref = NilInterface | ConsumerPtr "Consumer option"

record Throttler =
  th_producer :: Producer
  th_consumer :: consumer_ref
  th_config :: ThrottlerConfig

definition NewThrottler :: "Producer \<Rightarrow> consumer_ref \<Rightarrow> ThrottlerConfig \<Rightarrow> Throttler \<times> ThrottlerMetrics" where
  "NewThrottler producer consumer config =
     (\<lparr>th_producer = producer, th_consumer = consumer, th_config = config\<rparr>,
      \<lparr>tm_streamDepth = 0, tm_pendingCount = 0, tm_oldestMessageAge = 0, tm_lastUpdated = 0\<rparr>)"

section \<open>Updating the metrics\<close>

text \<open>
  \<open>cx\<close> and \<open>c\<close> are the context of the two calls, \<open>nowMs\<close> the clock in milliseconds inside
  \<open>GetPendingInfo\<close> and \<open>now\<close> the final \<open>time.Now().Unix()\<close>. A consumer always has \<open>GetPendingInfo\<close>, so the
  type assertion fails only for a nil interface; a nil pointer passes it and is dereferenced. An error of the second
  call is logged and counts as nothing pending.
\<close>

definition getPendingMetrics :: "'s redis_client \<Rightarrow> Throttler \<Rightarrow> int64 \<Rightarrow> ctx \<Rightarrow> ('s, int64 \<times> int64) act" where
  "getPendingMetrics R t nowMs c s =
     (case th_consumer t of
        NilInterface \<Rightarrow> (Ok (0, 0), s)
      | ConsumerPtr None \<Rightarrow> (Panic, s)
      | ConsumerPtr (Some pc) \<Rightarrow> GetPendingInfo R pc nowMs c s)"

definition updateMetrics ::
  "'s redis_client \<Rightarrow> Throttler \<Rightarrow> ctxs \<Rightarrow> ctx \<Rightarrow> int64 \<Rightarrow> int64 \<Rightarrow> ThrottlerMetrics \<Rightarrow> ('s, ThrottlerMetrics) act" where
  "updateMetrics R t cx c nowMs now m s =
     (case StreamLength R (th_producer t) cx s of
        (Err _, s1) \<Rightarrow> (Ok m, s1)
      | (Panic, s1) \<Rightarrow> (Panic, s1)
      | (Ok depth, s1) \<Rightarrow>
          (case getPendingMetrics R t nowMs c s1 of
             (Panic, s2) \<Rightarrow> (Panic, s2)
           | (r, s2) \<Rightarrow>
               (let (pending, oldestAge) = (case r of Ok x \<Rightarrow> x | _ \<Rightarrow> (0, 0))
                in (Ok \<lparr>tm_streamDepth = depth, tm_pendingCount = pending,
                        tm_oldestMessageAge = oldestAge, tm_lastUpdated = now\<rparr>, s2))))"

section \<open>The decision\<close>

definition max_go :: "float64 \<Rightarrow> float64 \<Rightarrow> float64" where
  "max_go a b = (if fless b a then a else b)"

text \<open>\<open>impl\<close> is the platform's conversion of floats outside the range of \<open>int64\<close>.\<close>

definition computeRetryAfter ::
  "(float64 \<Rightarrow> int64) \<Rightarrow> ThrottlerConfig \<Rightarrow> ThrottlerMetrics \<Rightarrow> int64 \<Rightarrow> duration \<Rightarrow> duration" where
  "computeRetryAfter impl cfg m depth oldestAge =
     (let drainRate = t_EstimatedDrainRate cfg in
      if fleq drainRate (Fin 0) then t_MinRetryAfter cfg
      else
        let pending = tm_pendingCount m;
            backlog = f_of_int (wrap64 (depth + pending));
            retrySeconds0 = fdiv backlog drainRate;
            retrySeconds = (if oldestAge > t_MaxMessageAge cfg
                            then fmul retrySeconds0 (fdiv (f_of_int oldestAge) (f_of_int (t_MaxMessageAge cfg)))
                            else retrySeconds0);
            retryAfter0 = wrap64 (int64_of_float impl retrySeconds * Second);
            retryAfter1 = (if retryAfter0 < t_MinRetryAfter cfg then t_MinRetryAfter cfg else retryAfter0)
        in if retryAfter1 > t_MaxRetryAfter cfg then t_MaxRetryAfter cfg else retryAfter1)"

definition overloadScore :: "ThrottlerConfig \<Rightarrow> int64 \<Rightarrow> duration \<Rightarrow> float64" where
  "overloadScore cfg depth oldestAge =
     max_go (fdiv (f_of_int depth) (f_of_int (t_SoftDepthLimit cfg)))
            (fdiv (f_of_int oldestAge) (f_of_int (t_MaxMessageAge cfg)))"

definition Decision ::
  "(float64 \<Rightarrow> int64) \<Rightarrow> ThrottlerConfig \<Rightarrow> ThrottlerMetrics \<Rightarrow> int \<Rightarrow> ThrottleDecision \<times> duration" where
  "Decision impl cfg m now =
     (if \<not> t_Enabled cfg then (ThrottleAllow, 0)
      else
        let staleness = saturate64 (now - tm_lastUpdated m * Second);
            maxStaleness = wrap64 (2 * t_MetricsUpdateInterval cfg)
        in if staleness > maxStaleness then (ThrottleAllow, 0)
           else
             let depth = tm_streamDepth m;
                 oldestAge = wrap64 (tm_oldestMessageAge m * Second);
                 score = overloadScore cfg depth oldestAge
             in if fless (t_CircuitOpenScore cfg) score then (ThrottleCircuitOpen, 0)
                else if fless (t_RateLimitScore cfg) score
                then (ThrottleRateLimit, computeRetryAfter impl cfg m depth oldestAge)
                else (ThrottleAllow, 0))"

definition GetMetrics :: "ThrottlerMetrics \<Rightarrow> int64 \<times> int64 \<times> int64" where
  "GetMetrics m = (tm_streamDepth m, tm_pendingCount m, tm_oldestMessageAge m)"

text \<open>The throttler that lets everything through.\<close>

definition Noop_Decision :: "ThrottleDecision \<times> duration" where "Noop_Decision = (ThrottleAllow, 0)"
definition Noop_GetMetrics :: "int64 \<times> int64 \<times> int64" where "Noop_GetMetrics = (0, 0, 0)"

section \<open>The interface\<close>

text \<open>
  What the ingestion service relies on (\<open>ThrottlerInterface\<close>): a delay comes only with a rate
  limit, and it lies between fixed bounds.
\<close>

locale throttler_interface =
  fixes decide :: "'m \<Rightarrow> int \<Rightarrow> ThrottleDecision \<times> duration"
    and lo hi :: duration
  assumes delay_only_limited: "decide m now = (d, retryAfter) \<Longrightarrow> d \<noteq> ThrottleRateLimit \<Longrightarrow> retryAfter = 0"
    and delay_bounded: "decide m now = (ThrottleRateLimit, retryAfter) \<Longrightarrow> lo \<le> retryAfter \<and> retryAfter \<le> hi"

lemma computeRetryAfter_bounds:
  assumes "t_MinRetryAfter cfg \<le> t_MaxRetryAfter cfg"
  shows "t_MinRetryAfter cfg \<le> computeRetryAfter impl cfg m depth age \<and>
         computeRetryAfter impl cfg m depth age \<le> t_MaxRetryAfter cfg"
  using assms by (simp add: computeRetryAfter_def Let_def)

lemma adaptive_throttler:
  assumes "validateThrottler cfg = None"
  shows "throttler_interface (Decision impl cfg) (t_MinRetryAfter cfg) (t_MaxRetryAfter cfg)"
proof
  fix m now d ra assume "Decision impl cfg m now = (d, ra)" "d \<noteq> ThrottleRateLimit"
  then show "ra = 0" by (auto simp: Decision_def Let_def split: if_splits)
next
  fix m now ra assume d: "Decision impl cfg m now = (ThrottleRateLimit, ra)"
  then have "t_MinRetryAfter cfg \<le> t_MaxRetryAfter cfg"
    using assms by (auto simp: cfg_defs Decision_def split: if_splits)
  with d computeRetryAfter_bounds [of cfg] show "t_MinRetryAfter cfg \<le> ra \<and> ra \<le> t_MaxRetryAfter cfg"
    by (auto simp: Decision_def Let_def split: if_splits)
qed

interpretation noop: throttler_interface "\<lambda>m now. Noop_Decision" 0 0
  by unfold_locales (auto simp: Noop_Decision_def)

interpretation default_throttler: throttler_interface "Decision impl DefaultThrottler" "1 * Second" "30 * Second"
proof -
  have "validateThrottler DefaultThrottler = None" by (simp add: cfg_defs DefaultThrottler_def)
  from adaptive_throttler [OF this, of impl]
  show "throttler_interface (Decision impl DefaultThrottler) (1 * Second) (30 * Second)"
    by (simp add: DefaultThrottler_def)
qed

section \<open>The score\<close>

lemma max_go_cases: "max_go a b = a \<or> max_go a b = b"
  by (simp add: max_go_def)

lemma max_go_mono:
  assumes "fleq a a'" "fleq b b'" shows "fleq (max_go a b) (max_go a' b')"
  using assms unfolding max_go_def by (cases a; cases a'; cases b; cases b') auto

lemma f_of_int_pos: "\<lbrakk>0 < n; n \<le> 2 ^ 53\<rbrakk> \<Longrightarrow> f_of_int n = Fin (of_int n)"
  by (rule f_of_int_exact) simp

lemma fleq_infinities [simp]: "fleq a PInf \<longleftrightarrow> a \<noteq> NaN" "fleq NInf a \<longleftrightarrow> a \<noteq> NaN"
  by (cases a; simp)+

lemma fdiv_mono:
  assumes "fleq a b" "0 < n" "n \<le> 2 ^ 53" shows "fleq (fdiv a (f_of_int n)) (fdiv b (f_of_int n))"
  using assms by (cases a; cases b) (auto simp: f_of_int_pos finf_def intro!: round64_mono divide_right_mono)

lemma ratio_le:
  assumes "x \<le> k * n" "\<bar>x\<bar> \<le> 2 ^ 53" "0 < n" "n \<le> 2 ^ 53" "\<bar>k\<bar> \<le> 2 ^ 53"
  shows "fleq (fdiv (f_of_int x) (f_of_int n)) (Fin (of_int k))"
proof -
  have "(of_int x :: rat) \<le> of_int (k * n)" using assms(1) by (simp only: of_int_le_iff)
  then have "(of_int x / of_int n :: rat) \<le> of_int k" using assms(3) by (simp add: pos_divide_le_eq)
  from round64_mono [OF this] show ?thesis
    using assms by (simp add: f_of_int_pos f_of_int_exact round64_exact)
qed

lemma ratio_ge:
  assumes "k * n \<le> x" "\<bar>x\<bar> \<le> 2 ^ 53" "0 < n" "n \<le> 2 ^ 53" "\<bar>k\<bar> \<le> 2 ^ 53"
  shows "fleq (Fin (of_int k)) (fdiv (f_of_int x) (f_of_int n))"
proof -
  have "of_int (k * n) \<le> (of_int x :: rat)" using assms(1) by (simp only: of_int_le_iff)
  then have "of_int k \<le> (of_int x / of_int n :: rat)" using assms(3) by (simp add: pos_le_divide_eq)
  from round64_mono [OF this] show ?thesis
    using assms by (simp add: f_of_int_pos f_of_int_exact round64_exact)
qed

text \<open>The decision for metrics that are fresh.\<close>

definition is_fresh :: "ThrottlerConfig \<Rightarrow> ThrottlerMetrics \<Rightarrow> int \<Rightarrow> bool" where
  "is_fresh cfg m now \<longleftrightarrow> saturate64 (now - tm_lastUpdated m * Second) \<le> wrap64 (2 * t_MetricsUpdateInterval cfg)"

lemma Decision_fresh:
  assumes "t_Enabled cfg" "is_fresh cfg m now"
  shows "fst (Decision impl cfg m now) =
    (let score = overloadScore cfg (tm_streamDepth m) (wrap64 (tm_oldestMessageAge m * Second))
     in if fless (t_CircuitOpenScore cfg) score then ThrottleCircuitOpen
        else if fless (t_RateLimitScore cfg) score then ThrottleRateLimit else ThrottleAllow)"
  using assms by (simp add: Decision_def is_fresh_def Let_def)

lemma overloadScore_mono:
  assumes "d \<le> d'" "a \<le> a'" "0 < t_SoftDepthLimit cfg" "t_SoftDepthLimit cfg \<le> 2 ^ 53"
    "0 < t_MaxMessageAge cfg" "t_MaxMessageAge cfg \<le> 2 ^ 53"
  shows "fleq (overloadScore cfg d a) (overloadScore cfg d' a')"
  unfolding overloadScore_def using assms by (intro max_go_mono fdiv_mono f_of_int_mono)

text \<open>The limits of the configuration that the decision never reads.\<close>

lemma Decision_ignores_hard_limits:
  "Decision impl (cfg\<lparr>t_HardDepthLimit := h, t_CriticalMessageAge := c\<rparr>) m now = Decision impl cfg m now"
  by (simp add: Decision_def computeRetryAfter_def overloadScore_def Let_def)

section \<open>Properties\<close>


definition demo_metrics :: "int64 \<Rightarrow> ThrottlerMetrics" where
  "demo_metrics depth = \<lparr>tm_streamDepth = depth, tm_pendingCount = 0, tm_oldestMessageAge = 0, tm_lastUpdated = 1700000000\<rparr>"

lemma demo_metrics_fresh: "is_fresh DefaultThrottler (demo_metrics depth) (1700000000 * Second)"
  by (simp add: is_fresh_def demo_metrics_def DefaultThrottler_def saturate64_def wrap64_def)

lemma validate_DefaultThrottler [simp]: "validateThrottler DefaultThrottler = None"
  by (simp add: cfg_defs DefaultThrottler_def)


text \<open>
  C20: More load never gets a milder decision. With fresh metrics, a deeper queue and an older oldest
  message lead to the same decision or a more severe one, in the order allow, rate limit, open circuit.
\<close>

theorem Decision_monotone:
  assumes cfg: "validateThrottler cfg = None" "t_Enabled cfg" "t_SoftDepthLimit cfg \<le> 2 ^ 53" "t_MaxMessageAge cfg \<le> 2 ^ 53"
    and fresh: "is_fresh cfg m now" "is_fresh cfg m' now'"
    and m: "tm_streamDepth m \<le> tm_streamDepth m'" "tm_oldestMessageAge m \<le> tm_oldestMessageAge m'"
    and range: "in64 (tm_oldestMessageAge m * Second)" "in64 (tm_oldestMessageAge m' * Second)"
  shows "fst (Decision impl cfg m now) \<le> fst (Decision impl cfg m' now')"
proof -
  let ?s = "overloadScore cfg (tm_streamDepth m) (tm_oldestMessageAge m * Second)"
  let ?s' = "overloadScore cfg (tm_streamDepth m') (tm_oldestMessageAge m' * Second)"
  have "0 < t_SoftDepthLimit cfg" "0 < t_MaxMessageAge cfg" using cfg(1,2) by (simp_all add: cfg_defs)
  then have "fleq ?s ?s'" using cfg m by (intro overloadScore_mono) simp_all
  then have "fless c ?s \<Longrightarrow> fless c ?s'" for c using fless_fleq_trans by blast
  then show ?thesis using range
    by (auto simp: Decision_fresh [OF cfg(2) fresh(1)] Decision_fresh [OF cfg(2) fresh(2)] Let_def less_eq_ThrottleDecision_def iota_def)
qed

theorem Decision_monotone_witness:
  "fst (Decision (\<lambda>_. 0) DefaultThrottler (demo_metrics 100) (1700000000 * Second))
     \<le> fst (Decision (\<lambda>_. 0) DefaultThrottler (demo_metrics 120) (1700000000 * Second))"
  by (rule Decision_monotone [OF validate_DefaultThrottler _ _ _ demo_metrics_fresh demo_metrics_fresh])
    (simp_all add: DefaultThrottler_def demo_metrics_def in64_def)

text \<open>
  C21: The contract of the throttler for a validated configuration, whatever the metrics are, including
  overflowing and undefined floating point results: a rate limited client is told to wait between
  \<open>MinRetryAfter\<close> and \<open>MaxRetryAfter\<close>, every other decision has no delay; a disabled throttler and
  metrics older than twice the update interval let every request through.
\<close>

theorem Decision_contract:
  assumes "validateThrottler cfg = None"
  shows "(case Decision impl cfg m now of
            (ThrottleRateLimit, retryAfter) \<Rightarrow> t_MinRetryAfter cfg \<le> retryAfter \<and> retryAfter \<le> t_MaxRetryAfter cfg
          | (_, retryAfter) \<Rightarrow> retryAfter = 0) \<and>
         (\<not> t_Enabled cfg \<or> \<not> is_fresh cfg m now \<longrightarrow> Decision impl cfg m now = (ThrottleAllow, 0))"
proof -
  obtain d ra where d: "Decision impl cfg m now = (d, ra)" by fastforce
  note T = adaptive_throttler [OF assms, of impl]
  have "case d of ThrottleRateLimit \<Rightarrow> t_MinRetryAfter cfg \<le> ra \<and> ra \<le> t_MaxRetryAfter cfg | _ \<Rightarrow> ra = 0"
    using throttler_interface.delay_only_limited [OF T d] throttler_interface.delay_bounded [OF T, of m now ra] d
    by (cases d) auto
  moreover have "\<not> t_Enabled cfg \<or> \<not> is_fresh cfg m now \<longrightarrow> Decision impl cfg m now = (ThrottleAllow, 0)"
    by (auto simp: Decision_def is_fresh_def Let_def)
  ultimately show ?thesis using d by (cases d) simp_all
qed

theorem Decision_contract_witness:
  "\<exists>retryAfter. Decision (\<lambda>_. 0) DefaultThrottler (demo_metrics 120) (1700000002 * Second) = (ThrottleAllow, retryAfter) \<and> retryAfter = 0"
proof -
  have "\<not> is_fresh DefaultThrottler (demo_metrics 120) (1700000002 * Second)"
    by (simp add: is_fresh_def demo_metrics_def DefaultThrottler_def saturate64_def wrap64_def)
  then show ?thesis
    using Decision_contract [OF validate_DefaultThrottler, of "\<lambda>_. 0" "demo_metrics 120" "1700000002 * Second"] by simp
qed

text \<open>
  C23: Metrics that have just been stored may already count as stale, because \<open>lastUpdated\<close> keeps whole
  seconds. If the metrics were stored at the instant \<open>t\<close>, a decision \<open>elapsed\<close> nanoseconds later fails open as soon as
  \<open>elapsed\<close> and the fraction of the second in \<open>t\<close> exceed twice the update interval. With the default interval
  of 500 ms this happens for metrics that are one millisecond old, while the queue is at a hundred
  times its limit.
\<close>

theorem fresh_metrics_look_stale:
  assumes "tm_lastUpdated m = t div Second" and "0 \<le> elapsed" and "in64 (2 * t_MetricsUpdateInterval cfg)"
    and "2 * t_MetricsUpdateInterval cfg < t mod Second + elapsed"
  shows "Decision impl cfg m (t + elapsed) = (ThrottleAllow, 0)"
proof -
  have now: "t + elapsed - tm_lastUpdated m * Second = t mod Second + elapsed"
    unfolding assms(1) using div_mult_mod_eq [of t Second] by linarith
  have "2 * t_MetricsUpdateInterval cfg < saturate64 (t mod Second + elapsed) \<or> 2 ^ 63 - 1 \<le> 2 * t_MetricsUpdateInterval cfg"
    using assms(4) by (auto simp: saturate64_def)
  moreover have "2 * t_MetricsUpdateInterval cfg \<noteq> 2 ^ 63 - 1"
  proof
    assume "2 * t_MetricsUpdateInterval cfg = 2 ^ 63 - 1"
    then have "even (2 ^ 63 - 1 :: int)" by (metis dvd_triv_left)
    then show False by simp
  qed
  ultimately show ?thesis using assms(3) unfolding Decision_def now by (auto simp: Let_def in64_def)
qed

theorem fresh_metrics_look_stale_witness:
  "Decision (\<lambda>_. 0) DefaultThrottler (demo_metrics 10000) (1700000000 * Second + 999 * Millisecond + 2 * Millisecond) = (ThrottleAllow, 0)"
  using fresh_metrics_look_stale [of "demo_metrics 10000" "1700000000 * Second + 999 * Millisecond" "2 * Millisecond" DefaultThrottler "\<lambda>_. 0"]
  by (simp add: demo_metrics_def DefaultThrottler_def in64_def)

text \<open>The number of entries in all partition streams.\<close>

definition queue_depth :: "Producer \<Rightarrow> stream_db \<Rightarrow> int" where
  "queue_depth p d = (\<Sum>j\<leftarrow>[0..<nat (q_PartitionCount (pr_config p))].
     int (length (ents d (PartitionStreamName (q_BaseStreamName (pr_config p)) (int j)))))"

context redis_streams
begin

lemma getPendingMetrics_same:
  assumes "invar s" "getPendingMetrics R t nowMs c s = (r, s')" shows "invar s' \<and> db s' = db s"
proof (cases "\<exists>pc. th_consumer t = ConsumerPtr (Some pc)")
  case True
  then obtain pc where pc: "th_consumer t = ConsumerPtr (Some pc)" by blast
  obtain x s1 where x: "XPending R c (co_streamName pc) (co_consumerGroup pc) s = (x, s1)" by fastforce
  have "s1 = s'" using assms(2) x pc
    by (auto simp: getPendingMetrics_def GetPendingInfo_def Let_def split: sum.splits if_splits prod.splits)
  with xpending [OF assms(1) x] show ?thesis by simp
qed (use assms in \<open>auto simp: getPendingMetrics_def split: consumer_ref.splits option.splits\<close>)

lemma updateMetrics_same:
  assumes s: "invar s" and u: "updateMetrics R t cx c nowMs now m s = (r, s')"
  shows "invar s' \<and> db s' = db s"
proof -
  obtain x s1 where len: "StreamLength R (th_producer t) cx s = (x, s1)" by fastforce
  have "in64 0" by (simp add: in64_def)
  from StreamLength_loop_sum [OF s len [unfolded StreamLength_def] this] have s1: "invar s1 \<and> db s1 = db s" by simp
  obtain y s2 where g: "getPendingMetrics R t nowMs c s1 = (y, s2)" by fastforce
  from getPendingMetrics_same [OF _ g] s1 u len g show ?thesis
    by (cases x; cases y) (auto simp: updateMetrics_def Let_def split: prod.splits)
qed

lemma updateMetrics_spec:
  assumes s: "invar s" and u: "updateMetrics R t cx c nowMs now m s = (Ok m', s')"
    and len: "StreamLength R (th_producer t) cx s = (r, s1)" and sm: "in64 (queue_depth (th_producer t) (db s))"
  shows "case r of Ok d \<Rightarrow> tm_streamDepth m' = queue_depth (th_producer t) (db s) \<and> tm_lastUpdated m' = now | _ \<Rightarrow> m' = m"
proof -
  have "in64 0" by (simp add: in64_def)
  from StreamLength_loop_sum [OF s len [unfolded StreamLength_def] this] sm
  have d: "\<forall>d. r = Ok d \<longrightarrow> d = queue_depth (th_producer t) (db s)" by (simp add: queue_depth_def)
  obtain y s2 where "getPendingMetrics R t nowMs c s1 = (y, s2)" by fastforce
  with d u len show ?thesis by (cases r; cases y) (auto simp: updateMetrics_def Let_def split: prod.splits)
qed

end

text \<open>
  C22: What the metrics mean. A successful update stores the number of entries in all partition streams and
  the time, and changes nothing in Redis; without the depth the old metrics stay, so that they become
  stale. Acknowledging a message between two updates does not lower the depth, because
  processed entries stay in their stream: the depth counts what was enqueued and not trimmed, not what is waiting.
\<close>

theorem updateMetrics_depth:
  assumes R: "redis_streams R db invar rank" and s: "invar s"
    and u: "updateMetrics R t cx c nowMs now m s = (Ok m', s')"
    and len: "StreamLength R (th_producer t) cx s = (r, s1)" and sm: "in64 (queue_depth (th_producer t) (db s))"
    and ack: "Ack R co c' i s' = (None, s2)"
    and u2: "updateMetrics R t cx2 c2 nowMs2 now2 m' s2 = (Ok m2, s3)"
    and len2: "StreamLength R (th_producer t) cx2 s2 = (r2, s4)"
  shows "(case r of Ok d \<Rightarrow> tm_streamDepth m' = queue_depth (th_producer t) (db s) \<and> tm_lastUpdated m' = now | _ \<Rightarrow> m' = m) \<and>
         db s' = db s \<and> i \<notin> set (pend (db s2) (co_streamName co) (co_consumerGroup co)) \<and>
         (\<forall>d. r = Ok d \<longrightarrow> tm_streamDepth m2 = tm_streamDepth m')"
proof -
  note a = redis_streams.updateMetrics_spec [OF R s u len sm] and b = redis_streams.updateMetrics_same [OF R s u]
  from redis_streams.Ack_outcome [OF R _ ack] b
  have s2: "invar s2" "db s2 = db_ack (co_streamName co) (co_consumerGroup co) i (db s)" by auto
  then have q: "queue_depth (th_producer t) (db s2) = queue_depth (th_producer t) (db s)" by (simp add: queue_depth_def)
  from redis_streams.updateMetrics_spec [OF R s2(1) u2 len2] q sm a b s2(2) show ?thesis
    by (auto simp: pend_db_ack split: go.splits)
qed

definition demo_throttler :: Throttler where
  "demo_throttler = \<lparr>th_producer = demo_producer, th_consumer = ConsumerPtr (Some demo_consumer), th_config = DefaultThrottler\<rparr>"

lemma demo_StreamLength:
  assumes "m_faults s = []"
  shows "\<exists>d. StreamLength memory demo_producer (\<lambda>_. None) s = (Ok d, s)"
  by (simp add: StreamLength_def demo_producer_def NewProducer_def DefaultQueue_def numeral_2_eq_2
      memory_def mem_XLen_def mem_cmd_def assms Let_def)

lemma demo_updateMetrics:
  assumes "m_faults s = []"
  shows "\<exists>m'. updateMetrics memory demo_throttler (\<lambda>_. None) None nowMs now m s = (Ok m', s)"
proof -
  obtain d where "StreamLength memory demo_producer (\<lambda>_. None) s = (Ok d, s)" using demo_StreamLength [OF assms] by blast
  moreover have "\<exists>x. getPendingMetrics memory demo_throttler nowMs None s = (Ok x, s)"
    by (simp add: getPendingMetrics_def demo_throttler_def GetPendingInfo_def memory_def mem_XPending_def mem_cmd_def assms Let_def)
  ultimately show ?thesis by (auto simp: updateMetrics_def demo_throttler_def split: prod.splits)
qed

theorem updateMetrics_depth_witness:
  "\<exists>m' s2 m2. updateMetrics memory demo_throttler (\<lambda>_. None) None 0 5 (demo_metrics 0) demo_pending = (Ok m', demo_pending) \<and>
     Ack memory demo_consumer None ''0-1'' demo_pending = (None, s2) \<and>
     updateMetrics memory demo_throttler (\<lambda>_. None) None 0 6 m' s2 = (Ok m2, s2) \<and> tm_streamDepth m2 = tm_streamDepth m'"
proof -
  have f0: "m_faults demo_pending = []" by (simp add: demo_pending_def)
  obtain s2 where ack: "Ack memory demo_consumer None ''0-1'' demo_pending = (None, s2)" and f2: "m_faults s2 = []"
    using f0 by (auto simp: Ack_def memory_def mem_XAck_def mem_cmd_def)
  obtain m' where u: "updateMetrics memory demo_throttler (\<lambda>_. None) None 0 5 (demo_metrics 0) demo_pending = (Ok m', demo_pending)"
    using demo_updateMetrics [OF f0] by blast
  obtain m2 where u2: "updateMetrics memory demo_throttler (\<lambda>_. None) None 0 6 m' s2 = (Ok m2, s2)"
    using demo_updateMetrics [OF f2] by blast
  have pr: "th_producer demo_throttler = demo_producer" by (simp add: demo_throttler_def)
  obtain d where len: "StreamLength memory (th_producer demo_throttler) (\<lambda>_. None) demo_pending = (Ok d, demo_pending)"
    using demo_StreamLength [OF f0] pr by auto
  obtain d2 where len2: "StreamLength memory (th_producer demo_throttler) (\<lambda>_. None) s2 = (Ok d2, s2)"
    using demo_StreamLength [OF f2] pr by auto
  have "in64 (queue_depth (th_producer demo_throttler) (m_db demo_pending))"
    unfolding pr by (simp add: queue_depth_def demo_producer_def NewProducer_def DefaultQueue_def numeral_2_eq_2
        demo_pending_def demo_pending_db_def empty_db_def in64_def)
  from updateMetrics_depth [OF mem_streams.redis_streams_axioms demo_pending_inv u len this ack u2 len2] u ack u2
  show ?thesis by auto
qed

end
