(* ===== verification/Throttler_Lifecycle.thy ===== *)
theory Throttler_Lifecycle
  imports Throttler Transition_Systems
begin

text \<open>
  The life of a throttler (\<open>internal/ingestion/adpative_throttler.go\<close>): \<open>Start\<close>, the goroutine \<open>metricsUpdater\<close>, and calls of
  \<open>Stop\<close> by any number of goroutines, as a step relation. That \<open>Stop\<close> returns, and that nothing happens to the metrics
  afterwards.
\<close>

section \<open>State\<close>

text \<open>
  Where an updater is. The select statement evaluates \<open>t.ctx.Done()\<close> when it is entered, so a waiting updater holds the number of
  the context it waits for.
\<close>

datatype updater_pc = UpdaterEntry | Updating | LoopHead | Selecting nat | UpdaterReturned | UpdaterPanic

text \<open>Where a call of \<open>Stop\<close> is, and the state of \<open>stopOnce\<close>.\<close>

datatype stop_pc = OnceDo | Cancelling | WgWaiting | StopReturned

datatype once = OnceFresh | OnceRunning | OnceDone

text \<open>
  The fields of \<open>Throttler\<close> that change. Contexts are numbered; \<open>ts_ctxs\<close> has \<open>Err()\<close> of each. \<open>ts_ctx\<close> and \<open>ts_cancel\<close> are the
  fields \<open>ctx\<close> and \<open>cancel\<close>, nil before the first \<open>Start\<close>.
\<close>

record 's throttler_state =
  ts_metrics :: ThrottlerMetrics
  ts_ctxs :: "ctx list"
  ts_ctx :: "nat option"
  ts_cancel :: "nat option"
  ts_wg :: int
  ts_stopOnce :: once
  ts_updaters :: "updater_pc list"
  ts_stops :: "stop_pc list"
  ts_redis :: 's

definition throttler_init :: "ThrottlerMetrics \<Rightarrow> 's \<Rightarrow> 's throttler_state" where
  "throttler_init m s = \<lparr>ts_metrics = m, ts_ctxs = [], ts_ctx = None, ts_cancel = None, ts_wg = 0, ts_stopOnce = OnceFresh,
     ts_updaters = [], ts_stops = [], ts_redis = s\<rparr>"

section \<open>Operations\<close>

text \<open>\<open>c\<close> is the state of the parent context.\<close>

definition Throttler_Start :: "Throttler \<Rightarrow> ctx \<Rightarrow> 's throttler_state \<Rightarrow> 's throttler_state" where
  "Throttler_Start t c st =
     (if \<not> t_Enabled (th_config t) then st
      else st\<lparr>ts_ctxs := ts_ctxs st @ [c], ts_ctx := Some (length (ts_ctxs st)), ts_cancel := Some (length (ts_ctxs st)),
              ts_wg := ts_wg st + 1, ts_updaters := ts_updaters st @ [UpdaterEntry]\<rparr>)"

text \<open>A cancelled context keeps the error it has.\<close>

definition cancel_ctx :: "nat option \<Rightarrow> ctx list \<Rightarrow> ctx list" where
  "cancel_ctx cancel ctxs =
     (case cancel of None \<Rightarrow> ctxs | Some n \<Rightarrow> (if ctxs ! n = None then ctxs[n := Some ContextCanceled] else ctxs))"

text \<open>
  One step of an updater, of a call of \<open>Stop\<close>, or of the surroundings: a new call of \<open>Stop\<close>, the end of a parent context, other
  users of Redis. \<open>time.NewTicker\<close> panics for an interval that is not positive. \<open>stopOnce.Do\<close> runs its
  function for the first caller; later callers wait until it has returned.
\<close>

inductive tstep :: "'s redis_client \<Rightarrow> ('s \<Rightarrow> bool) \<Rightarrow> Throttler \<Rightarrow> 's throttler_state \<Rightarrow> 's throttler_state \<Rightarrow> bool"
  for R invar t where
  new_ticker: "\<lbrakk>j < length (ts_updaters st); ts_updaters st ! j = UpdaterEntry\<rbrakk> \<Longrightarrow>
    tstep R invar t st (st\<lparr>ts_updaters := (ts_updaters st)
      [j := if 0 < t_MetricsUpdateInterval (th_config t) then Updating else UpdaterPanic]\<rparr>)"
| update: "\<lbrakk>j < length (ts_updaters st); ts_updaters st ! j = Updating; ts_ctx st = Some n;
    \<forall>i. ctx_since (ts_ctxs st ! n) (cx i); ctx_since (ts_ctxs st ! n) c;
    updateMetrics R t cx c nowMs now (ts_metrics st) (ts_redis st) = (Ok m, s')\<rbrakk> \<Longrightarrow>
    tstep R invar t st (st\<lparr>ts_updaters := (ts_updaters st)[j := LoopHead], ts_metrics := m, ts_redis := s'\<rparr>)"
| update_panics: "\<lbrakk>j < length (ts_updaters st); ts_updaters st ! j = Updating; ts_ctx st = Some n;
    \<forall>i. ctx_since (ts_ctxs st ! n) (cx i); ctx_since (ts_ctxs st ! n) c;
    updateMetrics R t cx c nowMs now (ts_metrics st) (ts_redis st) = (Panic, s')\<rbrakk> \<Longrightarrow>
    tstep R invar t st (st\<lparr>ts_updaters := (ts_updaters st)[j := UpdaterPanic], ts_redis := s'\<rparr>)"
| enter_select: "\<lbrakk>j < length (ts_updaters st); ts_updaters st ! j = LoopHead; ts_ctx st = Some n\<rbrakk> \<Longrightarrow>
    tstep R invar t st (st\<lparr>ts_updaters := (ts_updaters st)[j := Selecting n]\<rparr>)"
| tick: "\<lbrakk>j < length (ts_updaters st); ts_updaters st ! j = Selecting n\<rbrakk> \<Longrightarrow>
    tstep R invar t st (st\<lparr>ts_updaters := (ts_updaters st)[j := Updating]\<rparr>)"
| updater_returns: "\<lbrakk>j < length (ts_updaters st); ts_updaters st ! j = Selecting n; ts_ctxs st ! n \<noteq> None\<rbrakk> \<Longrightarrow>
    tstep R invar t st (st\<lparr>ts_updaters := (ts_updaters st)[j := UpdaterReturned], ts_wg := ts_wg st - 1\<rparr>)"
| stop_call: "tstep R invar t st (st\<lparr>ts_stops := ts_stops st @ [OnceDo]\<rparr>)"
| once_first: "\<lbrakk>k < length (ts_stops st); ts_stops st ! k = OnceDo; ts_stopOnce st = OnceFresh\<rbrakk> \<Longrightarrow>
    tstep R invar t st (st\<lparr>ts_stops := (ts_stops st)[k := Cancelling], ts_stopOnce := OnceRunning\<rparr>)"
| once_later: "\<lbrakk>k < length (ts_stops st); ts_stops st ! k = OnceDo; ts_stopOnce st = OnceDone\<rbrakk> \<Longrightarrow>
    tstep R invar t st (st\<lparr>ts_stops := (ts_stops st)[k := StopReturned]\<rparr>)"
| stop_cancel: "\<lbrakk>k < length (ts_stops st); ts_stops st ! k = Cancelling\<rbrakk> \<Longrightarrow>
    tstep R invar t st (st\<lparr>ts_stops := (ts_stops st)[k := WgWaiting], ts_ctxs := cancel_ctx (ts_cancel st) (ts_ctxs st)\<rparr>)"
| stop_waited: "\<lbrakk>k < length (ts_stops st); ts_stops st ! k = WgWaiting; ts_wg st = 0\<rbrakk> \<Longrightarrow>
    tstep R invar t st (st\<lparr>ts_stops := (ts_stops st)[k := StopReturned], ts_stopOnce := OnceDone\<rparr>)"
| parent_ends: "\<lbrakk>n < length (ts_ctxs st); ts_ctxs st ! n = None\<rbrakk> \<Longrightarrow>
    tstep R invar t st (st\<lparr>ts_ctxs := (ts_ctxs st)[n := Some e]\<rparr>)"
| others: "invar s' \<Longrightarrow> tstep R invar t st (st\<lparr>ts_redis := s'\<rparr>)"

text \<open>The states of a throttler in a program that may call \<open>Start\<close> at any time.\<close>

inductive treachable :: "'s redis_client \<Rightarrow> ('s \<Rightarrow> bool) \<Rightarrow> Throttler \<Rightarrow> ThrottlerMetrics \<Rightarrow> 's \<Rightarrow> 's throttler_state \<Rightarrow> bool"
  for R invar t m s where
  created: "treachable R invar t m s (throttler_init m s)"
| started: "treachable R invar t m s st \<Longrightarrow> treachable R invar t m s (Throttler_Start t c st)"
| stepped: "\<lbrakk>treachable R invar t m s st; tstep R invar t st st'\<rbrakk> \<Longrightarrow> treachable R invar t m s st'"

section \<open>The interface\<close>

text \<open>\<open>NoopThrottler\<close>: \<open>Start\<close> and \<open>Stop\<close> do nothing.\<close>

definition Noop_Start :: "ctx \<Rightarrow> 's \<Rightarrow> 's" where "Noop_Start c s = s"
definition Noop_Stop :: "'s \<Rightarrow> 's" where "Noop_Stop s = s"

text \<open>A value of \<open>ThrottlerInterface\<close> and the calls of its methods; \<open>Interface_Stop\<close> is the call of \<open>Stop\<close>, whose steps are those of \<open>tstep\<close>.\<close>

datatype 's ThrottlerInterface = NoopThrottler | AdaptiveThrottler Throttler "'s throttler_state"

fun Interface_Start :: "ctx \<Rightarrow> 's ThrottlerInterface \<Rightarrow> 's ThrottlerInterface" where
  "Interface_Start c NoopThrottler = Noop_Start c NoopThrottler"
| "Interface_Start c (AdaptiveThrottler t st) = AdaptiveThrottler t (Throttler_Start t c st)"

fun Interface_Stop :: "'s ThrottlerInterface \<Rightarrow> 's ThrottlerInterface" where
  "Interface_Stop NoopThrottler = Noop_Stop NoopThrottler"
| "Interface_Stop (AdaptiveThrottler t st) = AdaptiveThrottler t (st\<lparr>ts_stops := ts_stops st @ [OnceDo]\<rparr>)"

fun Interface_Decision :: "(float64 \<Rightarrow> int64) \<Rightarrow> 's ThrottlerInterface \<Rightarrow> int \<Rightarrow> ThrottleDecision \<times> duration" where
  "Interface_Decision impl NoopThrottler now = Noop_Decision"
| "Interface_Decision impl (AdaptiveThrottler t st) now = Decision impl (th_config t) (ts_metrics st) now"

fun Interface_GetMetrics :: "'s ThrottlerInterface \<Rightarrow> int64 \<times> int64 \<times> int64" where
  "Interface_GetMetrics NoopThrottler = Noop_GetMetrics"
| "Interface_GetMetrics (AdaptiveThrottler t st) = GetMetrics (ts_metrics st)"

text \<open>Every value of the interface keeps the contract of \<open>throttler_interface\<close>, with the bounds of its configuration.\<close>

fun delay_range :: "'s ThrottlerInterface \<Rightarrow> duration \<times> duration" where
  "delay_range NoopThrottler = (0, 0)"
| "delay_range (AdaptiveThrottler t st) = (t_MinRetryAfter (th_config t), t_MaxRetryAfter (th_config t))"

fun valid_throttler :: "'s ThrottlerInterface \<Rightarrow> bool" where
  "valid_throttler NoopThrottler \<longleftrightarrow> True"
| "valid_throttler (AdaptiveThrottler t st) \<longleftrightarrow> validateThrottler (th_config t) = None"

lemma interface_contract:
  assumes "valid_throttler th"
  shows "throttler_interface (\<lambda>m now. Interface_Decision impl (case th of NoopThrottler \<Rightarrow> NoopThrottler
     | AdaptiveThrottler t st \<Rightarrow> AdaptiveThrottler t (st\<lparr>ts_metrics := m\<rparr>)) now) (fst (delay_range th)) (snd (delay_range th))"
proof (cases th)
  case NoopThrottler
  then show ?thesis using noop.throttler_interface_axioms by simp
next
  case (AdaptiveThrottler t st)
  with assms adaptive_throttler [of "th_config t" impl] show ?thesis by simp
qed

section \<open>Invariants\<close>

text \<open>The wait group counts the updaters that have not returned, and a call of \<open>Stop\<close> returns only when \<open>stopOnce\<close> is done.\<close>

definition live_updaters :: "'s throttler_state \<Rightarrow> int" where
  "live_updaters st = int (length (filter (\<lambda>u. u \<noteq> UpdaterReturned) (ts_updaters st)))"

definition counted :: "'s throttler_state \<Rightarrow> bool" where
  "counted st \<longleftrightarrow> ts_wg st = live_updaters st \<and> (StopReturned \<in> set (ts_stops st) \<longrightarrow> ts_stopOnce st = OnceDone)"

lemma counted_step:
  assumes "counted st" "tstep R invar t st st'" shows "counted st'"
  using assms(2)
proof cases
  case (stop_call)
  then show ?thesis using assms(1) by (auto simp: counted_def live_updaters_def)
qed (use assms(1) in \<open>auto simp: counted_def live_updaters_def length_filter_update dest: in_set_update\<close>)

lemma counted_reachable: "treachable R invar t m s st \<Longrightarrow> counted st"
proof (induction rule: treachable.induct)
  case (stepped st st')
  then show ?case using counted_step by blast
qed (auto simp: counted_def live_updaters_def throttler_init_def Throttler_Start_def)

text \<open>From the moment \<open>stopOnce\<close> is done, as long as \<open>Start\<close> is not called again, no updater is left.\<close>

definition silent :: "'s throttler_state \<Rightarrow> bool" where
  "silent st \<longleftrightarrow> ts_stopOnce st = OnceDone \<longrightarrow> set (ts_updaters st) \<subseteq> {UpdaterReturned}"

lemma live_updaters_0: "live_updaters st = 0 \<longleftrightarrow> set (ts_updaters st) \<subseteq> {UpdaterReturned}"
  by (auto simp: live_updaters_def filter_empty_conv)

lemma returned_nth: "set us \<subseteq> {UpdaterReturned} \<Longrightarrow> j < length us \<Longrightarrow> us ! j = UpdaterReturned"
  using nth_mem by fastforce

lemma silent_step:
  assumes "counted st" "silent st" "tstep R invar t st st'" shows "silent st'"
  using assms(3)
proof cases
  case (stop_waited k)
  with assms(1) have "live_updaters st = 0" by (simp add: counted_def)
  with stop_waited show ?thesis by (simp add: silent_def live_updaters_0)
qed (use assms(2) in \<open>auto simp: silent_def dest: returned_nth\<close>)

lemma silent_run:
  assumes "(tstep R invar t)\<^sup>*\<^sup>* st st'" "counted st" "silent st" shows "counted st' \<and> silent st'"
  using assms by induction (auto intro: counted_step silent_step)

lemma frozen_step:
  assumes "tstep R invar t st st'" "set (ts_updaters st) \<subseteq> {UpdaterReturned}" "ts_stopOnce st = OnceDone"
  shows "ts_metrics st' = ts_metrics st \<and> ts_stopOnce st' = OnceDone"
  using assms by cases (auto dest: returned_nth)

lemma frozen_run:
  assumes "(tstep R invar t)\<^sup>*\<^sup>* st st'" "counted st" "silent st" "ts_stopOnce st = OnceDone"
  shows "ts_metrics st' = ts_metrics st \<and> ts_stopOnce st' = OnceDone"
  using assms(1)
proof induction
  case (step y z)
  note y = silent_run [OF step(1) assms(2,3)]
  then have "set (ts_updaters y) \<subseteq> {UpdaterReturned}" using step(3) by (simp add: silent_def)
  from frozen_step [OF step(2) this] step(3) show ?case by simp
qed (use assms(4) in simp)

text \<open>A throttler that is started again after \<open>Stop\<close> cannot be stopped: \<open>stopOnce\<close> is used up.\<close>

lemma restarted_throttler_keeps_running:
  assumes "ts_stopOnce st = OnceDone" "t_Enabled (th_config t)"
  shows "\<exists>st'. (tstep R invar t)\<^sup>*\<^sup>* (Throttler_Start t None st) st' \<and> last (ts_stops st') = StopReturned \<and>
    last (ts_updaters st') = UpdaterEntry \<and> last (ts_ctxs st') = None"
proof -
  let ?a = "Throttler_Start t None st"
  let ?b = "?a\<lparr>ts_stops := ts_stops ?a @ [OnceDo]\<rparr>"
  let ?c = "?b\<lparr>ts_stops := (ts_stops ?b)[length (ts_stops st) := StopReturned]\<rparr>"
  have "tstep R invar t ?a ?b" by (rule stop_call)
  moreover have "tstep R invar t ?b ?c" by (rule once_later) (use assms in \<open>simp_all add: Throttler_Start_def\<close>)
  ultimately have "(tstep R invar t)\<^sup>*\<^sup>* ?a ?c" by simp
  then show ?thesis using assms by (intro exI [of _ ?c]) (simp add: Throttler_Start_def)
qed

section \<open>Stopping\<close>

text \<open>Ticks, new calls of \<open>Stop\<close> and what happens outside.\<close>

definition tquiet :: "'s throttler_state \<Rightarrow> 's throttler_state \<Rightarrow> bool" where
  "tquiet st st' \<longleftrightarrow> ts_stops st' = ts_stops st @ [OnceDo] \<or>
     (\<exists>j n. j < length (ts_updaters st) \<and> ts_updaters st ! j = Selecting n \<and> ts_updaters st' ! j = Updating) \<or>
     (ts_updaters st' = ts_updaters st \<and> ts_stops st' = ts_stops st)"

fun updater_rank :: "updater_pc \<Rightarrow> nat" where
  "updater_rank UpdaterEntry = 4"
| "updater_rank Updating = 3"
| "updater_rank LoopHead = 2"
| "updater_rank (Selecting n) = 1"
| "updater_rank _ = 0"

fun stop_rank :: "stop_pc \<Rightarrow> nat" where
  "stop_rank OnceDo = 3"
| "stop_rank Cancelling = 2"
| "stop_rank WgWaiting = 1"
| "stop_rank StopReturned = 0"

definition stop_order :: "('s throttler_state \<times> 's throttler_state) set" where
  "stop_order = measure (\<lambda>st. sum_list (map updater_rank (ts_updaters st)) + sum_list (map stop_rank (ts_stops st)))"

text \<open>
  What holds after the one \<open>Start\<close> of a program. The updaters look at the context that \<open>Stop\<close> cancels; exactly one call is inside
  of \<open>stopOnce\<close> while it runs, and the context has ended when that call waits.
\<close>

definition watching :: "'s throttler_state \<Rightarrow> bool" where
  "watching st \<longleftrightarrow> ts_cancel st = ts_ctx st \<and> UpdaterPanic \<notin> set (ts_updaters st) \<and>
     (ts_updaters st \<noteq> [] \<longrightarrow> ts_ctx st \<noteq> None) \<and> (\<forall>n. ts_ctx st = Some n \<longrightarrow> n < length (ts_ctxs st)) \<and>
     (\<forall>n. Selecting n \<in> set (ts_updaters st) \<longrightarrow> ts_ctx st = Some n)"

definition in_once :: "stop_pc \<Rightarrow> bool" where
  "in_once p \<longleftrightarrow> p = Cancelling \<or> p = WgWaiting"

definition once_inv :: "'s throttler_state \<Rightarrow> bool" where
  "once_inv st \<longleftrightarrow> int (length (filter in_once (ts_stops st))) = of_bool (ts_stopOnce st = OnceRunning)"

definition cancelled :: "'s throttler_state \<Rightarrow> bool" where
  "cancelled st \<longleftrightarrow> WgWaiting \<in> set (ts_stops st) \<longrightarrow> (\<forall>n. ts_ctx st = Some n \<longrightarrow> ts_ctxs st ! n \<noteq> None)"

lemma once_inv_nth:
  assumes "once_inv st" "k < length (ts_stops st)" "in_once (ts_stops st ! k)" shows "ts_stopOnce st = OnceRunning"
proof (rule ccontr)
  assume "ts_stopOnce st \<noteq> OnceRunning"
  with assms(1) have "filter in_once (ts_stops st) = []" by (simp add: once_inv_def)
  with assms(2,3) show False by (simp add: filter_empty_conv)
qed

lemma once_inv_step:
  assumes "once_inv st" "tstep R invar t st st'" shows "once_inv st'"
  using assms(2)
proof cases
  case (stop_waited k)
  with once_inv_nth [OF assms(1), of k] assms(1) show ?thesis
    by (auto simp: once_inv_def in_once_def length_filter_update)
qed (use assms(1) in \<open>auto simp: once_inv_def in_once_def length_filter_update\<close>)

lemma length_cancel_ctx [simp]: "length (cancel_ctx c ctxs) = length ctxs"
  by (simp add: cancel_ctx_def split: option.splits)

lemma cancel_ctx_nth: "n < length ctxs \<Longrightarrow> cancel_ctx (Some n) ctxs ! n \<noteq> None"
  by (simp add: cancel_ctx_def)

lemma ctx_cancelled_step:
  assumes "cancelled st" "watching st" "tstep R invar t st st'" shows "cancelled st'"
  using assms(3)
proof cases
  case (stop_cancel k)
  with assms(2) cancel_ctx_nth show ?thesis by (auto simp: cancelled_def watching_def)
next
  case (parent_ends n e)
  with assms(1) show ?thesis by (auto simp: cancelled_def nth_list_update)
qed (use assms(1) in \<open>auto simp: cancelled_def dest: in_set_update\<close>)

text \<open>A throttler whose updater does not panic: its consumer is not a nil pointer and its ticker has a positive interval.\<close>

definition runnable :: "Throttler \<Rightarrow> bool" where
  "runnable t \<longleftrightarrow> th_consumer t \<noteq> ConsumerPtr None \<and> 0 < t_MetricsUpdateInterval (th_config t)"

definition stoppable :: "('s \<Rightarrow> bool) \<Rightarrow> nat \<Rightarrow> 's throttler_state \<Rightarrow> bool" where
  "stoppable invar k st \<longleftrightarrow> counted st \<and> once_inv st \<and> cancelled st \<and> watching st \<and> invar (ts_redis st) \<and> k < length (ts_stops st)"

lemma in_onceE:
  assumes "once_inv st" "ts_stopOnce st = OnceRunning"
  obtains i where "i < length (ts_stops st)" "ts_stops st ! i = Cancelling \<or> ts_stops st ! i = WgWaiting"
proof -
  have "filter in_once (ts_stops st) \<noteq> []" using assms by (auto simp: once_inv_def)
  then show ?thesis using that by (auto simp: filter_empty_conv in_set_conv_nth in_once_def)
qed

lemma stop_decreases:
  assumes "tstep R invar t st st'" "\<not> tquiet st st'" shows "(st', st) \<in> stop_order"
  using assms
  by cases (auto simp: stop_order_def tquiet_def simp del: map_update intro!: sum_list_update_less)

lemma tmoves:
  "\<lbrakk>tstep R invar t st st'; \<not> tquiet st st'\<rbrakk> \<Longrightarrow> \<exists>st'. tstep R invar t st st' \<and> \<not> tquiet st st'"
  by blast

lemma stop_changes:
  assumes "k < length (ts_stops st)" "ts_stops st' = (ts_stops st)[k := p]" "p \<noteq> ts_stops st ! k" "ts_updaters st' = ts_updaters st"
  shows "\<not> tquiet st st'"
proof -
  have "ts_stops st' \<noteq> ts_stops st" using assms by (metis nth_list_update_eq)
  moreover have "length (ts_stops st') = length (ts_stops st)" using assms by simp
  ultimately show ?thesis using assms(4) by (auto simp: tquiet_def)
qed

lemma updater_changes:
  assumes "j < length (ts_updaters st)" "ts_updaters st' = (ts_updaters st)[j := u]" "u \<noteq> ts_updaters st ! j" "u \<noteq> Updating \<or> ts_updaters st ! j = UpdaterEntry"
    "ts_stops st' = ts_stops st"
  shows "\<not> tquiet st st'"
proof -
  have "ts_updaters st' \<noteq> ts_updaters st" using assms by (metis nth_list_update_eq)
  then show ?thesis using assms by (auto simp: tquiet_def nth_list_update split: if_splits)
qed

context redis_streams
begin

lemma updateMetrics_no_panic:
  assumes s: "invar s" and t: "th_consumer t \<noteq> ConsumerPtr None" and u: "updateMetrics R t cx c nowMs now m s = (r, s')"
  shows "\<exists>m'. r = Ok m'"
proof -
  obtain x s1 where len: "StreamLength R (th_producer t) cx s = (x, s1)" by fastforce
  have "in64 0" by (simp add: in64_def)
  from StreamLength_loop_sum [OF s len [unfolded StreamLength_def] this] have x: "x \<noteq> Panic" by simp
  obtain y s2 where g: "getPendingMetrics R t nowMs c s1 = (y, s2)" by fastforce
  have "y \<noteq> Panic" using g t
    by (auto simp: getPendingMetrics_def GetPendingInfo_def Let_def split: consumer_ref.splits option.splits prod.splits sum.splits if_splits)
  with x u len g show ?thesis by (cases x; cases y) (auto simp: updateMetrics_def Let_def split: prod.splits)
qed

lemma watching_step:
  assumes "watching st" "invar (ts_redis st)" "runnable t" "tstep R invar t st st'" shows "watching st' \<and> invar (ts_redis st')"
  using assms(4)
proof cases
  case (update j n cx c nowMs now m s')
  from updateMetrics_same [OF assms(2) update(7)] update assms(1) show ?thesis by (auto simp: watching_def dest: in_set_update)
next
  case (update_panics j n cx c nowMs now s')
  from updateMetrics_no_panic [OF assms(2) _ update_panics(7)] assms(3) show ?thesis by (simp add: runnable_def)
qed (use assms(1-3) in \<open>auto simp: watching_def runnable_def dest: in_set_update split: if_splits\<close>)

end

lemma stops_grow:
  assumes "tstep R invar t st st'" "k < length (ts_stops st)" shows "k < length (ts_stops st')"
  using assms by cases auto

lemma stops_grow_run:
  assumes "(tstep R invar t)\<^sup>*\<^sup>* st st'" "k < length (ts_stops st)" shows "k < length (ts_stops st')"
  using assms by induction (auto dest: stops_grow)

lemma updater_progress:
  assumes "watching st" "cancelled st" "WgWaiting \<in> set (ts_stops st)" "ts_wg st \<noteq> 0" "counted st"
  shows "\<exists>st'. tstep R invar t st st' \<and> \<not> tquiet st st'"
proof -
  have "live_updaters st \<noteq> 0" using assms by (simp add: counted_def)
  then obtain j where j: "j < length (ts_updaters st)" "ts_updaters st ! j \<noteq> UpdaterReturned"
    unfolding live_updaters_0 by (metis in_set_conv_nth insertI1 subsetI)
  then have mem: "ts_updaters st ! j \<in> set (ts_updaters st)" by simp
  obtain n where n: "ts_ctx st = Some n" using assms(1) j(1) by (auto simp: watching_def)
  show ?thesis
  proof (cases "ts_updaters st ! j")
    case UpdaterEntry
    show ?thesis by (rule tmoves [OF new_ticker [OF j(1) UpdaterEntry] updater_changes [OF j(1)]]) (simp add: UpdaterEntry)+
  next
    case Updating
    have since: "\<forall>i::nat. ctx_since (ts_ctxs st ! n) (ts_ctxs st ! n)" "ctx_since (ts_ctxs st ! n) (ts_ctxs st ! n)" by (simp_all add: ctx_since_def)
    obtain r s' where u: "updateMetrics R t (\<lambda>_. ts_ctxs st ! n) (ts_ctxs st ! n) 0 0 (ts_metrics st) (ts_redis st) = (r, s')" by fastforce
    show ?thesis
    proof (cases r)
      case (Ok m)
      show ?thesis by (rule tmoves [OF update [OF j(1) Updating n since u [unfolded Ok]] updater_changes [OF j(1)]]) (simp add: Updating)+
    next
      case Panic
      show ?thesis by (rule tmoves [OF update_panics [OF j(1) Updating n since u [unfolded Panic]] updater_changes [OF j(1)]]) (simp add: Updating)+
    next
      case (Err e)
      with u show ?thesis by (auto simp: updateMetrics_def Let_def split: go.splits prod.splits)
    qed
  next
    case LoopHead
    show ?thesis by (rule tmoves [OF enter_select [OF j(1) LoopHead n] updater_changes [OF j(1)]]) (simp add: LoopHead)+
  next
    case (Selecting i)
    then have "ts_ctxs st ! i \<noteq> None" using assms(1-3) mem by (auto simp: watching_def cancelled_def)
    from updater_returns [OF j(1) Selecting this] show ?thesis
      by (rule tmoves [OF _ updater_changes [OF j(1)]]) (simp add: Selecting)+
  qed (use j(2) mem assms(1) in \<open>auto simp: watching_def\<close>)
qed

lemma stop_progress:
  assumes "stoppable invar k st" "ts_stops st ! k \<noteq> StopReturned"
  shows "\<exists>st'. tstep R invar t st st' \<and> \<not> tquiet st st'"
proof -
  from assms(1) have st: "counted st" "once_inv st" "cancelled st" "watching st" "k < length (ts_stops st)" by (simp_all add: stoppable_def)
  have running: ?thesis if run: "ts_stopOnce st = OnceRunning"
  proof -
    from st(2) run obtain i where i: "i < length (ts_stops st)" "ts_stops st ! i = Cancelling \<or> ts_stops st ! i = WgWaiting"
      by (rule in_onceE)
    from i(2) show ?thesis
    proof
      assume c: "ts_stops st ! i = Cancelling"
      show ?thesis by (rule tmoves [OF stop_cancel [OF i(1) c] stop_changes [OF i(1)]]) (simp add: c)+
    next
      assume w: "ts_stops st ! i = WgWaiting"
      show ?thesis
      proof (cases "ts_wg st = 0")
        case True
        show ?thesis by (rule tmoves [OF stop_waited [OF i(1) w True] stop_changes [OF i(1)]]) (simp add: w)+
      next
        case False
        from updater_progress [OF st(4,3) _ False st(1)] i(1) w show ?thesis by (metis nth_mem)
      qed
    qed
  qed
  show ?thesis
  proof (cases "in_once (ts_stops st ! k)")
    case True
    from running [OF once_inv_nth [OF st(2,5) True]] show ?thesis .
  next
    case False
    with assms(2) have k: "ts_stops st ! k = OnceDo" by (cases "ts_stops st ! k") (auto simp: in_once_def)
    show ?thesis
    proof (cases "ts_stopOnce st")
      case OnceFresh
      show ?thesis by (rule tmoves [OF once_first [OF st(5) k OnceFresh] stop_changes [OF st(5)]]) (simp add: k)+
    next
      case OnceDone
      show ?thesis by (rule tmoves [OF once_later [OF st(5) k OnceDone] stop_changes [OF st(5)]]) (simp add: k)+
    qed (rule running)
  qed
qed

context redis_streams
begin

lemma stopping_step:
  assumes "counted st \<and> once_inv st \<and> cancelled st \<and> watching st \<and> invar (ts_redis st)" "runnable t" "tstep R invar t st st'"
  shows "counted st' \<and> once_inv st' \<and> cancelled st' \<and> watching st' \<and> invar (ts_redis st')"
  using assms counted_step once_inv_step ctx_cancelled_step watching_step by metis

lemma stop_draining:
  assumes "runnable t"
  shows "draining (tstep R invar t) tquiet (\<lambda>st. ts_stops st ! k = StopReturned) (stoppable invar k) stop_order"
proof
  show "wf stop_order" by (simp add: stop_order_def)
next
  fix x y assume "stoppable invar k x" "tstep R invar t x y"
  then show "stoppable invar k y" using stopping_step [OF _ assms] stops_grow unfolding stoppable_def by metis
qed (use stop_progress stop_decreases in blast)+

lemma started_run:
  assumes "runnable t" "invar s" "(tstep R invar t)\<^sup>*\<^sup>* (Throttler_Start t c (throttler_init m s)) st"
  shows "counted st \<and> once_inv st \<and> cancelled st \<and> watching st \<and> invar (ts_redis st)"
  using assms(3)
proof induction
  case base
  then show ?case using assms(2)
    by (auto simp: Throttler_Start_def throttler_init_def counted_def once_inv_def cancelled_def watching_def live_updaters_def)
qed (use stopping_step [OF _ assms(1)] in blast)

end

section \<open>Properties\<close>

text \<open>
  C24: \<open>Stop\<close> waits for the background work of a throttler. Whatever happened before, with any number of updaters and of concurrent
  calls: when a call of \<open>Stop\<close> has returned (the first, or a later one that waits for it), every updater has returned, and from
  then on, until somebody calls \<open>Start\<close>, the metrics do not change.
\<close>

theorem Stop_silences:
  assumes reach: "treachable R invar t m s st" and fresh: "ts_stopOnce st \<noteq> OnceDone"
    and run: "(tstep R invar t)\<^sup>*\<^sup>* st st1" and ret: "StopReturned \<in> set (ts_stops st1)"
    and later: "(tstep R invar t)\<^sup>*\<^sup>* st1 st2"
  shows "set (ts_updaters st2) \<subseteq> {UpdaterReturned} \<and> ts_wg st2 = 0 \<and> ts_metrics st2 = ts_metrics st1"
proof -
  have "counted st" "silent st" using counted_reachable [OF reach] fresh by (auto simp: silent_def)
  with silent_run [OF run] have st1: "counted st1" "silent st1" by simp_all
  then have "ts_stopOnce st1 = OnceDone" using ret by (simp add: counted_def)
  with silent_run [OF later st1] frozen_run [OF later st1] show ?thesis by (auto simp: silent_def counted_def live_updaters_0)
qed

text \<open>
  C25: \<open>Stop\<close> returns. After the one \<open>Start\<close> of the ingestion service, with a validated configuration and a consumer, every call of \<open>Stop\<close>
  that has been made returns, whatever the goroutines do, however many calls there are and whatever answers Redis gives: after
  any number of ticks and of events outside of the throttler it is only a finite number of its own steps away.
\<close>

theorem Stop_returns:
  assumes R: "redis_streams R db invar rank" and s: "invar s"
    and cfg: "validateThrottler (th_config t) = None" "t_Enabled (th_config t)" and consumer: "th_consumer t \<noteq> ConsumerPtr None"
    and run: "(tstep R invar t)\<^sup>*\<^sup>* (Throttler_Start t c (throttler_init m s)) st" and k: "k < length (ts_stops st)"
  shows "inevitable (tstep R invar t) tquiet (\<lambda>st. ts_stops st ! k = StopReturned) n st"
proof -
  have t: "runnable t" using cfg consumer by (simp add: runnable_def cfg_defs)
  from redis_streams.started_run [OF R t s run] k have "stoppable invar k st" by (simp add: stoppable_def)
  with draining.drains [OF redis_streams.stop_draining [OF R t]] show ?thesis .
qed

definition demo_started :: "mem throttler_state" where
  "demo_started = Throttler_Start demo_throttler None (throttler_init (demo_metrics 0) demo_pending)"

lemma demo_throttler_ok:
  "validateThrottler (th_config demo_throttler) = None" "t_Enabled (th_config demo_throttler)"
  "th_consumer demo_throttler \<noteq> ConsumerPtr None"
  by (simp_all add: demo_throttler_def DefaultThrottler_def [THEN arg_cong [where f = t_Enabled]])

text \<open>Two calls of \<open>Stop\<close> while the updater starts: both return.\<close>

theorem Stop_returns_witness:
  "\<exists>st. (tstep memory mem_inv demo_throttler)\<^sup>*\<^sup>* demo_started st \<and> ts_stops st = [OnceDo, OnceDo] \<and>
     inevitable (tstep memory mem_inv demo_throttler) tquiet (\<lambda>st. ts_stops st ! 1 = StopReturned) 3 st"
proof -
  let ?a = "demo_started\<lparr>ts_stops := ts_stops demo_started @ [OnceDo]\<rparr>"
  let ?b = "?a\<lparr>ts_stops := ts_stops ?a @ [OnceDo]\<rparr>"
  have stops: "ts_stops ?b = [OnceDo, OnceDo]" by (simp add: demo_started_def Throttler_Start_def throttler_init_def)
  have run: "(tstep memory mem_inv demo_throttler)\<^sup>*\<^sup>* demo_started ?b" using stop_call [of memory mem_inv demo_throttler] by (meson r_into_rtranclp rtranclp_trans)
  with Stop_returns [OF mem_streams.redis_streams_axioms demo_pending_inv demo_throttler_ok, of None "demo_metrics 0" ?b 1 3] stops
  show ?thesis unfolding demo_started_def by fastforce
qed

theorem Stop_silences_witness:
  "\<exists>st. (tstep memory mem_inv demo_throttler)\<^sup>*\<^sup>* demo_started st \<and> StopReturned \<in> set (ts_stops st) \<and>
     set (ts_updaters st) \<subseteq> {UpdaterReturned}"
proof -
  let ?a = "demo_started\<lparr>ts_stops := ts_stops demo_started @ [OnceDo]\<rparr>"
  let ?step = "tstep memory mem_inv demo_throttler"
  have run: "?step\<^sup>*\<^sup>* demo_started ?a" using stop_call by (rule r_into_rtranclp)
  have one: "0 < length (ts_stops ?a)" by simp
  from redis_streams.started_run [OF mem_streams.redis_streams_axioms _ demo_pending_inv run [unfolded demo_started_def]]
  have "stoppable mem_inv 0 ?a" using demo_throttler_ok by (simp add: stoppable_def runnable_def cfg_defs demo_started_def)
  from inevitable_run [OF draining.drains [OF redis_streams.stop_draining [OF mem_streams.redis_streams_axioms] this]]
  obtain st where st: "?step\<^sup>*\<^sup>* ?a st" "ts_stops st ! 0 = StopReturned" using demo_throttler_ok by (auto simp: runnable_def cfg_defs)
  have ret: "StopReturned \<in> set (ts_stops st)" using stops_grow_run [OF st(1) one] st(2) by (metis nth_mem)
  have reach: "treachable memory mem_inv demo_throttler (demo_metrics 0) demo_pending demo_started"
    unfolding demo_started_def by (intro started created)
  have "?step\<^sup>*\<^sup>* demo_started st" using run st(1) by (rule rtranclp_trans)
  moreover from Stop_silences [OF reach _ this ret rtranclp.rtrancl_refl] have "set (ts_updaters st) \<subseteq> {UpdaterReturned}"
    by (simp add: demo_started_def Throttler_Start_def throttler_init_def)
  ultimately show ?thesis using ret by blast
qed

end
