(* ===== verification/Control_Plane.thy ===== *)
theory Control_Plane
  imports Registry
begin

text \<open>
  \<open>internal/registry/control_plane.go\<close>: the control plane holds a lock in Redis, renews it, and
  looks at the registry for dead workers. The blocking loops are functions of the list of events
  their \<open>select\<close> statements see; when the list is used up the loop is still running.
\<close>

definition controlPlaneLockKey :: string where "controlPlaneLockKey = ''controlplane:lock''"

record ControlPlane =
  cp_registry :: Registry
  cp_config :: RegistryConfig
  cp_id :: string

definition NewControlPlane :: "Registry \<Rightarrow> RegistryConfig \<Rightarrow> string \<Rightarrow> int64 \<Rightarrow> ControlPlane" where
  "NewControlPlane registry cfg hostname pid =
     \<lparr>cp_registry = registry, cp_config = cfg, cp_id = ''controlplane-'' @ hostname @ ''-'' @ itoa pid\<rparr>"

section \<open>The lock\<close>

definition acquireLock :: "'s redis_client \<Rightarrow> ControlPlane \<Rightarrow> ctx \<Rightarrow> 's \<Rightarrow> bool go \<times> 's" where
  "acquireLock R cp c s =
     (case SetNX R c controlPlaneLockKey (cp_id cp) (r_LockTTL (cp_config cp)) s of
        (Inl e, s') \<Rightarrow> (Err (Wrap ''lock SetNX failed: '' e), s')
      | (Inr ok, s') \<Rightarrow> (Ok ok, s'))"

definition renewLock :: "'s redis_client \<Rightarrow> ControlPlane \<Rightarrow> (nat \<Rightarrow> ctx) \<Rightarrow> 's \<Rightarrow> goerror option \<times> 's" where
  "renewLock R cp cx s =
     (case Get R (cx 0) controlPlaneLockKey s of
        (Inl e, s1) \<Rightarrow> (Some (Wrap ''failed to read lock: '' e), s1)
      | (Inr current, s1) \<Rightarrow>
          (if current \<noteq> cp_id cp
           then (Some (ErrorString (''lock owned by '' @ go_quote current @ '', not '' @ go_quote (cp_id cp))), s1)
           else case Expire R (cx 1) controlPlaneLockKey (r_LockTTL (cp_config cp)) s1 of
                  (Inl e, s2) \<Rightarrow> (Some (Wrap ''failed to renew lock TTL: '' e), s2)
                | (Inr ok, s2) \<Rightarrow> (None, s2)))"

definition releaseLock :: "'s redis_client \<Rightarrow> ControlPlane \<Rightarrow> (nat \<Rightarrow> ctx) \<Rightarrow> 's \<Rightarrow> 's" where
  "releaseLock R cp cx s =
     (case Get R (cx 0) controlPlaneLockKey s of
        (Inl e, s1) \<Rightarrow> s1
      | (Inr current, s1) \<Rightarrow>
          (if current \<noteq> cp_id cp then s1 else snd (Del R (cx 1) controlPlaneLockKey s1)))"

section \<open>Reconciliation\<close>

text \<open>
  The summary that is logged: all workers, those alive, those dead; \<open>None\<close> when the registry
  could not be read. \<open>nows j\<close> is the clock when the \<open>j\<close>-th worker is looked at.
\<close>

fun count_alive :: "RegistryConfig \<Rightarrow> (nat \<Rightarrow> int) \<Rightarrow> nat \<Rightarrow> WorkerInfo list \<Rightarrow> int64" where
  "count_alive cfg nows j [] = 0"
| "count_alive cfg nows j (w # ws) =
     (if IsAlive w (nows j) (r_DeadThreshold cfg) then 1 else 0) + count_alive cfg nows (Suc j) ws"

definition reconcile ::
  "'s redis_client \<Rightarrow> ControlPlane \<Rightarrow> (nat \<Rightarrow> ctx) \<Rightarrow> (nat \<Rightarrow> int) \<Rightarrow> 's \<Rightarrow> (int64 \<times> int64 \<times> int64) option \<times> 's" where
  "reconcile R cp cx nows s =
     (case ListWorkers R cx s of
        (Ok workers, s') \<Rightarrow>
          (let alive = count_alive (cp_config cp) nows 0 workers; n = int (length workers)
           in (Some (n, alive, n - alive), s'))
      | (_, s') \<Rightarrow> (None, s'))"

section \<open>Start and the standby loop\<close>

text \<open>
  What a \<open>select\<close> receives, with the contexts of the commands that follow and the clock readings
  of a reconciliation. \<open>Elapse f\<close> stands between two of them: time passes and other clients change
  the server.
\<close>

datatype 's cp_event =
    CtxDone
  | LockRenewTick "nat \<Rightarrow> ctx"
  | ReconcileTick "nat \<Rightarrow> ctx" "nat \<Rightarrow> int"
  | StandbyTick "nat \<Rightarrow> ctx"
  | Elapse "'s \<Rightarrow> 's"

datatype cp_result = Returned "goerror option" | Running

text \<open>The loop of the leader; the number counts the reconciliations.\<close>

fun lead :: "'s redis_client \<Rightarrow> ControlPlane \<Rightarrow> 's cp_event list \<Rightarrow> nat \<Rightarrow> 's \<Rightarrow> (cp_result \<times> nat) \<times> 's" where
  "lead R cp [] n s = ((Running, n), s)"
| "lead R cp (CtxDone # es) n s = ((Returned None, n), releaseLock R cp (\<lambda>_. None) s)"
| "lead R cp (LockRenewTick cx # es) n s =
     (case renewLock R cp cx s of
        (Some e, s') \<Rightarrow> ((Returned (Some (Wrap ''lost control plane lock: '' e)), n), s')
      | (None, s') \<Rightarrow> lead R cp es n s')"
| "lead R cp (ReconcileTick cx nows # es) n s = lead R cp es (Suc n) (snd (reconcile R cp cx nows s))"
| "lead R cp (StandbyTick cx # es) n s = lead R cp es n s"
| "lead R cp (Elapse f # es) n s = lead R cp es n (f s)"

text \<open>\<open>nows\<close> are the clock readings of the first reconciliation.\<close>

function (sequential)
  Start :: "'s redis_client \<Rightarrow> ControlPlane \<Rightarrow> (nat \<Rightarrow> ctx) \<Rightarrow> (nat \<Rightarrow> int) \<Rightarrow> 's cp_event list \<Rightarrow> 's \<Rightarrow> (cp_result \<times> nat) \<times> 's"
  and waitForLock :: "'s redis_client \<Rightarrow> ControlPlane \<Rightarrow> (nat \<Rightarrow> int) \<Rightarrow> 's cp_event list \<Rightarrow> 's \<Rightarrow> (cp_result \<times> nat) \<times> 's"
where
  "Start R cp cx nows es s =
     (case acquireLock R cp (cx 0) s of
        (Err e, s') \<Rightarrow> ((Returned (Some (Wrap ''failed to acquire control plane lock: '' e)), 0), s')
      | (Panic, s') \<Rightarrow> ((Running, 0), s')
      | (Ok acquired, s') \<Rightarrow>
          (if \<not> acquired then waitForLock R cp nows es s'
           else lead R cp es 1 (snd (reconcile R cp (\<lambda>j. cx (Suc j)) nows s'))))"
| "waitForLock R cp nows [] s = ((Running, 0), s)"
| "waitForLock R cp nows (CtxDone # es) s = ((Returned None, 0), s)"
| "waitForLock R cp nows (StandbyTick cx # es) s =
     (case acquireLock R cp (cx 0) s of
        (Ok True, s') \<Rightarrow> Start R cp (\<lambda>j. cx (Suc j)) nows es s'
      | (_, s') \<Rightarrow> waitForLock R cp nows es s')"
| "waitForLock R cp nows (Elapse f # es) s = waitForLock R cp nows es (f s)"
| "waitForLock R cp nows (e # es) s = waitForLock R cp nows es s"
  by pat_completeness auto
termination
  by (relation "measure (\<lambda>x. case x of Inl (R, cp, cx, nows, es, s) \<Rightarrow> Suc (2 * length es)
        | Inr (R, cp, nows, es, s) \<Rightarrow> 2 * length es)") auto

section \<open>Facts\<close>

lemma acquireLock_not_Panic [simp]: "acquireLock R cp c s \<noteq> (Panic, s')"
  by (auto simp: acquireLock_def split: prod.splits sum.splits)

context redis_keys
begin

lemma acquire_held:
  assumes "acquireLock R cp c s = (r, s')" "0 < r_LockTTL (cp_config cp)"
    and "kv s controlPlaneLockKey = Some (owner, dl)" "now s' < dl"
  shows "r \<noteq> Ok True \<and> (r = Ok False \<longrightarrow> kv s' = kv s)"
proof -
  obtain x s1 where x: "SetNX R c controlPlaneLockKey (cp_id cp) (r_LockTTL (cp_config cp)) s = (x, s1)" by fastforce
  have s1: "s1 = s'" using assms(1) x by (auto simp: acquireLock_def split: sum.splits)
  have "x \<noteq> Inr True" using setnx_live [OF x assms(2,3)] assms(4) s1 by simp
  then show ?thesis using assms(1) x s1 setnx_old
    by (auto simp: acquireLock_def split: sum.splits)
qed

lemma acquire_new:
  assumes "acquireLock R cp c s = (Ok True, s')" "0 < r_LockTTL (cp_config cp)"
  shows "\<exists>t. now s \<le> t \<and> t \<le> now s' \<and>
             kv s' controlPlaneLockKey = Some (cp_id cp, t + set_ttl (r_LockTTL (cp_config cp)))"
proof -
  from assms(1) have "SetNX R c controlPlaneLockKey (cp_id cp) (r_LockTTL (cp_config cp)) s = (Inr True, s')"
    by (auto simp: acquireLock_def split: prod.splits sum.splits)
  from setnx_sets [OF this assms(2)] show ?thesis by blast
qed

text \<open>While the lock is live, nobody else renews or deletes it.\<close>

lemma renew_foreign:
  assumes "renewLock R cp cx s = (None, s')" "kv s controlPlaneLockKey = Some (owner, dl)"
  shows "owner = cp_id cp"
proof -
  obtain x s1 where x: "Get R (cx 0) controlPlaneLockKey s = (x, s1)" by fastforce
  from assms(1) x have "x = Inr (cp_id cp)" by (auto simp: renewLock_def split: sum.splits if_splits)
  from get_ok [OF x [unfolded this]] assms(2) show ?thesis by (auto simp: live_at_def split: if_splits)
qed

lemma release_foreign:
  assumes "kv s controlPlaneLockKey = Some (owner, dl)" "owner \<noteq> cp_id cp"
  shows "kv (releaseLock R cp cx s) = kv s"
proof -
  obtain x s1 where x: "Get R (cx 0) controlPlaneLockKey s = (x, s1)" by fastforce
  note same = get_same [OF x]
  show ?thesis
  proof (cases x)
    case (Inl e)
    with x same show ?thesis by (simp add: releaseLock_def)
  next
    case (Inr v)
    from get_ok [OF x [unfolded this]] assms have "v \<noteq> cp_id cp" by (auto simp: live_at_def split: if_splits)
    with x same Inr show ?thesis by (simp add: releaseLock_def)
  qed
qed

text \<open>
  A standby that obtains the lock calls \<open>Start\<close>, which tries to obtain it once more and finds its
  own key. Unless that second attempt takes longer than the lock lives, it goes back to waiting.
\<close>

lemma second_acquire:
  assumes "acquireLock R cp c s = (Ok True, s1)" "0 < r_LockTTL (cp_config cp)"
    and "acquireLock R cp c' s1 = (r, s2)" "now s2 < now s + set_ttl (r_LockTTL (cp_config cp))"
  shows "r \<noteq> Ok True"
proof -
  from acquire_new [OF assms(1,2)] obtain t where "now s \<le> t"
    "kv s1 controlPlaneLockKey = Some (cp_id cp, t + set_ttl (r_LockTTL (cp_config cp)))" by auto
  with acquire_held [OF assms(3,2)] assms(4) show ?thesis by auto
qed

lemma standby_count:
  assumes ttl: "0 < r_LockTTL (cp_config cp)"
    and fast: "\<And>c c' s. now (snd (acquireLock R cp c' (snd (acquireLock R cp c s)))) < now s + set_ttl (r_LockTTL (cp_config cp))"
  shows "snd (fst (waitForLock R cp nows es s)) = 0"
proof (induction es arbitrary: s)
  case (Cons e es)
  show ?case
  proof (cases e)
    case (StandbyTick cx)
    obtain r s1 where a: "acquireLock R cp (cx 0) s = (r, s1)" by fastforce
    obtain r2 s2 where a2: "acquireLock R cp (cx 1) s1 = (r2, s2)" by fastforce
    show ?thesis
    proof (cases "r = Ok True")
      case False
      then show ?thesis using Cons.IH StandbyTick a by (cases r) simp_all
    next
      case True
      have "now s2 < now s + set_ttl (r_LockTTL (cp_config cp))" using fast [of "cx 1" "cx 0" s] a a2 by simp
      from second_acquire [OF a [unfolded True] ttl a2 this] have "r2 \<noteq> Ok True" .
      then show ?thesis using Cons.IH StandbyTick a a2 True by (cases r2) simp_all
    qed
  qed (use Cons.IH in simp_all)
qed simp

end

section \<open>Properties\<close>

text \<open>
  C30: The control plane lock excludes. When one instance has obtained the lock, then for as long as
  the key is untouched and its lifetime is not over, no instance obtains it a second time, a
  refused attempt changes nothing, an instance with another identity cannot renew it and its
  release leaves every key as it is.
\<close>

theorem control_plane_lock_excludes:
  assumes R: "redis_keys R now kv" and ttl: "0 < r_LockTTL (cp_config cp)" "0 < r_LockTTL (cp_config other)"
    and got: "acquireLock R cp c0 s0 = (Ok True, s1)"
    and kept: "kv s2 controlPlaneLockKey = kv s1 controlPlaneLockKey"
    and attempt: "acquireLock R other c2 s2 = (r, s3)" "now s3 < now s0 + set_ttl (r_LockTTL (cp_config cp))"
  shows "r \<noteq> Ok True \<and> (r = Ok False \<longrightarrow> kv s3 = kv s2) \<and>
         (cp_id other \<noteq> cp_id cp \<longrightarrow> fst (renewLock R other cx s2) \<noteq> None \<and> kv (releaseLock R other cx s2) = kv s2)"
proof -
  from redis_keys.acquire_new [OF R got ttl(1)] obtain t where t: "now s0 \<le> t"
    and k: "kv s2 controlPlaneLockKey = Some (cp_id cp, t + set_ttl (r_LockTTL (cp_config cp)))"
    unfolding kept by auto
  have "now s3 < t + set_ttl (r_LockTTL (cp_config cp))" using t attempt(2) by simp
  note a = redis_keys.acquire_held [OF R attempt(1) ttl(2) k this]
  have "fst (renewLock R other cx s2) \<noteq> None" if "cp_id other \<noteq> cp_id cp"
    using redis_keys.renew_foreign [OF R _ k, of other cx] that by (metis prod.collapse)
  then show ?thesis using a redis_keys.release_foreign [OF R k, of other cx] by auto
qed

definition demo_cp :: ControlPlane where
  "demo_cp = NewControlPlane (NewRegistry DefaultRegistry) DefaultRegistry ''host'' 7"

definition demo_cp2 :: ControlPlane where
  "demo_cp2 = NewControlPlane (NewRegistry DefaultRegistry) DefaultRegistry ''host'' 8"

theorem control_plane_lock_excludes_witness:
  "\<exists>s1 r s3. acquireLock memory demo_cp None (mem_init 0 []) = (Ok True, s1) \<and>
     acquireLock memory demo_cp2 None (mem_advance Second s1) = (r, s3) \<and> r \<noteq> Ok True \<and>
     fst (renewLock memory demo_cp2 (\<lambda>_. None) (mem_advance Second s1)) \<noteq> None"
proof -
  define s1 where "s1 = (mem_init 0 [])\<lparr>m_kv := (\<lambda>_. None)(controlPlaneLockKey := Some (cp_id demo_cp, set_ttl (r_LockTTL (cp_config demo_cp))))\<rparr>"
  have ttl: "0 < r_LockTTL (cp_config demo_cp)" "r_LockTTL (cp_config demo_cp2) = r_LockTTL (cp_config demo_cp)"
    "Second < set_ttl (r_LockTTL (cp_config demo_cp))"
    by (simp_all add: demo_cp_def demo_cp2_def NewControlPlane_def DefaultRegistry_def set_ttl_def)
  have got: "acquireLock memory demo_cp None (mem_init 0 []) = (Ok True, s1)"
    by (simp add: acquireLock_def memory_def mem_SetNX_def live_at_def mem_init_def s1_def)
  obtain r s3 where try_again: "acquireLock memory demo_cp2 None (mem_advance Second s1) = (r, s3)" by fastforce
  then have "m_now s3 < m_now (mem_init 0 []) + set_ttl (r_LockTTL (cp_config demo_cp))"
    using ttl(3) by (auto simp: acquireLock_def memory_def mem_SetNX_def mem_advance_def s1_def mem_init_def mem_cmd_def
        split: option.splits)
  moreover have "cp_id demo_cp2 \<noteq> cp_id demo_cp" by code_simp
  ultimately show ?thesis
    using control_plane_lock_excludes [OF mem_keys.redis_keys_axioms ttl(1) _ got _ try_again, of "\<lambda>_. None"] ttl got try_again
    by (simp add: mem_advance_def)
qed

text \<open>
  C31: A standby never becomes the leader. Once an instance waits for the lock, then whatever ticks
  it sees, whatever the other clients do and however much time passes between them, it never runs
  a reconciliation, as long as two consecutive \<open>SETNX\<close> round trips take less than the lock
  lives: when the lock is free, the standby obtains it, and \<open>Start\<close> then fails to obtain it from itself.
\<close>

theorem standby_never_leads:
  assumes "redis_keys R now kv" and "0 < r_LockTTL (cp_config cp)"
    and "\<And>c c' s. now (snd (acquireLock R cp c' (snd (acquireLock R cp c s)))) < now s + set_ttl (r_LockTTL (cp_config cp))"
  shows "snd (fst (waitForLock R cp nows es s)) = 0"
  using assms by (rule redis_keys.standby_count)

lemma acquire_memory_clock: "m_now (snd (acquireLock memory cp c s)) = m_now s"
  by (simp add: acquireLock_def memory_def mem_SetNX_def mem_cmd_def split: option.splits list.splits)

theorem standby_never_leads_witness:
  "\<exists>s1. acquireLock memory demo_cp None (mem_init 0 []) = (Ok True, s1) \<and>
     snd (fst (waitForLock memory demo_cp2 (\<lambda>_. 0)
       [Elapse (mem_advance (1 * Hour)), StandbyTick (\<lambda>_. None), Elapse (mem_advance (1 * Hour)), StandbyTick (\<lambda>_. None)] s1)) = 0"
proof -
  have ttl: "0 < r_LockTTL (cp_config demo_cp2)" "0 < set_ttl (r_LockTTL (cp_config demo_cp2))"
    by (simp_all add: demo_cp2_def NewControlPlane_def DefaultRegistry_def set_ttl_def)
  have "\<exists>s1. acquireLock memory demo_cp None (mem_init 0 []) = (Ok True, s1)"
    by (simp add: acquireLock_def memory_def mem_SetNX_def live_at_def mem_init_def)
  then show ?thesis using standby_never_leads [OF mem_keys.redis_keys_axioms ttl(1)] ttl(2)
    by (simp only: acquire_memory_clock) simp
qed

end
