(* ===== verification/Ingestion.thy ===== *)
theory Ingestion
  imports Throttler Health
begin

text \<open>
  \<open>internal/ingestion\<close>: the service behind the HTTP endpoint (\<open>service.go\<close>), the handlers (\<open>handler.go\<close>). A handler returns its calls on the response writer
  with the next state of Redis; \<open>Panic\<close> is a panic that unwinds into \<open>net/http\<close>.
\<close>

section \<open>The service\<close>

definition ErrCircuitOpen :: goerror where "ErrCircuitOpen = Sentinel ''queue saturated, system overloaded''"
definition ErrValidationFailed :: goerror where "ErrValidationFailed = Sentinel ''log event validation failed''"

text \<open>The error type of a rate limited request, and its text.\<close>

definition ErrRateLimited :: "duration \<Rightarrow> goerror" where
  "ErrRateLimited retryAfter = RateLimited retryAfter"

definition ErrRateLimited_Error :: "duration \<Rightarrow> string" where
  "ErrRateLimited_Error retryAfter = ''rate limited - retry after '' @ Duration_String retryAfter"

declare ErrRateLimited_def [simp]

lemma Error_ErrRateLimited: "Error (ErrRateLimited d) = ErrRateLimited_Error d"
  by (simp add: ErrRateLimited_Error_def)

record Service =
  sv_producer :: Producer
  sv_config :: IngestionConfig

definition NewService :: "Producer \<Rightarrow> Config \<Rightarrow> Service" where
  "NewService producer cfg = \<lparr>sv_producer = producer, sv_config = c_Ingestion cfg\<rparr>"

definition validateLogEvent :: "LogEvent option \<Rightarrow> goerror option" where
  "validateLogEvent logEvent =
     (case logEvent of
        None \<Rightarrow> Some (ErrorString ''log event is nil'')
      | Some e \<Rightarrow>
          if Level e = '''' then Some (ErrorString ''log level is required'')
          else if Message e = '''' then Some (ErrorString ''log message is required'')
          else None)"

text \<open>\<open>decision\<close> is the result of \<open>s.throttler.Decision()\<close>.\<close>

definition IngestLog ::
  "'s redis_client \<Rightarrow> Service \<Rightarrow> ThrottleDecision \<times> duration \<Rightarrow> string \<Rightarrow> int64 \<Rightarrow> ctx \<Rightarrow> LogEvent option \<Rightarrow> ('s, string) act" where
  "IngestLog R sv decision uuid now c logEvent s =
     (case decision of
        (ThrottleCircuitOpen, _) \<Rightarrow> (Err ErrCircuitOpen, s)
      | (ThrottleRateLimit, retryAfter) \<Rightarrow> (Err (ErrRateLimited retryAfter), s)
      | (ThrottleAllow, _) \<Rightarrow>
          (if validateLogEvent logEvent \<noteq> None then (Err ErrValidationFailed, s)
           else case Enqueue R (sv_producer sv) uuid now c logEvent s of
                  (Err e, s') \<Rightarrow> (Err (Wrap ''enqueue failed: '' e), s')
                | (r, s') \<Rightarrow> (r, s')))"

section \<open>Handlers\<close>

record Handler =
  hd_service :: Service

definition NewHandler :: "Service \<Rightarrow> Handler" where
  "NewHandler service = \<lparr>hd_service = service\<rparr>"

text \<open>\<open>Duration.Seconds()\<close>, as \<open>time\<close> computes it, and the whole seconds of the header.\<close>

definition Duration_Seconds :: "duration \<Rightarrow> float64" where
  "Duration_Seconds d =
     (let sec = quot_go d Second; nsec = d - sec * Second
      in fadd (f_of_int sec) (fdiv (f_of_int nsec) (Fin 1000000000)))"

definition retryAfterSec :: "(float64 \<Rightarrow> int64) \<Rightarrow> duration \<Rightarrow> int64" where
  "retryAfterSec impl d = int64_of_float impl (Duration_Seconds d)"

definition accepted_ops :: "string \<Rightarrow> http_op list" where
  "accepted_ops messageID =
     respondJSON [] StatusAccepted (json_of_IngestResponse \<lparr>ir_Accepted = True, ir_ID = messageID\<rparr>)"

definition error_ops :: "(float64 \<Rightarrow> int64) \<Rightarrow> goerror \<Rightarrow> http_op list" where
  "error_ops impl err =
     (case errors_As_RateLimited err of
        Some retryAfter \<Rightarrow>
          (let secs = itoa (retryAfterSec impl retryAfter)
           in HeaderSet ''Retry-After'' secs
              # respondError [(''Retry-After'', secs)] StatusTooManyRequests
                  (''rate limited - retry after '' @ secs @ '' seconds''))
      | None \<Rightarrow>
          if errors_Is err ErrCircuitOpen
          then respondError [] StatusServiceUnavailable ''system overloaded - try again later''
          else if errors_Is err ErrValidationFailed
          then respondError [] StatusBadRequest ''invalid log event''
          else respondError [] StatusInternalServerError ''failed to process log'')"

text \<open>The event of a request: the body, with the current time when it has none.\<close>

definition request_event :: "gotime \<Rightarrow> string \<Rightarrow> LogEvent go" where
  "request_event now body =
     bind_go (Decode LogEvent_fields zero_LogEvent body)
       (\<lambda>e. Ok (if IsZero (Timestamp e) then e\<lparr>Timestamp := now\<rparr> else e))"

definition HandleLogs ::
  "'s redis_client \<Rightarrow> Service \<Rightarrow> (float64 \<Rightarrow> int64) \<Rightarrow> ThrottleDecision \<times> duration \<Rightarrow> gotime \<Rightarrow> string \<Rightarrow> int64 \<Rightarrow> ctx \<Rightarrow>
   string \<Rightarrow> ('s, http_op list) act" where
  "HandleLogs R sv impl decision nowt uuid now c body s =
     (case request_event nowt body of
        Err _ \<Rightarrow> (Ok (respondError [] StatusBadRequest ''invalid request body''), s)
      | Panic \<Rightarrow> (Panic, s)
      | Ok logEvent \<Rightarrow>
          (case IngestLog R sv decision uuid now c (Some logEvent) s of
             (Ok messageID, s') \<Rightarrow> (Ok (accepted_ops messageID), s')
           | (Err err, s') \<Rightarrow> (Ok (error_ops impl err), s')
           | (Panic, s') \<Rightarrow> (Panic, s')))"

definition test_event :: "gotime \<Rightarrow> LogEvent" where
  "test_event nowt = \<lparr>Timestamp = nowt, Level = ''INFO'', Service = ''test-service'',
     Message = ''Hardcoded test log event from ingestion'',
     Metadata = [(''force_failure'', GoBool True)], TraceID = ''trace-test-456''\<rparr>"

definition HandleTestFailure ::
  "'s redis_client \<Rightarrow> Service \<Rightarrow> ThrottleDecision \<times> duration \<Rightarrow> gotime \<Rightarrow> string \<Rightarrow> int64 \<Rightarrow> ctx \<Rightarrow> ('s, http_op list) act" where
  "HandleTestFailure R sv decision nowt uuid now c s =
     (case IngestLog R sv decision uuid now c (Some (test_event nowt)) s of
        (Ok messageID, s') \<Rightarrow> (Ok (accepted_ops messageID), s')
      | (Err _, s') \<Rightarrow> (Ok (respondError [] StatusInternalServerError ''failed to ingest log''), s')
      | (Panic, s') \<Rightarrow> (Panic, s'))"

section \<open>Facts\<close>

lemma status_respondJSON [simp]:
  "header_get hs ''Content-Type'' = '''' \<Longrightarrow>
   cn_status (serve_conn (map (\<lambda>(k, v). HeaderSet k v) hs @ respondJSON hs st j)) = Some st"
  by (simp add: respondJSON_simple serve_simple)

lemma status_plain [simp]: "cn_status (serve_conn (respondJSON [] st j)) = Some st"
  using status_respondJSON [of "[]"] by simp

lemma status_respondError [simp]: "cn_status (serve_conn (respondError [] st m)) = Some st"
  by (simp add: respondError_def)

lemma error_ops_limited:
  "error_ops impl (RateLimited d) =
     simple_ops [(''Retry-After'', itoa (retryAfterSec impl d)), (''Content-Type'', ''application/json'')] 429
       (print_json (json_of_ErrorResponse \<lparr>er_Error = ''rate limited - retry after '' @ itoa (retryAfterSec impl d) @ '' seconds''\<rparr>)
        @ [CHR 0x0A])"
  by (simp add: error_ops_def respondError_def respondJSON_def header_get_def simple_ops_def encode_to_def http_status Let_def)

lemma Duration_Seconds_within:
  assumes "0 \<le> d" "d div Second \<le> 2 ^ 52"
  shows "d div Second \<le> retryAfterSec impl d \<and> retryAfterSec impl d \<le> d div Second + 1"
proof -
  let ?q = "d div Second" and ?n = "d - d div Second * Second"
  have q: "0 \<le> ?q" using assms(1) by simp
  have n: "0 \<le> ?n" "?n < Second" using minus_div_mult_eq_mod [of d Second] by simp_all
  have "f_of_int ?n = Fin (of_int ?n)" using n by (intro f_of_int_exact) simp
  moreover have "of_int 0 \<le> (of_int ?n / 1000000000 :: rat)" using n(1) by simp
  moreover have "(of_int ?n / 1000000000 :: rat) \<le> of_int 1"
  proof -
    have "(of_int ?n :: rat) \<le> of_int 1000000000" using n(2) by (simp only: of_int_le_iff) simp
    then show ?thesis by simp
  qed
  ultimately obtain x where x: "fdiv (f_of_int ?n) (Fin 1000000000) = Fin x" "0 \<le> x" "x \<le> 1"
    using round64_within [of 0 "of_int ?n / 1000000000" 1] by auto
  have fq: "f_of_int ?q = Fin (of_int ?q)" using q assms(2) by (intro f_of_int_exact) simp
  have "of_int ?q \<le> (of_int ?q + x :: rat)" "(of_int ?q + x :: rat) \<le> of_int (?q + 1)" using x by simp_all
  from round64_within [OF this] q assms(2) obtain y
    where y: "round64 (of_int ?q + x) = Fin y" "of_int ?q \<le> y" "y \<le> of_int (?q + 1)" by auto
  have "Duration_Seconds d = Fin y"
    using assms(1) fq x(1) y(1) by (simp add: Duration_Seconds_def Let_def)
  moreover have fl: "?q \<le> \<lfloor>y\<rfloor>" "\<lfloor>y\<rfloor> \<le> ?q + 1" using y(2,3) by (simp_all only: le_floor_iff floor_le_iff)
  moreover have "0 \<le> y" using y(2) q by (metis of_int_0_le_iff order_trans)
  moreover have "in64 (?q + 1)" using q assms(2) by (simp add: in64_def)
  then have "in64 \<lfloor>y\<rfloor>" by (rule in64_small [OF order_trans [OF q fl(1)] fl(2)])
  ultimately show ?thesis by (simp add: retryAfterSec_def int64_of_float_def trunc_rat_def)
qed

lemma rate_limited_not_wrapped [simp]:
  "errors_As_RateLimited ErrCircuitOpen = None" "errors_As_RateLimited ErrValidationFailed = None"
  "errors_Is ErrValidationFailed ErrCircuitOpen = False" "errors_Is ErrValidationFailed ErrValidationFailed"
  "errors_Is ErrCircuitOpen ErrCircuitOpen"
  by (simp_all add: ErrCircuitOpen_def ErrValidationFailed_def)

text \<open>Errors of \<open>Enqueue\<close> never carry the errors that the handler looks for, if the client's do not.\<close>

definition foreign :: "goerror \<Rightarrow> bool" where
  "foreign e \<longleftrightarrow> errors_As_RateLimited e = None \<and> \<not> errors_Is e ErrCircuitOpen \<and> \<not> errors_Is e ErrValidationFailed"

definition foreign_errors :: "'s redis_client \<Rightarrow> bool" where
  "foreign_errors R \<longleftrightarrow> (\<forall>c k m v s err s'. XAdd R c k m v s = (Inl err, s') \<longrightarrow> foreign err)"

lemma foreign_Wrap [simp]: "foreign (Wrap p e) \<longleftrightarrow> foreign e"
  by (auto simp: foreign_def ErrCircuitOpen_def ErrValidationFailed_def)

lemma streamNameFor_not_Err [simp]: "streamNameFor cfg k \<noteq> Err e"
  by (cases "q_PartitionCount cfg = 0") (simp_all add: streamNameFor_def partitionFor_def)

lemma validateLogEvent_None [simp]:
  "validateLogEvent (Some e) = None \<longleftrightarrow> Level e \<noteq> '''' \<and> Message e \<noteq> ''''"
  by (simp add: validateLogEvent_def)

lemma error_ops_status:
  "cn_status (serve_conn (error_ops impl (RateLimited d))) = Some 429"
  "cn_status (serve_conn (error_ops impl ErrCircuitOpen)) = Some 503"
  "cn_status (serve_conn (error_ops impl ErrValidationFailed)) = Some 400"
  "foreign e \<Longrightarrow> cn_status (serve_conn (error_ops impl e)) = Some 500"
  unfolding error_ops_limited by (simp_all add: serve_simple) (simp_all add: error_ops_def foreign_def http_status)

lemma IngestLog_refused:
  "fst decision = ThrottleCircuitOpen \<Longrightarrow> IngestLog R sv decision uuid now c ev s = (Err ErrCircuitOpen, s)"
  "fst decision = ThrottleRateLimit \<Longrightarrow> IngestLog R sv decision uuid now c ev s = (Err (RateLimited (snd decision)), s)"
  "fst decision = ThrottleAllow \<Longrightarrow> validateLogEvent ev \<noteq> None \<Longrightarrow>
     IngestLog R sv decision uuid now c ev s = (Err ErrValidationFailed, s)"
  by (cases decision; auto simp: IngestLog_def)+

lemma Enqueue_foreign:
  assumes "Enqueue R p uuid now c (Some e) s = (Err err, s')"
    and "foreign_errors R"
  shows "foreign err"
proof -
  have m: "foreign marshal_error" by (simp add: foreign_def marshal_error_def ErrCircuitOpen_def ErrValidationFailed_def)
  show ?thesis using assms(1) m
    by (auto simp: Enqueue_def buildXAddArgs_def Marshal_def
        split: go.splits option.splits prod.splits sum.splits dest!: assms(2) [unfolded foreign_errors_def, rule_format])
qed

text \<open>
  What the process supplies for a request: a time that RFC 3339 can express, an identifier in valid UTF-8, a reading of the
  clock and a configured number of retries that fit 64 bits. Nothing is asked of the body: every event that
  \<open>Decode\<close> returns is typed.
\<close>

definition supplied :: "Producer \<Rightarrow> gotime \<Rightarrow> string \<Rightarrow> int64 \<Rightarrow> bool" where
  "supplied p nowt uuid now \<longleftrightarrow> wf_time nowt \<and> valid_utf8 uuid \<and> in64 now \<and> in64 (q_RedisMaxRetries (pr_config p))"

lemma wf_time_typed: "wf_time t \<Longrightarrow> typed_time t"
  by (simp add: wf_time_def typed_time_def)

lemma request_typed:
  assumes "request_event nowt body = Ok e" "wf_time nowt" shows "typed_event (maxNestingDepth - 2) e"
proof -
  from assms(1) obtain e0 where e0: "Decode LogEvent_fields zero_LogEvent body = Ok e0"
    and e: "e = (if IsZero (Timestamp e0) then e0\<lparr>Timestamp := nowt\<rparr> else e0)" by (auto simp: request_event_def bind_go_Ok_iff)
  with event_typing [OF e0] wf_time_typed [OF assms(2)] show ?thesis by (auto simp: typed_event_def)
qed

lemma typed_producible:
  assumes "typed_event (maxNestingDepth - 2) e" "supplied p nowt uuid now" "zone_event e" "shallow e"
  shows "producible p uuid now e"
  using assms by (simp add: producible_def supplied_def wf_event_def shallow_def typed_event_def zone_event_def typed_time_def
      wf_time_def maxNestingDepth_def del: wf_value.simps)

text \<open>The entry that an accepted event leaves in its stream: its job, or a text that nothing decodes when the event nests too deep.\<close>

definition job_stored :: "Producer \<Rightarrow> string \<Rightarrow> int64 \<Rightarrow> LogEvent \<Rightarrow> string \<Rightarrow> stream_db \<Rightarrow> stream_db \<Rightarrow> bool" where
  "job_stored p uuid now e i d d' \<longleftrightarrow> (\<exists>v. added (stream_of p e) (q_MaxLen (pr_config p)) v i d d' \<and>
     (if shallow e then carries v (new_job p uuid now e) else \<not> (\<exists>env. decodes v env)))"

lemma Enqueue_bad_zone:
  assumes "\<not> zone_event e" "0 < q_PartitionCount (pr_config p)"
  shows "\<exists>err. Enqueue R p uuid now c (Some e) s = (Err err, s)"
proof -
  have "\<not> zone_envelope (new_job p uuid now e)"
    using assms(1) by (simp add: zone_envelope_def new_job_def buildJobEnvelope_def)
  then have "\<exists>x. marshal_JobEnvelope (new_job p uuid now e) = Err x"
    using marshal_needs_zone(2) by (cases "marshal_JobEnvelope (new_job p uuid now e)") auto
  then show ?thesis using assms(2) by (auto simp: Enqueue_def streamNameFor_Ok new_job_def buildXAddArgs_def)
qed

context redis_streams
begin

lemma Enqueue_request:
  assumes "invar s" "0 < q_PartitionCount (pr_config p)" "typed_event (maxNestingDepth - 2) e" "supplied p nowt uuid now" "zone_event e"
    and run: "Enqueue R p uuid now c (Some e) s = (r, s')"
  shows "case r of
       Ok i \<Rightarrow> job_stored p uuid now e i (db s) (db s')
     | Err err \<Rightarrow> db s' = db s \<or> (\<exists>i. job_stored p uuid now e i (db s) (db s'))
     | Panic \<Rightarrow> False"
proof -
  let ?j = "new_job p uuid now e"
  have utf: "valid_utf8 ''log_event''" by code_simp
  have "valid_utf8 (JobID ?j)" "valid_utf8 (EventType ?j)" "valid_utf8 (LastError ?j)" "in64 (EnqueuedAt ?j)"
    "in64 (RetryCount ?j)" "in64 (MaxRetries ?j)" "Data ?j = Some e"
    using assms(4) utf by (simp_all add: supplied_def new_job_def buildJobEnvelope_def in64_def)
  from envelope_shallow_iff [OF assms(3,5) this(7,1-6)] obtain t where t: "marshal_JobEnvelope ?j = Ok t"
    "unmarshal_JobEnvelope t = Ok ?j \<longleftrightarrow> shallow e" "\<not> shallow e \<Longrightarrow> \<exists>x. unmarshal_JobEnvelope t = Err x" by blast
  have "if shallow e then carries [(''job'', t)] ?j else \<not> (\<exists>env. decodes [(''job'', t)] env)"
    using t(2,3) by (auto simp: carries_def decodes_def)
  then have "job_stored p uuid now e i (db s) (db s')"
    if "added (stream_of p e) (q_MaxLen (pr_config p)) [(''job'', t)] i (db s) (db s')" for i
    unfolding job_stored_def using that by blast
  with Enqueue_stores [OF assms(1,2) t(1) run] show ?thesis by (cases r) auto
qed

end

lemma HandleLogs_result:
  assumes R: "redis_streams R db invar rank" and s: "invar s"
    and errs: "foreign_errors R"
    and cfg: "validateQueue (pr_config (sv_producer sv)) = None"
    and sup: "supplied (sv_producer sv) nowt uuid now"
    and run: "HandleLogs R sv impl decision nowt uuid now c body s = (r, s')"
  shows "\<exists>ops st. r = Ok ops \<and> cn_status (serve_conn ops) = Some st \<and>
    (case request_event nowt body of
       Ok e \<Rightarrow>
         (case fst decision of
            ThrottleCircuitOpen \<Rightarrow> st = 503 \<and> s' = s
          | ThrottleRateLimit \<Rightarrow> st = 429 \<and> s' = s
          | ThrottleAllow \<Rightarrow>
              if Level e = '''' \<or> Message e = '''' then st = 400 \<and> s' = s
              else if \<not> zone_event e then st = 500 \<and> s' = s
              else (\<exists>i. st = 202 \<and> ops = accepted_ops i \<and> job_stored (sv_producer sv) uuid now e i (db s) (db s')) \<or>
                   (st = 500 \<and> (db s' = db s \<or> (\<exists>i. job_stored (sv_producer sv) uuid now e i (db s) (db s')))))
     | _ \<Rightarrow> st = 400 \<and> s' = s)"
proof (cases "request_event nowt body")
  case (Ok e)
  show ?thesis
  proof (cases "fst decision = ThrottleAllow \<and> Level e \<noteq> '''' \<and> Message e \<noteq> ''''")
    case True
    obtain r1 s1 where en: "Enqueue R (sv_producer sv) uuid now c (Some e) s = (r1, s1)" by fastforce
    have n: "0 < q_PartitionCount (pr_config (sv_producer sv))" using cfg by (simp add: cfg_defs)
    have ty: "typed_event (maxNestingDepth - 2) e" using request_typed [OF Ok] sup by (simp add: supplied_def)
    have fail: "\<exists>err. r1 = Err err \<and> s1 = s" if "\<not> zone_event e"
      using Enqueue_bad_zone [OF that n, of R uuid now c s] en by auto
    note stored = redis_streams.Enqueue_request [OF R s n ty sup _ en]
    show ?thesis
    proof (cases r1)
      case okid: (Ok i)
      with True run Ok en have "r = go.Ok (accepted_ops i)" "s' = s1"
        by (auto simp: HandleLogs_def IngestLog_def split: prod.splits)
      moreover have "cn_status (serve_conn (accepted_ops i)) = Some 202" by (simp add: accepted_ops_def http_status)
      moreover have "zone_event e" using fail okid by auto
      ultimately show ?thesis using True Ok okid stored by auto
    next
      case (Err err)
      with True run Ok en have "r = go.Ok (error_ops impl (Wrap ''enqueue failed: '' err))" "s' = s1"
        by (auto simp: HandleLogs_def IngestLog_def split: prod.splits)
      moreover have "foreign (Wrap ''enqueue failed: '' err)" using Enqueue_foreign [OF en [unfolded Err] errs] by simp
      then have "cn_status (serve_conn (error_ops impl (Wrap ''enqueue failed: '' err))) = Some 500"
        by (rule error_ops_status)
      ultimately show ?thesis using True Ok Err stored fail by auto
    next
      case Panic
      with stored fail show ?thesis by (cases "zone_event e") auto
    qed
  next
    case False
    then show ?thesis using run Ok
      by (cases "fst decision") (auto simp: HandleLogs_def IngestLog_refused error_ops_status simp del: not_None_eq)
  qed
qed (use run in \<open>auto simp: HandleLogs_def http_status request_event_def Decode_def bind_go_Ok_iff split: option.splits\<close>)

section \<open>Properties\<close>

text \<open>
  C33: What the ingestion endpoint promises, for every body. Every request gets an answer. A body that is not a log event, or has
  no level or no message, gets 400; an overloaded queue 503; a rate limited client 429; and in all these
  cases nothing is written. A request that is let through gets 202 with the identifier of exactly one new entry
  in the stream of the event's partition; or 500, when Redis reported an error, and then either nothing or exactly this
  entry was written, or when the event's zone offset is a day or more, which cannot be encoded, and then nothing was. The
  entry decodes to a job with exactly the event if the metadata nests at most two levels less than the decoder's limit; a deeper
  one is accepted all the same, and no worker can decode it.
\<close>

theorem HandleLogs_outcome:
  assumes R: "redis_streams R db invar rank" and s: "invar s"
    and errs: "foreign_errors R"
    and cfg: "validateQueue (pr_config (sv_producer sv)) = None"
    and sup: "supplied (sv_producer sv) nowt uuid now"
    and run: "HandleLogs R sv impl decision nowt uuid now c body s = (r, s')"
  shows "\<exists>ops st. r = Ok ops \<and> cn_status (serve_conn ops) = Some st \<and>
    (case request_event nowt body of
       Ok e \<Rightarrow>
         (case fst decision of
            ThrottleCircuitOpen \<Rightarrow> st = 503 \<and> s' = s
          | ThrottleRateLimit \<Rightarrow> st = 429 \<and> s' = s
          | ThrottleAllow \<Rightarrow>
              if Level e = '''' \<or> Message e = '''' then st = 400 \<and> s' = s
              else if \<not> zone_event e then st = 500 \<and> s' = s
              else (\<exists>i. st = 202 \<and> ops = accepted_ops i \<and> job_stored (sv_producer sv) uuid now e i (db s) (db s')) \<or>
                   (st = 500 \<and> (db s' = db s \<or> (\<exists>i. job_stored (sv_producer sv) uuid now e i (db s) (db s')))))
     | _ \<Rightarrow> st = 400 \<and> s' = s)"
  by (rule HandleLogs_result [OF assms])

text \<open>The witness: an event without a timestamp is accepted by the in-memory server.\<close>

definition demo_service :: Service where
  "demo_service = NewService demo_producer GetDefaults"

definition demo_now :: gotime where
  "demo_now = \<lparr>tm_year = 2024, tm_month = 5, tm_day = 6, tm_hour = 7, tm_min = 8, tm_sec = 9, tm_nsec = 0, tm_offset = 0\<rparr>"

definition demo_body :: string where
  "demo_body = print_json (JObj [(''level'', JStr ''INFO''), (''message'', JStr ''hi'')])"

lemma mem_XAdd_foreign: "foreign_errors memory"
  by (auto simp: foreign_errors_def memory_def mem_XAdd_def mem_cmd_def foreign_def ErrCircuitOpen_def ErrValidationFailed_def
      split: option.splits list.splits if_splits prod.splits)

lemma demo_request:
  "request_event demo_now demo_body = Ok \<lparr>Timestamp = demo_now, Level = ''INFO'', Service = '''', Message = ''hi'', Metadata = [], TraceID = ''''\<rparr>"
  by code_simp

theorem HandleLogs_outcome_witness:
  "\<exists>ops st s'. HandleLogs memory demo_service (\<lambda>_. 0) (ThrottleAllow, 0) demo_now ''3f2a'' 1700000000 None demo_body (mem_init 0 [])
       = (Ok ops, s') \<and> cn_status (serve_conn ops) = Some st \<and> st \<in> {202, 500}"
proof -
  obtain r s' where run: "HandleLogs memory demo_service (\<lambda>_. 0) (ThrottleAllow, 0) demo_now ''3f2a'' 1700000000 None demo_body (mem_init 0 [])
       = (r, s')" by fastforce
  have sv: "sv_producer demo_service = demo_producer" by (simp add: demo_service_def NewService_def)
  have sup: "supplied (sv_producer demo_service) demo_now ''3f2a'' 1700000000" unfolding sv
    by (simp add: supplied_def demo_producer_def NewProducer_def DefaultQueue_def in64_def wf_time_def demo_now_def daysIn_def)
  have q: "validateQueue (pr_config (sv_producer demo_service)) = None" unfolding sv by (rule validate_demo_producer)
  from HandleLogs_outcome [OF mem_streams.redis_streams_axioms mem_inv_init mem_XAdd_foreign q sup run] run
  show ?thesis unfolding demo_request by (auto simp: zone_event_def demo_now_def)
qed

context throttler_interface
begin

lemma limited_response:
  assumes d: "decide m now = (ThrottleRateLimit, ra)" and "request_event nowt body = Ok e"
    and "0 \<le> lo" "hi div Second \<le> 2 ^ 52"
    and run: "HandleLogs R sv impl (decide m now) nowt uuid t c body s = (r, s')"
  shows "\<exists>ops n. r = Ok ops \<and> s' = s \<and> cn_status (serve_conn ops) = Some 429 \<and>
           header_get (cn_sent (serve_conn ops)) ''Retry-After'' = itoa n \<and>
           lo div Second \<le> n \<and> n \<le> hi div Second + 1"
proof -
  from delay_bounded [OF d] have ra: "lo \<le> ra" "ra \<le> hi" by simp_all
  then have dv: "lo div Second \<le> ra div Second" "ra div Second \<le> hi div Second" by (simp_all add: zdiv_mono1)
  have "r = Ok (error_ops impl (RateLimited ra))" "s' = s"
    using run assms(2) d by (auto simp: HandleLogs_def IngestLog_def)
  moreover have "ra div Second \<le> retryAfterSec impl ra \<and> retryAfterSec impl ra \<le> ra div Second + 1"
    using assms(3,4) ra dv by (intro Duration_Seconds_within) linarith+
  moreover have "header_get (cn_sent (serve_conn (error_ops impl (RateLimited ra)))) ''Retry-After'' = itoa (retryAfterSec impl ra)"
    unfolding error_ops_limited serve_simple by simp
  ultimately show ?thesis using dv error_ops_status(1) by (intro exI [of _ "error_ops impl (RateLimited ra)"] exI [of _ "retryAfterSec impl ra"]) auto
qed

end

text \<open>
  The answer to a rate limited client. When the adaptive throttler with a validated configuration decides to
  limit, the client gets 429 with a \<open>Retry-After\<close> header in whole seconds that is at least the whole seconds
  of \<open>MinRetryAfter\<close> and at most one more than those of \<open>MaxRetryAfter\<close>, and nothing is written.
  (A minimum below one second lets the header be zero.)
\<close>

theorem rate_limited_response:
  assumes cfg: "validateThrottler cfg = None" "0 \<le> t_MinRetryAfter cfg" "t_MaxRetryAfter cfg div Second \<le> 2 ^ 52"
    and d: "Decision impl cfg m now = (ThrottleRateLimit, ra)" and e: "request_event nowt body = Ok e"
    and run: "HandleLogs R sv impl (Decision impl cfg m now) nowt uuid t c body s = (r, s')"
  shows "\<exists>ops n. r = Ok ops \<and> s' = s \<and> cn_status (serve_conn ops) = Some 429 \<and>
           header_get (cn_sent (serve_conn ops)) ''Retry-After'' = itoa n \<and>
           t_MinRetryAfter cfg div Second \<le> n \<and> n \<le> t_MaxRetryAfter cfg div Second + 1"
  by (rule throttler_interface.limited_response [OF adaptive_throttler [OF cfg(1)] d e cfg(2,3) run])

text \<open>The witness: a queue at twice its soft limit, with the circuit opening at three times.\<close>

definition demo_limits :: ThrottlerConfig where
  "demo_limits = DefaultThrottler\<lparr>t_CircuitOpenScore := Fin 3\<rparr>"

lemma demo_limited: "\<exists>ra. Decision (\<lambda>_. 0) demo_limits (demo_metrics 200) (1700000000 * Second) = (ThrottleRateLimit, ra)"
proof -
  have c: "t_Enabled demo_limits" "t_SoftDepthLimit demo_limits = 100" "t_MaxMessageAge demo_limits = 30 * Second"
    "t_RateLimitScore demo_limits = Fin 1" "t_CircuitOpenScore demo_limits = Fin 3"
    by (simp_all add: demo_limits_def DefaultThrottler_def)
  have f: "is_fresh demo_limits (demo_metrics 200) (1700000000 * Second)"
    by (simp add: is_fresh_def demo_metrics_def demo_limits_def DefaultThrottler_def saturate64_def wrap64_def)
  have "fdiv (f_of_int 200) (f_of_int 100) = Fin 2" using round64_exact [of 2] by (simp add: f_of_int_exact)
  moreover have "fdiv (f_of_int 0) (f_of_int (30 * Second)) = Fin 0" by (simp add: f_of_int_exact round64_def)
  ultimately have "overloadScore demo_limits 200 0 = Fin 2"
    unfolding overloadScore_def c by (simp add: max_go_def)
  then have "fst (Decision (\<lambda>_. 0) demo_limits (demo_metrics 200) (1700000000 * Second)) = ThrottleRateLimit"
    unfolding Decision_fresh [OF c(1) f] by (simp add: demo_metrics_def wrap64_def c)
  then show ?thesis by (metis prod.collapse)
qed

theorem rate_limited_response_witness:
  "\<exists>ops n s'. HandleLogs memory demo_service (\<lambda>_. 0)
       (Decision (\<lambda>_. 0) demo_limits (demo_metrics 200) (1700000000 * Second)) demo_now ''3f2a'' 1700000000 None demo_body (mem_init 0 [])
       = (Ok ops, s') \<and> header_get (cn_sent (serve_conn ops)) ''Retry-After'' = itoa n \<and> 1 \<le> n \<and> n \<le> 31"
proof -
  let ?d = "Decision (\<lambda>_. 0) demo_limits (demo_metrics 200) (1700000000 * Second)"
  obtain r s' where run: "HandleLogs memory demo_service (\<lambda>_. 0) ?d demo_now ''3f2a'' 1700000000 None demo_body (mem_init 0 []) = (r, s')"
    by fastforce
  have c: "t_MinRetryAfter demo_limits = 1 * Second" "t_MaxRetryAfter demo_limits = 30 * Second" "validateThrottler demo_limits = None"
    by (simp_all add: demo_limits_def DefaultThrottler_def cfg_defs)
  obtain ra where d: "?d = (ThrottleRateLimit, ra)" using demo_limited by blast
  have "\<exists>ops n. r = Ok ops \<and> s' = mem_init 0 [] \<and> cn_status (serve_conn ops) = Some 429 \<and>
      header_get (cn_sent (serve_conn ops)) ''Retry-After'' = itoa n \<and>
      t_MinRetryAfter demo_limits div Second \<le> n \<and> n \<le> t_MaxRetryAfter demo_limits div Second + 1"
    by (rule rate_limited_response [OF c(3) _ _ d demo_request run]) (simp_all add: c(1,2))
  then show ?thesis using run unfolding c(1,2) by auto
qed

end
