(* ===== verification/Ingestion_Server.thy ===== *)
theory Ingestion_Server
  imports Ingestion
begin

text \<open>
  \<open>internal/ingestion/router.go\<close> and \<open>server.go\<close>: the routes with their handlers behind the logging middleware, the HTTP
  server of the ingestion service and its life from \<open>Start\<close> to the shutdown.
\<close>

section \<open>The router\<close>

text \<open>
  What the handlers read from their surroundings while they serve one request: the throttler's decision, \<open>time.Now()\<close> as a
  time and in seconds, a fresh UUID, the order in which health checks run, and the platform's
  conversion of floats out of range.
\<close>

record ambience =
  am_decision :: "ThrottleDecision \<times> duration"
  am_time :: gotime
  am_unix :: int64
  am_uuid :: string
  am_order :: "nat list"
  am_convert :: "float64 \<Rightarrow> int64"

definition routes ::
  "'s redis_client \<Rightarrow> Handler \<Rightarrow> 's HTTPHandler \<Rightarrow> ambience \<Rightarrow> ((string \<times> string) \<times> 's handler) list" where
  "routes R handler healthHandler am =
     RegisterRoutes healthHandler (am_order am) @
     [((''POST'', ''/api/v1/logs''),
       \<lambda>rq. HandleLogs R (hd_service handler) (am_convert am) (am_decision am) (am_time am) (am_uuid am) (am_unix am)
              (rq_Context rq) (rq_Body rq)),
      ((''POST'', ''/api/v1/test/failure''),
       \<lambda>rq. HandleTestFailure R (hd_service handler) (am_decision am) (am_time am) (am_uuid am) (am_unix am) (rq_Context rq))]"

definition NewRouter :: "'s redis_client \<Rightarrow> Handler \<Rightarrow> 's HTTPHandler \<Rightarrow> ambience \<Rightarrow> 's served" where
  "NewRouter R handler healthHandler am = serve_logged (mux_ServeHTTP (routes R handler healthHandler am))"

section \<open>The server\<close>

definition buildHTTPServer :: "Config \<Rightarrow> 'h \<Rightarrow> 'h http_server" where
  "buildHTTPServer cfg handler =
     \<lparr>hs_Addr = ServerAddr cfg, hs_Handler = handler, hs_ReadTimeout = s_ReadTimeout (c_Server cfg),
      hs_WriteTimeout = s_WriteTimeout (c_Server cfg), hs_IdleTimeout = s_IdleTimeout (c_Server cfg)\<rparr>"

record 's Server =
  sr_httpServer :: "(ambience \<Rightarrow> 's served) http_server"
  sr_config :: Config
  sr_healthAgg :: "'s Aggregator"

definition NewServer :: "'s redis_client \<Rightarrow> Config \<Rightarrow> 's Aggregator \<Rightarrow> Service \<Rightarrow> 's Server" where
  "NewServer R cfg healthAgg service =
     (let handler = NewHandler service;
          healthHandler = NewHTTPHandler healthAgg;
          router = NewRouter R handler healthHandler
      in \<lparr>sr_httpServer = buildHTTPServer cfg router, sr_config = cfg, sr_healthAgg = healthAgg\<rparr>)"

definition Server_Addr :: "'s Server \<Rightarrow> string" where
  "Server_Addr srv = hs_Addr (sr_httpServer srv)"

text \<open>
  What \<open>Start\<close> waits for: the end of its context, or the result of \<open>ListenAndServe\<close>, which the goroutine
  passes on unless it is \<open>ErrServerClosed\<close>.
\<close>

datatype server_event = ShutdownSignal | ServeReturned "goerror option"

text \<open>
  \<open>Shutdown\<close> passes its context on to \<open>http.Server.Shutdown\<close>; \<open>stop\<close> is the result of that call for the time
  it is given. When it fails, \<open>Close\<close> is called, whose error is only logged.
\<close>

definition Server_Shutdown :: "(duration \<Rightarrow> goerror option) \<Rightarrow> duration \<Rightarrow> goerror option" where
  "Server_Shutdown stop timeout = stop timeout"

definition Server_Start :: "'s Server \<Rightarrow> server_event \<Rightarrow> (duration \<Rightarrow> goerror option) \<Rightarrow> goerror option" where
  "Server_Start srv ev stop =
     (case ev of
        ServeReturned (Some e) \<Rightarrow> (if errors_Is e ErrServerClosed then None else Some e)
      | ServeReturned None \<Rightarrow> None
      | ShutdownSignal \<Rightarrow>
          (case Server_Shutdown stop (s_ShutdownTimeout (c_Server (sr_config srv))) of
             Some e \<Rightarrow> Some (Wrap ''shutdown failed: '' e)
           | None \<Rightarrow> None))"

text \<open>The message that \<open>errorLogWriter\<close> logs, and the number of bytes it reports.\<close>

definition errorLogWriter_Write :: "string \<Rightarrow> string \<times> int64" where
  "errorLogWriter_Write p =
     (if p \<noteq> '''' \<and> last p = CHR 0x0A then butlast p else p, int (length p))"

section \<open>Facts\<close>

text \<open>Every answer consists of headers, one status and one body.\<close>

definition plain_response :: "http_op list \<Rightarrow> bool" where
  "plain_response ops \<longleftrightarrow> (\<exists>hs st body. ops = simple_ops hs st body)"

lemma plain_respondJSON: "plain_response (respondJSON [] st j)"
  using respondJSON_simple [of "[]" st j] by (auto simp: plain_response_def)

lemma plain_respondError: "plain_response (respondError [] st m)"
  by (simp add: respondError_def plain_respondJSON)

lemma plain_health: "plain_response (health_respondJSON st j)"
  unfolding plain_response_def
  by (rule exI [of _ "[(''Content-Type'', ''application/json'')]"]) (auto simp: health_respondJSON_def simple_ops_def encode_to_def)

lemma plain_http_Error: "plain_response (http_Error b st)"
  unfolding plain_response_def
  by (rule exI [of _ "[(''Content-Type'', ''text/plain; charset=utf-8''), (''X-Content-Type-Options'', ''nosniff'')]"])
    (auto simp: http_Error_def simple_ops_def)

lemma plain_error_ops: "plain_response (error_ops impl e)"
proof (cases "errors_As_RateLimited e")
  case (Some d)
  then have "error_ops impl e = error_ops impl (RateLimited d)" by (simp add: error_ops_def)
  then show ?thesis by (auto simp: error_ops_limited plain_response_def)
qed (simp add: error_ops_def plain_respondError)

lemma plain_HandleLogs: "HandleLogs R sv impl decision nowt uuid now c body s = (Ok ops, s') \<Longrightarrow> plain_response ops"
  by (auto simp: HandleLogs_def accepted_ops_def plain_respondJSON plain_respondError plain_error_ops
      split: go.splits prod.splits)

lemma plain_HandleTestFailure: "HandleTestFailure R sv decision nowt uuid now c s = (Ok ops, s') \<Longrightarrow> plain_response ops"
  by (auto simp: HandleTestFailure_def accepted_ops_def plain_respondJSON plain_respondError split: go.splits prod.splits)

lemma plain_HandleReady: "HandleReady h order s = (ops, s') \<Longrightarrow> plain_response ops"
  by (auto simp: HandleReady_def plain_health split: prod.splits)

lemmas plain = plain_HandleLogs plain_HandleTestFailure plain_HandleReady plain_http_Error plain_health

text \<open>The middleware around such an answer: what is logged is what is sent.\<close>

lemma serve_logged_plain:
  assumes "h rq s = (Ok ops, s')" "plain_response ops"
  shows "\<exists>st. serve_logged h rq s = (Some (serve_conn ops,
            [(rq_Method rq, rq_Path rq, st, wrap64 (int (length (cn_body (serve_conn ops)))))]), s') \<and>
          cn_status (serve_conn ops) = Some st"
  using assms by (auto simp: serve_logged_def plain_response_def loggingMiddleware_simple serve_simple)

text \<open>The routes: the paths and methods of the interface.\<close>

definition paths :: "string list" where
  "paths = [''/health/live'', ''/health/ready'', ''/api/v1/logs'', ''/api/v1/test/failure'']"

lemma routes_dispatch:
  "mux_dispatch (routes R h hh am) m ''/api/v1/logs'' =
     (if m = ''POST'' then Matched (\<lambda>rq. HandleLogs R (hd_service h) (am_convert am) (am_decision am) (am_time am) (am_uuid am)
        (am_unix am) (rq_Context rq) (rq_Body rq)) else MethodNotAllowed)"
  "mux_dispatch (routes R h hh am) m ''/api/v1/test/failure'' =
     (if m = ''POST'' then Matched (\<lambda>rq. HandleTestFailure R (hd_service h) (am_decision am) (am_time am) (am_uuid am)
        (am_unix am) (rq_Context rq)) else MethodNotAllowed)"
  "mux_dispatch (routes R h hh am) m ''/health/live'' =
     (if m = ''GET'' \<or> m = ''HEAD'' then Matched (\<lambda>rq s. (Ok HandleLive, s)) else MethodNotAllowed)"
  "mux_dispatch (routes R h hh am) m ''/health/ready'' =
     (if m = ''GET'' \<or> m = ''HEAD''
      then Matched (\<lambda>rq s. (case HandleReady hh (am_order am) s of (ops, s') \<Rightarrow> (Ok ops, s'))) else MethodNotAllowed)"
  "p \<notin> set paths \<Longrightarrow> mux_dispatch (routes R h hh am) m p = NotFound"
  by (auto simp: mux_dispatch_def routes_def RegisterRoutes_def method_fits_def paths_def)

definition allowed_methods :: "string \<Rightarrow> string list" where
  "allowed_methods path = (if path \<in> {''/health/live'', ''/health/ready''} then [''GET'', ''HEAD''] else [''POST''])"

lemma utf8_test_event:
  "valid_utf8 ''INFO''" "valid_utf8 ''test-service''" "valid_utf8 ''Hardcoded test log event from ingestion''"
  "valid_utf8 ''trace-test-456''" "valid_utf8 ''force_failure''"
  by code_simp+

lemma HandleTestFailure_result:
  assumes R: "redis_streams R db invar rank" and s: "invar s"
    and cfg: "validateQueue (pr_config (sv_producer sv)) = None"
    and sup: "supplied (sv_producer sv) nowt uuid now"
    and run: "HandleTestFailure R sv decision nowt uuid now c s = (r, s')"
  shows "\<exists>ops st. r = Ok ops \<and> cn_status (serve_conn ops) = Some st \<and> st \<in> {202, 500}"
proof -
  obtain r1 s1 where en: "Enqueue R (sv_producer sv) uuid now c (Some (test_event nowt)) s = (r1, s1)" by fastforce
  have "0 < q_PartitionCount (pr_config (sv_producer sv))" using cfg by (simp add: cfg_defs)
  moreover have "producible (sv_producer sv) uuid now (test_event nowt)"
    using sup utf8_test_event by (simp add: producible_def supplied_def wf_event_def test_event_def maxNestingDepth_def)
  ultimately have "r1 \<noteq> Panic" using redis_streams.Enqueue_outcome [OF R s _ _ en] by auto
  with run en show ?thesis
    by (cases decision; cases "fst decision"; cases r1)
      (auto simp: HandleTestFailure_def IngestLog_def accepted_ops_def http_status split: if_splits)
qed

text \<open>The five statuses of the ingestion endpoint.\<close>

lemma HandleLogs_statuses:
  assumes R: "redis_streams R db invar rank" and s: "invar s" and errs: "foreign_errors R"
    and cfg: "validateQueue (pr_config (sv_producer sv)) = None"
    and sup: "supplied (sv_producer sv) nowt uuid now"
    and run: "HandleLogs R sv impl decision nowt uuid now c body s = (r, s')"
  shows "\<exists>ops st. r = Ok ops \<and> cn_status (serve_conn ops) = Some st \<and> st \<in> {202, 400, 429, 500, 503} \<and>
           (st \<in> {400, 429, 503} \<longrightarrow> s' = s)"
  using HandleLogs_result [OF assms]
  by (elim exE conjE) (auto split: go.splits ThrottleDecision.splits if_splits)

section \<open>Properties\<close>


definition demo_ambience :: ambience where
  "demo_ambience = \<lparr>am_decision = (ThrottleAllow, 0), am_time = demo_now, am_unix = 1700000000, am_uuid = ''3f2a'',
     am_order = [], am_convert = (\<lambda>_. 0)\<rparr>"

definition demo_post :: request where
  "demo_post = \<lparr>rq_Method = ''POST'', rq_Path = ''/api/v1/logs'', rq_Body = demo_body, rq_Context = None\<rparr>"


end
