(* ===== verification/Go_Duration.thy ===== *)
theory Go_Duration
  imports Go_Number
begin

text \<open>
  \<open>time.ParseDuration\<close>, which reads the durations of the configuration, with its \<open>uint64\<close> arithmetic, its
  overflow checks and the floating point scaling of fractions. The main lemma is that it reads back
  what \<open>Duration.String\<close> prints.
\<close>

section \<open>Parsing\<close>

text \<open>\<open>leadingInt\<close>: the digits at the head of the text; \<open>None\<close> is \<open>errLeadingInt\<close>.\<close>

fun leadingInt :: "int \<Rightarrow> string \<Rightarrow> (int \<times> string) option" where
  "leadingInt x [] = Some (x, [])"
| "leadingInt x (c # cs) =
     (if \<not> is_digit c then Some (x, c # cs)
      else if x > 2 ^ 63 div 10 then None
      else let y = x * 10 + int (digit_val c)
           in if y > 2 ^ 63 then None else leadingInt y cs)"

text \<open>\<open>leadingFraction\<close>: the digits after the point; the first digit that does not fit stops the scaling.\<close>

fun leadingFraction :: "bool \<Rightarrow> int \<Rightarrow> float64 \<Rightarrow> string \<Rightarrow> int \<times> float64 \<times> string" where
  "leadingFraction overflow x scale [] = (x, scale, [])"
| "leadingFraction overflow x scale (c # cs) =
     (if \<not> is_digit c then (x, scale, c # cs)
      else if overflow then leadingFraction True x scale cs
      else if x > (2 ^ 63 - 1) div 10 then leadingFraction True x scale cs
      else let y = x * 10 + int (digit_val c)
           in if y > 2 ^ 63 then leadingFraction True x scale cs
              else leadingFraction False y (fmul scale (Fin 10)) cs)"

definition micro_sign :: string where "micro_sign = [CHR 0xC2, CHR 0xB5]"
definition greek_mu :: string where "greek_mu = [CHR 0xCE, CHR 0xBC]"

definition unitMap :: "(string \<times> int) list" where
  "unitMap = [(''ns'', 1), (''us'', 1000), (micro_sign @ ''s'', 1000), (greek_mu @ ''s'', 1000),
     (''ms'', 1000000), (''s'', 1000000000), (''m'', 60000000000), (''h'', 3600000000000)]"

definition unit_char :: "char \<Rightarrow> bool" where
  "unit_char c \<longleftrightarrow> \<not> (c = CHR ''.'' \<or> is_digit c)"

text \<open>
  One round of the loop: a number with its unit is added to \<open>d\<close>. The product of fraction and unit is
  finite and below \<open>3.6e12\<close>, so the other branch of the conversion is never taken.
\<close>

definition duration_part :: "int \<Rightarrow> string \<Rightarrow> (int \<times> string) option" where
  "duration_part d s =
     (if s = [] \<or> unit_char (hd s) then None
      else case leadingInt 0 s of
             None \<Rightarrow> None
           | Some (v, s1) \<Rightarrow>
               let pre = (length s \<noteq> length s1);
                   dot = (s1 \<noteq> [] \<and> hd s1 = CHR ''.'');
                   (f, scale, s2) = (if dot then leadingFraction False 0 (Fin 1) (tl s1) else (0, Fin 1, s1));
                   post = (dot \<and> length (tl s1) \<noteq> length s2);
                   u = takeWhile unit_char s2; s3 = dropWhile unit_char s2
               in if \<not> pre \<and> \<not> post then None
                  else if u = [] then None
                  else case map_of unitMap u of
                         None \<Rightarrow> None
                       | Some unit \<Rightarrow>
                           if v > 2 ^ 63 div unit then None
                           else let v' = v * unit +
                                      (if f > 0 then
                                         (case fmul (f_of_int f) (fdiv (f_of_int unit) scale) of
                                            Fin r \<Rightarrow> trunc_rat r | _ \<Rightarrow> 0)
                                       else 0)
                                in if v' > 2 ^ 63 then None
                                   else let d' = (d + v') mod 2 ^ 64
                                        in if d' > 2 ^ 63 then None else Some (d', s3))"

lemma duration_part_shorter:
  assumes "duration_part d s = Some (d', s')" shows "length s' < length s"
proof -
  have I: "length s1 \<le> length s0" if "leadingInt x s0 = Some (v, s1)" for x s0 v s1
    using that by (induction x s0 rule: leadingInt.induct) (auto simp: Let_def split: if_splits)
  have F: "length (snd (snd (leadingFraction ov x sc s0))) \<le> length s0" for ov x sc s0
  proof (induction s0 arbitrary: ov x sc)
    case (Cons c cs)
    then show ?case by (auto simp: Let_def intro: le_SucI)
  qed simp
  have U: "length (dropWhile unit_char t) < length t" if "takeWhile unit_char t \<noteq> []" for t
    using that by (cases t) (auto simp: le_imp_less_Suc length_dropWhile_le split: if_splits)
  obtain v s1 where v: "leadingInt 0 s = Some (v, s1)"
    using assms by (auto simp: duration_part_def split: if_splits option.splits prod.splits)
  define p where "p = (if s1 \<noteq> [] \<and> hd s1 = CHR ''.'' then leadingFraction False 0 (Fin 1) (tl s1) else (0, Fin 1, s1))"
  obtain f sc s2 where p2: "p = (f, sc, s2)" by (cases p)
  have "length s2 \<le> length s1" using F [of False 0 "Fin 1" "tl s1"] p2 unfolding p_def
    by (auto split: if_splits)
  moreover have "takeWhile unit_char s2 \<noteq> []" "s' = dropWhile unit_char s2"
    using assms v p2 unfolding p_def duration_part_def
    by (auto simp: Let_def split: if_splits option.splits)
  ultimately show ?thesis using I [OF v] U [of s2] by simp
qed

function duration_loop :: "int \<Rightarrow> string \<Rightarrow> int option" where
  "duration_loop d s =
     (if s = [] then Some d
      else case duration_part d s of None \<Rightarrow> None | Some (d', s') \<Rightarrow> duration_loop d' s')"
  by pat_completeness auto
termination by (relation "measure (length \<circ> snd)") (auto dest: duration_part_shorter)

declare duration_loop.simps [simp del]

definition ParseDuration :: "string \<Rightarrow> duration option" where
  "ParseDuration s0 =
     (let (neg, s) = (case s0 of [] \<Rightarrow> (False, [])
                      | c # cs \<Rightarrow> if c = CHR ''-'' then (True, cs)
                                  else if c = CHR ''+'' then (False, cs) else (False, s0))
      in if s = ''0'' then Some 0
         else if s = [] then None
         else case duration_loop 0 s of
                None \<Rightarrow> None
              | Some d \<Rightarrow> if neg then Some (wrap64 (- d))
                          else if d > 2 ^ 63 - 1 then None else Some d)"

section \<open>Reading back what is printed\<close>

lemma atou_acc_ge: "atou_acc x ds = Some n \<Longrightarrow> x * 10 ^ length ds \<le> n"
proof (induction x ds rule: atou_acc.induct)
  case (2 acc c cs)
  then have "(acc * 10 + digit_val c) * 10 ^ length cs \<le> n" by (simp split: if_splits)
  then show ?case by (simp add: algebra_simps)
qed simp

lemma atou_acc_ge1: "atou_acc x ds = Some n \<Longrightarrow> x \<le> n"
  using atou_acc_ge [of x ds n] by (metis le_trans mult_le_mono2 nat_mult_1_right one_le_numeral one_le_power)

lemma leadingInt_digits:
  assumes "atou_acc x ds = Some n" "int n \<le> 2 ^ 63" "rest = [] \<or> \<not> is_digit (hd rest)"
  shows "leadingInt (int x) (ds @ rest) = Some (int n, rest)"
  using assms
proof (induction x ds rule: atou_acc.induct)
  case (1 acc)
  then show ?case by (cases rest) auto
next
  case (2 acc c cs)
  then have d: "is_digit c" and a: "atou_acc (acc * 10 + digit_val c) cs = Some n"
    by (simp_all split: if_splits)
  have "int (acc * 10 + digit_val c) \<le> 2 ^ 63"
    using atou_acc_ge1 [OF a] 2(3) by linarith
  with 2(1) [OF d a] 2(3,4) d show ?case by (simp add: Let_def)
qed

text \<open>A fraction of at most nine digits is read exactly.\<close>

lemma fmul_10: "k < 15 \<Longrightarrow> round64 (10 ^ k * 10) = Fin (10 * 10 ^ k)"
proof -
  assume "k < 15"
  then have "(10::int) ^ Suc k \<le> 10 ^ 15" by (intro power_increasing) auto
  then have "round64 (of_int (10 ^ Suc k)) = Fin (of_int (10 ^ Suc k))" by (intro round64_exact) simp
  then show ?thesis by (simp add: mult.commute)
qed

lemma leadingFraction_digits:
  assumes "atou_acc x ds = Some n" "n < 10 ^ 15" "k + length ds \<le> 15" "rest = [] \<or> \<not> is_digit (hd rest)"
  shows "leadingFraction False (int x) (Fin (10 ^ k)) (ds @ rest) = (int n, Fin (10 ^ (k + length ds)), rest)"
  using assms
proof (induction x ds arbitrary: k rule: atou_acc.induct)
  case (1 acc)
  then show ?case by (cases rest) auto
next
  case (2 acc c cs)
  then have d: "is_digit c" and a: "atou_acc (acc * 10 + digit_val c) cs = Some n"
    by (simp_all split: if_splits)
  have "acc * 10 + digit_val c < 10 ^ 15"
    using atou_acc_ge1 [OF a] 2(3) by linarith
  with 2(1) [OF d a 2(3), of "Suc k"] 2(4,5) d show ?case by (simp add: Let_def fmul_10)
qed

text \<open>The digits of a fraction: without its trailing zeros the number is divided by a power of ten.\<close>

lemma atou_replicate_0: "atou_acc x (replicate k (CHR ''0'')) = Some (x * 10 ^ k)"
  by (induction k arbitrary: x) (simp_all add: is_digit_def digit_val_def)

lemma utoa_length: "n < 10 ^ k \<Longrightarrow> 0 < k \<Longrightarrow> length (utoa n) \<le> k"
proof (induction n arbitrary: k rule: utoa.induct)
  case (1 n)
  show ?case
  proof (cases "n < 10")
    case True
    with 1 show ?thesis by simp
  next
    case False
    with 1(2) obtain k' where k: "k = Suc k'" "0 < k'" by (cases k; cases "k - 1") auto
    with 1(2) have "n div 10 < 10 ^ k'" by (simp add: less_mult_imp_div_less mult.commute)
    with 1(1) [OF False this k(2)] False k show ?thesis by (simp add: utoa_big)
  qed
qed

lemma pad_left_value:
  assumes "n < 10 ^ k" "0 < k"
  shows "atou_acc 0 (pad_left k (utoa n)) = Some n \<and> length (pad_left k (utoa n)) = k"
  using utoa_length [OF assms] by (simp add: atou_acc_append atou_replicate_0)

lemma strip_zeros_split:
  "\<exists>z. rev (dropWhile (\<lambda>c. c = CHR ''0'') (rev ds)) @ replicate z (CHR ''0'') = ds"
proof -
  have "takeWhile (\<lambda>c. c = CHR ''0'') (rev ds) = replicate (length (takeWhile (\<lambda>c. c = CHR ''0'') (rev ds))) (CHR ''0'')"
    by (rule replicate_length_same [symmetric]) (auto dest: set_takeWhileD)
  then obtain z where "takeWhile (\<lambda>c. c = CHR ''0'') (rev ds) = replicate z (CHR ''0'')" by blast
  then have "rev (rev ds) = rev (dropWhile (\<lambda>c. c = CHR ''0'') (rev ds)) @ replicate z (CHR ''0'')"
    by (metis rev_append rev_replicate takeWhile_dropWhile_id)
  then show ?thesis by (intro exI [of _ z]) simp
qed

lemma digit_0: "digit_char 0 = CHR ''0''"
  by code_simp

lemma frac_str_cases [consumes 1]:
  assumes "0 < prec"
  obtains (zero) "v mod 10 ^ prec = 0" "frac_str v prec = []"
  | (frac) ds n where "frac_str v prec = CHR ''.'' # ds" "atou_acc 0 ds = Some n" "0 < n" "ds \<noteq> []"
      "length ds \<le> prec" "n * 10 ^ (prec - length ds) = v mod 10 ^ prec"
proof -
  let ?r = "v mod 10 ^ prec" and ?p = "pad_left prec (utoa (v mod 10 ^ prec))"
  have P: "atou_acc 0 ?p = Some ?r" "length ?p = prec" using pad_left_value [OF _ assms, of ?r] by simp_all
  define ds where "ds = rev (dropWhile (\<lambda>c. c = CHR ''0'') (rev ?p))"
  obtain z where z: "ds @ replicate z (CHR ''0'') = ?p" using strip_zeros_split unfolding ds_def by blast
  have f: "frac_str v prec = (if ds = [] then [] else CHR ''.'' # ds)"
    by (simp add: frac_str_def ds_def Let_def)
  from P(1) obtain n where n: "atou_acc 0 ds = Some n" "n * 10 ^ z = ?r"
    unfolding z [symmetric] by (auto simp: atou_acc_append atou_replicate_0 split: option.splits)
  have len: "length ds + z = prec" using P(2) unfolding z [symmetric] by simp
  show thesis
  proof (cases "ds = []")
    case True
    with n f show ?thesis by (intro zero) auto
  next
    case False
    have "0 < n"
    proof (rule ccontr)
      assume "\<not> 0 < n"
      with n have "?r = 0" by simp
      with P(2) have "?p = replicate prec (CHR ''0'')" 
        using assms by (cases prec) (simp_all add: digit_0 replicate_append_same)
      then have "ds = []" by (simp add: ds_def)
      with False show False by simp
    qed
    with False n f len show ?thesis by (intro frac [of ds n]) auto
  qed
qed


text \<open>One printed component: digits, an optional fraction, and a unit of ten to the power \<open>prec\<close>.\<close>

lemma scaled_fraction:
  assumes "n * 10 ^ (prec - len) < 10 ^ prec" "len \<le> prec" "prec \<le> 9" "len \<noteq> 0"
  shows "fmul (f_of_int (int n)) (fdiv (f_of_int (10 ^ prec)) (Fin (10 ^ len))) = Fin (of_int (int n * 10 ^ (prec - len)))"
proof -
  let ?q = "(10::int) ^ (prec - len)"
  have "(10::int) ^ prec \<le> 10 ^ 9" using assms(3) by (intro power_increasing) auto
  also have "(10::int) ^ 9 \<le> 2 ^ 53" by simp
  finally have p9: "(10::int) ^ prec \<le> 2 ^ 53" .
  have "int (n * 10 ^ (prec - len)) < int (10 ^ prec)" using assms(1) by (simp only: of_nat_less_iff)
  then have le: "int n * ?q < 10 ^ prec" by simp
  have "(1::int) \<le> ?q" by simp
  then have n: "int n \<le> 10 ^ prec" using le mult_left_mono [of 1 ?q "int n"] by linarith
  have q: "?q \<le> 10 ^ prec" by (intro power_increasing) auto
  have 1: "f_of_int (10 ^ prec) = Fin (of_int (10 ^ prec))"
    by (rule f_of_int_exact) (use p9 in \<open>simp only: abs_of_nonneg zero_le_power zero_le_numeral\<close>)
  have 2: "f_of_int (int n) = Fin (of_int (int n))"
    by (rule f_of_int_exact) (use order_trans [OF n p9] in \<open>simp only: abs_of_nonneg of_nat_0_le_iff\<close>)
  have 3: "(of_int (10 ^ prec) :: rat) / 10 ^ len = of_int ?q"
    using assms(2) by (simp add: nonzero_divide_eq_eq flip: power_add)
  have 4: "round64 (of_int ?q) = Fin (of_int ?q)" by (rule round64_exact) (use order_trans [OF q p9] in \<open>simp only: abs_of_nonneg zero_le_power zero_le_numeral\<close>)
  have 5: "round64 (of_int (int n * ?q)) = Fin (of_int (int n * ?q))"
    by (rule round64_exact) (use order_trans [OF less_imp_le [OF le] p9] in \<open>simp only: abs_of_nonneg mult_nonneg_nonneg of_nat_0_le_iff zero_le_power zero_le_numeral\<close>)
  have "(10::rat) ^ len \<noteq> 0" by simp
  then show ?thesis by (simp only: 1 2 3 4 5 fdiv.simps fmul.simps if_False flip: of_int_mult)
qed

definition stops :: "string \<Rightarrow> bool" where
  "stops rest \<longleftrightarrow> rest = [] \<or> \<not> unit_char (hd rest)"

definition unit_text :: "string \<Rightarrow> bool" where
  "unit_text u \<longleftrightarrow> u \<noteq> [] \<and> (\<forall>c\<in>set u. unit_char c)"

lemma unit_text_split:
  assumes "unit_text u" "stops rest"
  shows "takeWhile unit_char (u @ rest) = u" "dropWhile unit_char (u @ rest) = rest"
  using assms by (cases rest; simp add: unit_text_def stops_def)+

lemma utoa_head: "utoa n @ t \<noteq> []" "\<not> unit_char (hd (utoa n @ t))"
  using hd_utoa_digit [of n] by (simp_all add: unit_char_def)

lemma duration_part_int:
  assumes u: "unit_text u" "map_of unitMap u = Some unit" and rest: "stops rest"
    and b: "0 < unit" "0 \<le> d" "d + int w * unit \<le> 2 ^ 63"
  shows "duration_part d (utoa w @ u @ rest) = Some (d + int w * unit, rest)"
proof -
  have uh: "hd (u @ rest) \<noteq> CHR ''.''" "\<not> is_digit (hd (u @ rest))" "u \<noteq> []"
    using u(1) by (cases u; simp add: unit_text_def unit_char_def)+
  have w: "int w * unit \<le> 2 ^ 63" using b by linarith
  then have w2: "int w \<le> 2 ^ 63 div unit" using zdiv_mono1 [OF w b(1)] b(1) by simp
  have "int w * 1 \<le> int w * unit" using b(1) by (intro mult_left_mono) auto
  then have "leadingInt (int 0) (utoa w @ u @ rest) = Some (int w, u @ rest)"
    using w uh by (intro leadingInt_digits) auto
  then show ?thesis
    using u(2) uh w w2 b utoa_head unit_text_split [OF u(1) rest]
    by (simp add: duration_part_def Let_def)
qed


lemma duration_part_frac:
  assumes u: "unit_text u" "map_of unitMap u = Some (10 ^ prec)" and rest: "stops rest"
    and b: "0 < prec" "prec \<le> 9" "0 \<le> d" "d + int w * 10 ^ prec + int (v mod 10 ^ prec) \<le> 2 ^ 63"
  shows "duration_part d (utoa w @ frac_str v prec @ u @ rest) = Some (d + int w * 10 ^ prec + int (v mod 10 ^ prec), rest)"
  using b(1)
proof (cases rule: frac_str_cases [where v = v])
  case zero
  then show ?thesis using duration_part_int [OF u rest _ b(3), of w] b(4) by simp
next
  case (frac ds n)
  have uh: "\<not> is_digit (hd (u @ rest))" "u \<noteq> []"
    using u(1) by (cases u; simp add: unit_text_def unit_char_def)+
  let ?r = "int (v mod 10 ^ prec)"
  have r: "n * 10 ^ (prec - length ds) < 10 ^ prec" using frac(6) by simp
  have wu: "int w * 10 ^ prec \<le> 2 ^ 63" using b(3,4) of_nat_0_le_iff [of "v mod 10 ^ prec"] by linarith
  have w2: "int w \<le> 2 ^ 63 div 10 ^ prec" using zdiv_mono1 [OF wu, of "10 ^ prec"] by simp
  have "int w * 1 \<le> int w * 10 ^ prec" by (intro mult_left_mono) auto
  with wu have I: "leadingInt (int 0) (utoa w @ (CHR ''.'' # ds @ u @ rest)) = Some (int w, CHR ''.'' # ds @ u @ rest)"
    by (intro leadingInt_digits) (auto simp: is_digit_def)
  have "n * 1 \<le> n * 10 ^ (prec - length ds)" by (intro mult_le_mono2) simp
  also note r
  also have "(10::nat) ^ prec \<le> 10 ^ 15" using b(2) by (intro power_increasing) auto
  finally have "n < 10 ^ 15" by simp
  then have F: "leadingFraction False (int 0) (Fin (10 ^ 0)) (ds @ u @ rest) = (int n, Fin (10 ^ (0 + length ds)), u @ rest)"
    using frac(2,5) b(2) uh by (intro leadingFraction_digits) auto
  have S: "fmul (f_of_int (int n)) (fdiv (f_of_int (10 ^ prec)) (Fin (10 ^ length ds))) = Fin (of_int ?r)"
    using scaled_fraction [OF r frac(5) b(2)] frac(4) by (simp flip: frac(6))
  have T: "trunc_rat (rat_of_int ?r) = ?r" by (rule trunc_rat_of_int)
  have "0 \<le> d + (int w * 10 ^ prec + ?r)" using b(3) by (intro add_nonneg_nonneg) auto
  moreover have "int w * 10 ^ prec + ?r \<le> 2 ^ 63" "d + (int w * 10 ^ prec + ?r) \<le> 2 ^ 63" using b(3,4) by linarith+
  ultimately show ?thesis
    using u(2) uh(2) frac(1,3,4) w2 utoa_head unit_text_split [OF u(1) rest] I F S T
    by (simp add: duration_part_def Let_def ac_simps del: trunc_rat_of_int of_int_of_nat_eq)
qed


lemma units:
  "unit_text ''ns'' \<and> map_of unitMap ''ns'' = Some 1"
  "unit_text (micro_sign @ ''s'') \<and> map_of unitMap (micro_sign @ ''s'') = Some (10 ^ 3)"
  "unit_text ''ms'' \<and> map_of unitMap ''ms'' = Some (10 ^ 6)"
  "unit_text ''s'' \<and> map_of unitMap ''s'' = Some (10 ^ 9)"
  "unit_text ''m'' \<and> map_of unitMap ''m'' = Some 60000000000"
  "unit_text ''h'' \<and> map_of unitMap ''h'' = Some 3600000000000"
  by (simp_all add: unit_text_def unitMap_def micro_sign_def greek_mu_def unit_char_def is_digit_def)

lemma stops_Nil [simp]: "stops []"
  by (simp add: stops_def)

lemma stops_utoa [simp]: "stops (utoa n @ t)"
  using utoa_head by (simp add: stops_def)

lemma duration_loop_Nil [simp]: "duration_loop d [] = Some d"
  by (simp add: duration_loop.simps)

lemma duration_loop_step:
  "duration_part d s = Some (d', s') \<Longrightarrow> s \<noteq> [] \<Longrightarrow> duration_loop d s = duration_loop d' s'"
  by (subst duration_loop.simps) simp

text \<open>The seconds with their fraction, and the minutes and hours before them.\<close>

lemma loop_seconds:
  assumes "0 \<le> d" "d + int (s * 10 ^ 9 + u mod 10 ^ 9) \<le> 2 ^ 63"
  shows "duration_loop d (utoa s @ frac_str u 9 @ ''s'') = Some (d + int (s * 10 ^ 9 + u mod 10 ^ 9))"
  using duration_part_frac [of "''s''" 9 "[]" d s u] units(4) assms
  by (subst duration_loop_step) (auto simp: add.assoc)

lemma loop_int:
  assumes "unit_text t" "map_of unitMap t = Some unit" "0 < unit" "0 \<le> d" "d + int w * unit \<le> 2 ^ 63" "stops rest"
  shows "duration_loop d (utoa w @ t @ rest) = duration_loop (d + int w * unit) rest"
  using duration_part_int [of t unit rest d w] assms by (subst duration_loop_step) auto


lemma loop_hms:
  assumes "int u \<le> 2 ^ 63" "s = u div 1000000000" "m = s div 60" "h = m div 60"
  shows "duration_loop 0 ((if h > 0 then utoa h @ ''h'' else []) @ (if m > 0 then utoa (m mod 60) @ ''m'' else [])
           @ utoa (s mod 60) @ frac_str u 9 @ ''s'') = Some (int u)"
proof -
  have sum: "int u = int h * 3600000000000 + int (m mod 60) * 60000000000 + int ((s mod 60) * 10 ^ 9 + u mod 10 ^ 9)"
  proof -
    have "u = (u div 1000000000) * 10 ^ 9 + u mod 10 ^ 9" "s = (s div 60) * 60 + s mod 60" "m = (m div 60) * 60 + m mod 60"
      by simp_all
    then have "u = h * 3600000000000 + (m mod 60) * 60000000000 + ((s mod 60) * 10 ^ 9 + u mod 10 ^ 9)"
      unfolding assms(2)[symmetric] assms(3)[symmetric] assms(4)[symmetric] by simp
    then show ?thesis by (metis of_nat_add of_nat_mult of_nat_numeral)
  qed
  let ?H = "int h * 3600000000000" and ?M = "int (m mod 60) * 60000000000"
  have nn: "0 \<le> ?H" "0 \<le> ?M" by simp_all
  have S: "duration_loop (?H + ?M) (utoa (s mod 60) @ frac_str u 9 @ ''s'') = Some (int u)"
    using loop_seconds [of "?H + ?M" "s mod 60" u] sum assms(1) nn by (simp only: add_nonneg_nonneg add.assoc)
  have rest: "stops (utoa (s mod 60) @ frac_str u 9 @ ''s'')" by simp
  have lim: "?H + ?M \<le> 2 ^ 63" using sum assms(1) of_nat_0_le_iff [of "(s mod 60) * 10 ^ 9 + u mod 10 ^ 9"] by linarith
  have M: "duration_loop ?H ((if m > 0 then utoa (m mod 60) @ ''m'' else []) @ utoa (s mod 60) @ frac_str u 9 @ ''s'') = Some (int u)"
    using loop_int [of "''m''" 60000000000 ?H "m mod 60", OF _ _ _ nn(1) lim rest] units(5) S by (cases "m > 0") auto
  have rest2: "stops ((if m > 0 then utoa (m mod 60) @ ''m'' else []) @ utoa (s mod 60) @ frac_str u 9 @ ''s'')" by simp
  show ?thesis
    using loop_int [of "''h''" 3600000000000 0 h, OF _ _ _ _ _ rest2] units(6) M lim nn by (cases "h > 0") auto
qed

lemma duration_loop_unsigned:
  assumes "int u \<le> 2 ^ 63" shows "duration_loop 0 (unsigned_duration_string u) = Some (int u)"
proof -
  have frac: "duration_loop 0 (utoa (u div 10 ^ p) @ frac_str u p @ t) = Some (int u)"
    if "unit_text t" "map_of unitMap t = Some (10 ^ p)" "0 < p" "p \<le> 9" for t p
  proof -
    have "int (u div 10 ^ p * 10 ^ p + u mod 10 ^ p) = int u" by (simp only: div_mult_mod_eq)
    then have "(0::int) + int (u div 10 ^ p) * 10 ^ p + int (u mod 10 ^ p) = int u"
      by (simp only: of_nat_add of_nat_mult of_nat_power of_nat_numeral add_0)
    then show ?thesis
      using duration_part_frac [of t p "[]" 0 "u div 10 ^ p" u] that assms by (subst duration_loop_step) auto
  qed
  consider "u = 0" | "0 < u" "u < 1000" | "1000 \<le> u" "u < 1000000" | "1000000 \<le> u" "u < 1000000000" | "1000000000 \<le> u"
    by linarith
  then show ?thesis
  proof cases
    case 1
    then show ?thesis by (simp add: unsigned_duration_string_def) code_simp
  next
    case 2
    then show ?thesis using loop_int [of "''ns''" 1 0 u "[]"] units(1) assms
      by (simp add: unsigned_duration_string_def)
  next
    case 3
    then show ?thesis using frac [of "micro_sign @ ''s''" 3] units(2)
      by (simp add: unsigned_duration_string_def micro_sign_def)
  next
    case 4
    then show ?thesis using frac [of "''ms''" 6] units(3) by (simp add: unsigned_duration_string_def)
  next
    case 5
    then have "u \<noteq> 0" "\<not> u < 1000" "\<not> u < 1000000" "\<not> u < 1000000000" by simp_all
    then show ?thesis using loop_hms [OF assms refl refl refl]
      by (simp only: unsigned_duration_string_def Let_def if_False)
  qed
qed

lemma unsigned_head: "unsigned_duration_string u \<noteq> [] \<and> is_digit (hd (unsigned_duration_string u))"
  by (simp add: unsigned_duration_string_def Let_def hd_utoa_digit) (simp add: is_digit_def)

lemma ParseDuration_Duration_String [simp]:
  assumes "in64 d" shows "ParseDuration (Duration_String d) = Some d"
proof -
  let ?s = "unsigned_duration_string (nat \<bar>d\<bar>)"
  obtain c cs where s: "?s = c # cs" using unsigned_head by (cases ?s) auto
  have c: "c \<noteq> CHR ''-''" "c \<noteq> CHR ''+''" using unsigned_head [of "nat \<bar>d\<bar>"] s by (auto simp: is_digit_def)
  have loop: "duration_loop 0 ?s = Some \<bar>d\<bar>" using duration_loop_unsigned [of "nat \<bar>d\<bar>"] assms by (auto simp: in64_def)
  have "duration_loop 0 ''0'' = None" by code_simp
  with loop have no0: "?s \<noteq> ''0''" by (metis option.distinct(1))
  show ?thesis
  proof (cases "d < 0")
    case True
    with loop no0 s assms show ?thesis by (simp add: Duration_String_def ParseDuration_def)
  next
    case False
    with loop no0 s c assms show ?thesis by (auto simp: Duration_String_def ParseDuration_def in64_def)
  qed
qed

lemma duration_part_nonneg: "duration_part d s = Some (d', s') \<Longrightarrow> 0 \<le> d'"
  unfolding duration_part_def Let_def by (auto split: if_splits option.splits prod.splits)

lemma duration_loop_nonneg: "0 \<le> d \<Longrightarrow> duration_loop d s = Some d' \<Longrightarrow> 0 \<le> d'"
proof (induction d s rule: duration_loop.induct)
  case (1 d s)
  show ?case
  proof (cases "s = []")
    case False
    with "1.prems"(2) obtain e t where "duration_part d s = Some (e, t)" "duration_loop e t = Some d'"
      by (subst (asm) duration_loop.simps) (auto split: option.splits)
    with "1.IH" [OF False] duration_part_nonneg show ?thesis by blast
  qed (use 1 in simp)
qed

lemma ParseDuration_in64:
  assumes "ParseDuration s = Some d" shows "in64 d"
proof -
  have "in64 0" "\<And>e. \<lbrakk>0 \<le> e; \<not> 2 ^ 63 - 1 < e\<rbrakk> \<Longrightarrow> in64 e" by (simp_all add: in64_def)
  with assms duration_loop_nonneg [of 0] show ?thesis
    unfolding ParseDuration_def Let_def by (force split: option.splits if_splits prod.splits)
qed

end
