(* ===== verification/Config_Loader.thy ===== *)
theory Config_Loader
  imports Configuration Go_Duration
begin

text \<open>
  \<open>internal/config/loader.go\<close>: the configuration from the environment. The environment is a function from
  variable names to values, as \<open>os.Getenv\<close> reads it: the empty string when the variable is not set.
  The properties: every valid configuration can be expressed by an environment, so each variable
  sets its own field; and the variables \<open>THROTTLER_*\<close> have no influence on what the services use.
\<close>

section \<open>Helpers\<close>

type_synonym environment = "string \<Rightarrow> string"

definition GetEnv :: "environment \<Rightarrow> string \<Rightarrow> string \<Rightarrow> string" where
  "GetEnv env key defaultValue = (let value = env key in if value \<noteq> '''' then value else defaultValue)"

definition GetIntEnv :: "environment \<Rightarrow> string \<Rightarrow> int64 \<Rightarrow> int64" where
  "GetIntEnv env key defaultValue =
     (let value = env key
      in if value \<noteq> '''' then (case Atoi value of Some v \<Rightarrow> v | None \<Rightarrow> defaultValue) else defaultValue)"

definition GetInt64Env :: "environment \<Rightarrow> string \<Rightarrow> int64 \<Rightarrow> int64" where
  "GetInt64Env env key defaultValue =
     (let value = env key
      in if value \<noteq> '''' then (case ParseInt value of Some v \<Rightarrow> v | None \<Rightarrow> defaultValue) else defaultValue)"

definition GetBoolEnv :: "environment \<Rightarrow> string \<Rightarrow> bool \<Rightarrow> bool" where
  "GetBoolEnv env key defaultValue =
     (let value = env key
      in if value \<noteq> '''' then (case ParseBool value of Some v \<Rightarrow> v | None \<Rightarrow> defaultValue) else defaultValue)"

definition GetFloat64Env :: "environment \<Rightarrow> string \<Rightarrow> float64 \<Rightarrow> float64" where
  "GetFloat64Env env key defaultValue =
     (let value = env key
      in if value \<noteq> '''' then (case ParseFloat value of Some v \<Rightarrow> v | None \<Rightarrow> defaultValue) else defaultValue)"

definition GetDurationEnv :: "environment \<Rightarrow> string \<Rightarrow> duration \<Rightarrow> duration" where
  "GetDurationEnv env key defaultValue =
     (let value = env key
      in if value \<noteq> '''' then (case ParseDuration value of Some v \<Rightarrow> v | None \<Rightarrow> defaultValue) else defaultValue)"

section \<open>The sections\<close>

definition loadIngestionConfig :: "environment \<Rightarrow> IngestionConfig \<Rightarrow> IngestionConfig" where
  "loadIngestionConfig env cfg = cfg\<lparr>
     i_EnableCircuitBreaker := GetBoolEnv env ''INGESTION_ENABLE_CIRCUIT_BREAKER'' (i_EnableCircuitBreaker cfg),
     i_MaxQueueDepth := GetInt64Env env ''INGESTION_MAX_QUEUE_DEPTH'' (i_MaxQueueDepth cfg),
     i_Throttler := (i_Throttler cfg)\<lparr>
         t_Enabled := GetBoolEnv env ''INGESTION_THROTTLER_ENABLED'' (t_Enabled (i_Throttler cfg)),
         t_SoftDepthLimit := GetInt64Env env ''INGESTION_THROTTLER_SOFT_DEPTH'' (t_SoftDepthLimit (i_Throttler cfg)),
         t_HardDepthLimit := GetInt64Env env ''INGESTION_THROTTLER_HARD_DEPTH'' (t_HardDepthLimit (i_Throttler cfg)),
         t_MaxMessageAge := GetDurationEnv env ''INGESTION_THROTTLER_MAX_AGE'' (t_MaxMessageAge (i_Throttler cfg)),
         t_CriticalMessageAge := GetDurationEnv env ''INGESTION_THROTTLER_CRITICAL_AGE'' (t_CriticalMessageAge (i_Throttler cfg)),
         t_RateLimitScore := GetFloat64Env env ''INGESTION_THROTTLER_RATE_LIMIT_SCORE'' (t_RateLimitScore (i_Throttler cfg)),
         t_CircuitOpenScore := GetFloat64Env env ''INGESTION_THROTTLER_CIRCUIT_SCORE'' (t_CircuitOpenScore (i_Throttler cfg)),
         t_MetricsUpdateInterval := GetDurationEnv env ''INGESTION_THROTTLER_UPDATE_INTERVAL'' (t_MetricsUpdateInterval (i_Throttler cfg)),
         t_EstimatedDrainRate := GetFloat64Env env ''INGESTION_THROTTLER_DRAIN_RATE'' (t_EstimatedDrainRate (i_Throttler cfg)),
         t_MinRetryAfter := GetDurationEnv env ''INGESTION_THROTTLER_MIN_RETRY'' (t_MinRetryAfter (i_Throttler cfg)),
         t_MaxRetryAfter := GetDurationEnv env ''INGESTION_THROTTLER_MAX_RETRY'' (t_MaxRetryAfter (i_Throttler cfg))\<rparr>\<rparr>"

definition loadWorkerConfig :: "environment \<Rightarrow> WorkerConfig \<Rightarrow> WorkerConfig" where
  "loadWorkerConfig env cfg = cfg\<lparr>
     w_Concurrency := GetIntEnv env ''WORKER_CONCURRENCY'' (w_Concurrency cfg),
     w_PollInterval := GetDurationEnv env ''WORKER_POLL_INTERVAL'' (w_PollInterval cfg),
     w_BatchSize := GetIntEnv env ''WORKER_BATCH_SIZE'' (w_BatchSize cfg),
     w_ProcessingTimeout := GetDurationEnv env ''WORKER_PROCESSING_TIMEOUT'' (w_ProcessingTimeout cfg),
     w_JobMaxRetries := GetIntEnv env ''WORKER_MAX_RETRIES'' (w_JobMaxRetries cfg),
     w_BackoffMinDelay := GetDurationEnv env ''WORKER_BACKOFF_MIN_DELAY'' (w_BackoffMinDelay cfg),
     w_BackoffMaxDelay := GetDurationEnv env ''WORKER_BACKOFF_MAX_DELAY'' (w_BackoffMaxDelay cfg),
     w_HealthPort := GetEnv env ''WORKER_HEALTH_PORT'' (w_HealthPort cfg),
     w_ReclaimInterval := GetDurationEnv env ''WORKER_RECLAIM_INTERVAL'' (w_ReclaimInterval cfg),
     w_ReclaimIdleTime := GetDurationEnv env ''WORKER_RECLAIM_IDLE_TIME'' (w_ReclaimIdleTime cfg),
     w_ReclaimBatchSize := GetIntEnv env ''WORKER_RECLAIM_BATCH_SIZE'' (w_ReclaimBatchSize cfg),
     w_DedupTTL := GetDurationEnv env ''WORKER_DEDUP_TTL'' (w_DedupTTL cfg)\<rparr>"

definition loadServerConfig :: "environment \<Rightarrow> ServerConfig \<Rightarrow> ServerConfig" where
  "loadServerConfig env cfg = cfg\<lparr>
     s_Host := GetEnv env ''SERVER_HOST'' (s_Host cfg),
     s_Port := GetEnv env ''SERVER_PORT'' (s_Port cfg),
     s_ReadTimeout := GetDurationEnv env ''SERVER_READ_TIMEOUT'' (s_ReadTimeout cfg),
     s_WriteTimeout := GetDurationEnv env ''SERVER_WRITE_TIMEOUT'' (s_WriteTimeout cfg),
     s_IdleTimeout := GetDurationEnv env ''SERVER_IDLE_TIMEOUT'' (s_IdleTimeout cfg),
     s_ShutdownTimeout := GetDurationEnv env ''SERVER_SHUTDOWN_TIMEOUT'' (s_ShutdownTimeout cfg)\<rparr>"

definition loadRedisConfig :: "environment \<Rightarrow> RedisClientConfig \<Rightarrow> RedisClientConfig" where
  "loadRedisConfig env cfg = cfg\<lparr>
     rc_Host := GetEnv env ''REDIS_HOST'' (rc_Host cfg),
     rc_Port := GetEnv env ''REDIS_PORT'' (rc_Port cfg),
     rc_Password := GetEnv env ''REDIS_PASSWORD'' (rc_Password cfg),
     rc_DB := GetIntEnv env ''REDIS_DB'' (rc_DB cfg),
     rc_PoolSize := GetIntEnv env ''REDIS_POOL_SIZE'' (rc_PoolSize cfg),
     rc_MinIdleConns := GetIntEnv env ''REDIS_MIN_IDLE_CONNS'' (rc_MinIdleConns cfg),
     rc_ConnMaxIdleTime := GetDurationEnv env ''REDIS_CONN_MAX_IDLE_TIME'' (rc_ConnMaxIdleTime cfg)\<rparr>"

definition loadQueueConfig :: "environment \<Rightarrow> QueueConfig \<Rightarrow> QueueConfig" where
  "loadQueueConfig env cfg = cfg\<lparr>
     q_BaseStreamName := GetEnv env ''QUEUE_STREAM_NAME'' (q_BaseStreamName cfg),
     q_BaseConsumerGroup := GetEnv env ''QUEUE_CONSUMER_GROUP'' (q_BaseConsumerGroup cfg),
     q_RedisMaxRetries := GetIntEnv env ''QUEUE_REDIS_MAX_RETRIES'' (q_RedisMaxRetries cfg),
     q_MaxLen := GetInt64Env env ''QUEUE_MAX_LEN'' (q_MaxLen cfg),
     q_DLQStreamName := GetEnv env ''QUEUE_DLQ_STREAM_NAME'' (q_DLQStreamName cfg),
     q_DLQMaxLen := GetInt64Env env ''QUEUE_DLQ_MAX_LEN'' (q_DLQMaxLen cfg),
     q_PartitionCount := GetIntEnv env ''QUEUE_PARTITION_COUNT'' (q_PartitionCount cfg),
     q_PartitionID := GetIntEnv env ''QUEUE_PARTITION_ID'' (q_PartitionID cfg)\<rparr>"

definition loadPostgresConfig :: "environment \<Rightarrow> PostgresClientConfig \<Rightarrow> PostgresClientConfig" where
  "loadPostgresConfig env cfg = cfg\<lparr>
     p_Host := GetEnv env ''POSTGRES_HOST'' (p_Host cfg),
     p_Port := GetEnv env ''POSTGRES_PORT'' (p_Port cfg),
     p_Database := GetEnv env ''POSTGRES_DB'' (p_Database cfg),
     p_User := GetEnv env ''POSTGRES_USER'' (p_User cfg),
     p_Password := GetEnv env ''POSTGRES_PASSWORD'' (p_Password cfg),
     p_SSLMode := GetEnv env ''POSTGRES_SSLMODE'' (p_SSLMode cfg),
     p_MaxConns := GetIntEnv env ''POSTGRES_MAX_CONNS'' (p_MaxConns cfg),
     p_MinConns := GetIntEnv env ''POSTGRES_MIN_CONNS'' (p_MinConns cfg),
     p_MaxConnLifetime := GetDurationEnv env ''POSTGRES_MAX_CONN_LIFETIME'' (p_MaxConnLifetime cfg),
     p_MaxConnIdleTime := GetDurationEnv env ''POSTGRES_MAX_CONN_IDLE_TIME'' (p_MaxConnIdleTime cfg)\<rparr>"

definition loadObservabilityConfig :: "environment \<Rightarrow> ObservabilityConfig \<Rightarrow> ObservabilityConfig" where
  "loadObservabilityConfig env cfg = cfg\<lparr>
     o_LogLevel := GetEnv env ''LOG_LEVEL'' (o_LogLevel cfg),
     o_LogFormat := GetEnv env ''LOG_FORMAT'' (o_LogFormat cfg),
     o_MetricsEnabled := GetBoolEnv env ''METRICS_ENABLED'' (o_MetricsEnabled cfg),
     o_MetricsPort := GetEnv env ''METRICS_PORT'' (o_MetricsPort cfg),
     o_TracingEnabled := GetBoolEnv env ''TRACING_ENABLED'' (o_TracingEnabled cfg),
     o_TracingSampleRate := GetFloat64Env env ''TRACING_SAMPLE_RATE'' (o_TracingSampleRate cfg),
     o_HealthCheckTimeout := GetDurationEnv env ''HEALTH_CHECK_TIMEOUT'' (o_HealthCheckTimeout cfg)\<rparr>"

definition loadThrottlerConfig :: "environment \<Rightarrow> ThrottlerConfig \<Rightarrow> ThrottlerConfig" where
  "loadThrottlerConfig env cfg = cfg\<lparr>
     t_Enabled := GetBoolEnv env ''THROTTLER_ENABLED'' (t_Enabled cfg),
     t_SoftDepthLimit := GetInt64Env env ''THROTTLER_SOFT_DEPTH_LIMIT'' (t_SoftDepthLimit cfg),
     t_HardDepthLimit := GetInt64Env env ''THROTTLER_HARD_DEPTH_LIMIT'' (t_HardDepthLimit cfg),
     t_MaxMessageAge := GetDurationEnv env ''THROTTLER_MAX_MESSAGE_AGE'' (t_MaxMessageAge cfg),
     t_CriticalMessageAge := GetDurationEnv env ''THROTTLER_CRITICAL_MESSAGE_AGE'' (t_CriticalMessageAge cfg),
     t_RateLimitScore := GetFloat64Env env ''THROTTLER_RATE_LIMIT_SCORE'' (t_RateLimitScore cfg),
     t_CircuitOpenScore := GetFloat64Env env ''THROTTLER_CIRCUIT_OPEN_SCORE'' (t_CircuitOpenScore cfg),
     t_MetricsUpdateInterval := GetDurationEnv env ''THROTTLER_METRICS_UPDATE_INTERVAL'' (t_MetricsUpdateInterval cfg),
     t_EstimatedDrainRate := GetFloat64Env env ''THROTTLER_ESTIMATED_DRAIN_RATE'' (t_EstimatedDrainRate cfg),
     t_MinRetryAfter := GetDurationEnv env ''THROTTLER_MIN_RETRY_AFTER'' (t_MinRetryAfter cfg),
     t_MaxRetryAfter := GetDurationEnv env ''THROTTLER_MAX_RETRY_AFTER'' (t_MaxRetryAfter cfg)\<rparr>"

definition loadRegistryConfig :: "environment \<Rightarrow> RegistryConfig \<Rightarrow> RegistryConfig" where
  "loadRegistryConfig env cfg = cfg\<lparr>
     r_HeartbeatInterval := GetDurationEnv env ''REGISTRY_HEARTBEAT_INTERVAL'' (r_HeartbeatInterval cfg),
     r_DeadThreshold := GetDurationEnv env ''REGISTRY_DEAD_THRESHOLD'' (r_DeadThreshold cfg),
     r_PollInterval := GetDurationEnv env ''REGISTRY_POLL_INTERVAL'' (r_PollInterval cfg),
     r_ControlPlanePoll := GetDurationEnv env ''REGISTRY_CONTROL_PLANE_POLL'' (r_ControlPlanePoll cfg),
     r_LockTTL := GetDurationEnv env ''REGISTRY_LOCK_TTL'' (r_LockTTL cfg)\<rparr>"

section \<open>Load\<close>

definition load_sections :: "environment \<Rightarrow> Config" where
  "load_sections env =
     (let cfg = GetDefaults
      in cfg\<lparr>
        c_Environment := GetEnv env ''ENVIRONMENT'' (c_Environment cfg),
        c_Ingestion := loadIngestionConfig env (c_Ingestion cfg),
        c_Worker := loadWorkerConfig env (c_Worker cfg),
        c_Server := loadServerConfig env (c_Server cfg),
        c_Redis := loadRedisConfig env (c_Redis cfg),
        c_Queue := loadQueueConfig env (c_Queue cfg),
        c_Postgres := loadPostgresConfig env (c_Postgres cfg),
        c_Observability := loadObservabilityConfig env (c_Observability cfg),
        c_Registry := loadRegistryConfig env (c_Registry cfg),
        c_Throttler := loadThrottlerConfig env (c_Throttler cfg)\<rparr>)"

definition Load :: "environment \<Rightarrow> Config go" where
  "Load env =
     (let cfg = load_sections env
      in case Validate cfg of
           Some err \<Rightarrow> Err (Wrap ''invalid configuration: '' err)
         | None \<Rightarrow> Ok cfg)"

section \<open>Environments that express a configuration\<close>

text \<open>
  The variables of each section with the text of their fields: decimal numbers, \<open>Duration.String\<close>,
  \<open>true\<close> and \<open>false\<close>; \<open>ftext\<close> prints floating point numbers in a form that \<open>ParseFloat\<close> reads back.
\<close>

definition bool_text :: "bool \<Rightarrow> string" where
  "bool_text b = (if b then ''true'' else ''false'')"

definition float_text :: "(float64 \<Rightarrow> string) \<Rightarrow> float64 \<Rightarrow> bool" where
  "float_text ftext x \<longleftrightarrow> ParseFloat (ftext x) = Some x"

definition holds :: "environment \<Rightarrow> (string \<times> string) list \<Rightarrow> bool" where
  "holds env vs \<longleftrightarrow> list_all (\<lambda>(k, t). env k = t) vs"

definition throttler_vars :: "(float64 \<Rightarrow> string) \<Rightarrow> ThrottlerConfig \<Rightarrow> (string \<times> string) list" where
  "throttler_vars ftext c = [
     (''THROTTLER_ENABLED'', bool_text (t_Enabled c)),
     (''THROTTLER_SOFT_DEPTH_LIMIT'', itoa (t_SoftDepthLimit c)),
     (''THROTTLER_HARD_DEPTH_LIMIT'', itoa (t_HardDepthLimit c)),
     (''THROTTLER_MAX_MESSAGE_AGE'', Duration_String (t_MaxMessageAge c)),
     (''THROTTLER_CRITICAL_MESSAGE_AGE'', Duration_String (t_CriticalMessageAge c)),
     (''THROTTLER_RATE_LIMIT_SCORE'', ftext (t_RateLimitScore c)),
     (''THROTTLER_CIRCUIT_OPEN_SCORE'', ftext (t_CircuitOpenScore c)),
     (''THROTTLER_METRICS_UPDATE_INTERVAL'', Duration_String (t_MetricsUpdateInterval c)),
     (''THROTTLER_ESTIMATED_DRAIN_RATE'', ftext (t_EstimatedDrainRate c)),
     (''THROTTLER_MIN_RETRY_AFTER'', Duration_String (t_MinRetryAfter c)),
     (''THROTTLER_MAX_RETRY_AFTER'', Duration_String (t_MaxRetryAfter c))]"

definition throttler_expressible :: "(float64 \<Rightarrow> string) \<Rightarrow> ThrottlerConfig \<Rightarrow> bool" where
  "throttler_expressible ftext c \<longleftrightarrow> list_all in64 [t_SoftDepthLimit c, t_HardDepthLimit c, t_MaxMessageAge c, t_CriticalMessageAge c, t_MetricsUpdateInterval c, t_MinRetryAfter c, t_MaxRetryAfter c] \<and>
     list_all (float_text ftext) [t_RateLimitScore c, t_CircuitOpenScore c, t_EstimatedDrainRate c]"

definition ingestion_vars :: "(float64 \<Rightarrow> string) \<Rightarrow> IngestionConfig \<Rightarrow> (string \<times> string) list" where
  "ingestion_vars ftext c = [
     (''INGESTION_ENABLE_CIRCUIT_BREAKER'', bool_text (i_EnableCircuitBreaker c)),
     (''INGESTION_MAX_QUEUE_DEPTH'', itoa (i_MaxQueueDepth c)),
     (''INGESTION_THROTTLER_ENABLED'', bool_text (t_Enabled (i_Throttler c))),
     (''INGESTION_THROTTLER_SOFT_DEPTH'', itoa (t_SoftDepthLimit (i_Throttler c))),
     (''INGESTION_THROTTLER_HARD_DEPTH'', itoa (t_HardDepthLimit (i_Throttler c))),
     (''INGESTION_THROTTLER_MAX_AGE'', Duration_String (t_MaxMessageAge (i_Throttler c))),
     (''INGESTION_THROTTLER_CRITICAL_AGE'', Duration_String (t_CriticalMessageAge (i_Throttler c))),
     (''INGESTION_THROTTLER_RATE_LIMIT_SCORE'', ftext (t_RateLimitScore (i_Throttler c))),
     (''INGESTION_THROTTLER_CIRCUIT_SCORE'', ftext (t_CircuitOpenScore (i_Throttler c))),
     (''INGESTION_THROTTLER_UPDATE_INTERVAL'', Duration_String (t_MetricsUpdateInterval (i_Throttler c))),
     (''INGESTION_THROTTLER_DRAIN_RATE'', ftext (t_EstimatedDrainRate (i_Throttler c))),
     (''INGESTION_THROTTLER_MIN_RETRY'', Duration_String (t_MinRetryAfter (i_Throttler c))),
     (''INGESTION_THROTTLER_MAX_RETRY'', Duration_String (t_MaxRetryAfter (i_Throttler c)))]"

definition ingestion_expressible :: "(float64 \<Rightarrow> string) \<Rightarrow> IngestionConfig \<Rightarrow> bool" where
  "ingestion_expressible ftext c \<longleftrightarrow> list_all in64 [i_MaxQueueDepth c, t_SoftDepthLimit (i_Throttler c), t_HardDepthLimit (i_Throttler c), t_MaxMessageAge (i_Throttler c), t_CriticalMessageAge (i_Throttler c), t_MetricsUpdateInterval (i_Throttler c), t_MinRetryAfter (i_Throttler c), t_MaxRetryAfter (i_Throttler c)] \<and>
     list_all (float_text ftext) [t_RateLimitScore (i_Throttler c), t_CircuitOpenScore (i_Throttler c), t_EstimatedDrainRate (i_Throttler c)]"

definition worker_vars :: "(float64 \<Rightarrow> string) \<Rightarrow> WorkerConfig \<Rightarrow> (string \<times> string) list" where
  "worker_vars ftext c = [
     (''WORKER_CONCURRENCY'', itoa (w_Concurrency c)),
     (''WORKER_POLL_INTERVAL'', Duration_String (w_PollInterval c)),
     (''WORKER_BATCH_SIZE'', itoa (w_BatchSize c)),
     (''WORKER_PROCESSING_TIMEOUT'', Duration_String (w_ProcessingTimeout c)),
     (''WORKER_MAX_RETRIES'', itoa (w_JobMaxRetries c)),
     (''WORKER_BACKOFF_MIN_DELAY'', Duration_String (w_BackoffMinDelay c)),
     (''WORKER_BACKOFF_MAX_DELAY'', Duration_String (w_BackoffMaxDelay c)),
     (''WORKER_HEALTH_PORT'', w_HealthPort c),
     (''WORKER_RECLAIM_INTERVAL'', Duration_String (w_ReclaimInterval c)),
     (''WORKER_RECLAIM_IDLE_TIME'', Duration_String (w_ReclaimIdleTime c)),
     (''WORKER_RECLAIM_BATCH_SIZE'', itoa (w_ReclaimBatchSize c)),
     (''WORKER_DEDUP_TTL'', Duration_String (w_DedupTTL c))]"

definition worker_expressible :: "(float64 \<Rightarrow> string) \<Rightarrow> WorkerConfig \<Rightarrow> bool" where
  "worker_expressible ftext c \<longleftrightarrow> list_all in64 [w_Concurrency c, w_PollInterval c, w_BatchSize c, w_ProcessingTimeout c, w_JobMaxRetries c, w_BackoffMinDelay c, w_BackoffMaxDelay c, w_ReclaimInterval c, w_ReclaimIdleTime c, w_ReclaimBatchSize c, w_DedupTTL c] \<and>
     list_all (\<lambda>s. s \<noteq> '''') [w_HealthPort c]"

definition server_vars :: "(float64 \<Rightarrow> string) \<Rightarrow> ServerConfig \<Rightarrow> (string \<times> string) list" where
  "server_vars ftext c = [
     (''SERVER_HOST'', s_Host c),
     (''SERVER_PORT'', s_Port c),
     (''SERVER_READ_TIMEOUT'', Duration_String (s_ReadTimeout c)),
     (''SERVER_WRITE_TIMEOUT'', Duration_String (s_WriteTimeout c)),
     (''SERVER_IDLE_TIMEOUT'', Duration_String (s_IdleTimeout c)),
     (''SERVER_SHUTDOWN_TIMEOUT'', Duration_String (s_ShutdownTimeout c))]"

definition server_expressible :: "(float64 \<Rightarrow> string) \<Rightarrow> ServerConfig \<Rightarrow> bool" where
  "server_expressible ftext c \<longleftrightarrow> list_all in64 [s_ReadTimeout c, s_WriteTimeout c, s_IdleTimeout c, s_ShutdownTimeout c] \<and>
     list_all (\<lambda>s. s \<noteq> '''') [s_Host c, s_Port c]"

definition redis_vars :: "(float64 \<Rightarrow> string) \<Rightarrow> RedisClientConfig \<Rightarrow> (string \<times> string) list" where
  "redis_vars ftext c = [
     (''REDIS_HOST'', rc_Host c),
     (''REDIS_PORT'', rc_Port c),
     (''REDIS_PASSWORD'', rc_Password c),
     (''REDIS_DB'', itoa (rc_DB c)),
     (''REDIS_POOL_SIZE'', itoa (rc_PoolSize c)),
     (''REDIS_MIN_IDLE_CONNS'', itoa (rc_MinIdleConns c)),
     (''REDIS_CONN_MAX_IDLE_TIME'', Duration_String (rc_ConnMaxIdleTime c))]"

definition redis_expressible :: "(float64 \<Rightarrow> string) \<Rightarrow> RedisClientConfig \<Rightarrow> bool" where
  "redis_expressible ftext c \<longleftrightarrow> list_all in64 [rc_DB c, rc_PoolSize c, rc_MinIdleConns c, rc_ConnMaxIdleTime c] \<and>
     list_all (\<lambda>s. s \<noteq> '''') [rc_Host c, rc_Port c]"

definition queue_vars :: "(float64 \<Rightarrow> string) \<Rightarrow> QueueConfig \<Rightarrow> (string \<times> string) list" where
  "queue_vars ftext c = [
     (''QUEUE_STREAM_NAME'', q_BaseStreamName c),
     (''QUEUE_CONSUMER_GROUP'', q_BaseConsumerGroup c),
     (''QUEUE_REDIS_MAX_RETRIES'', itoa (q_RedisMaxRetries c)),
     (''QUEUE_MAX_LEN'', itoa (q_MaxLen c)),
     (''QUEUE_DLQ_STREAM_NAME'', q_DLQStreamName c),
     (''QUEUE_DLQ_MAX_LEN'', itoa (q_DLQMaxLen c)),
     (''QUEUE_PARTITION_COUNT'', itoa (q_PartitionCount c)),
     (''QUEUE_PARTITION_ID'', itoa (q_PartitionID c))]"

definition queue_expressible :: "(float64 \<Rightarrow> string) \<Rightarrow> QueueConfig \<Rightarrow> bool" where
  "queue_expressible ftext c \<longleftrightarrow> list_all in64 [q_RedisMaxRetries c, q_MaxLen c, q_DLQMaxLen c, q_PartitionCount c, q_PartitionID c] \<and>
     list_all (\<lambda>s. s \<noteq> '''') [q_BaseStreamName c, q_BaseConsumerGroup c, q_DLQStreamName c]"

definition postgres_vars :: "(float64 \<Rightarrow> string) \<Rightarrow> PostgresClientConfig \<Rightarrow> (string \<times> string) list" where
  "postgres_vars ftext c = [
     (''POSTGRES_HOST'', p_Host c),
     (''POSTGRES_PORT'', p_Port c),
     (''POSTGRES_DB'', p_Database c),
     (''POSTGRES_USER'', p_User c),
     (''POSTGRES_PASSWORD'', p_Password c),
     (''POSTGRES_SSLMODE'', p_SSLMode c),
     (''POSTGRES_MAX_CONNS'', itoa (p_MaxConns c)),
     (''POSTGRES_MIN_CONNS'', itoa (p_MinConns c)),
     (''POSTGRES_MAX_CONN_LIFETIME'', Duration_String (p_MaxConnLifetime c)),
     (''POSTGRES_MAX_CONN_IDLE_TIME'', Duration_String (p_MaxConnIdleTime c))]"

definition postgres_expressible :: "(float64 \<Rightarrow> string) \<Rightarrow> PostgresClientConfig \<Rightarrow> bool" where
  "postgres_expressible ftext c \<longleftrightarrow> list_all in64 [p_MaxConns c, p_MinConns c, p_MaxConnLifetime c, p_MaxConnIdleTime c] \<and>
     list_all (\<lambda>s. s \<noteq> '''') [p_Host c, p_Port c, p_Database c, p_User c, p_Password c, p_SSLMode c]"

definition observability_vars :: "(float64 \<Rightarrow> string) \<Rightarrow> ObservabilityConfig \<Rightarrow> (string \<times> string) list" where
  "observability_vars ftext c = [
     (''LOG_LEVEL'', o_LogLevel c),
     (''LOG_FORMAT'', o_LogFormat c),
     (''METRICS_ENABLED'', bool_text (o_MetricsEnabled c)),
     (''METRICS_PORT'', o_MetricsPort c),
     (''TRACING_ENABLED'', bool_text (o_TracingEnabled c)),
     (''TRACING_SAMPLE_RATE'', ftext (o_TracingSampleRate c)),
     (''HEALTH_CHECK_TIMEOUT'', Duration_String (o_HealthCheckTimeout c))]"

definition observability_expressible :: "(float64 \<Rightarrow> string) \<Rightarrow> ObservabilityConfig \<Rightarrow> bool" where
  "observability_expressible ftext c \<longleftrightarrow> list_all in64 [o_HealthCheckTimeout c] \<and>
     list_all (\<lambda>s. s \<noteq> '''') [o_LogLevel c, o_LogFormat c, o_MetricsPort c] \<and>
     list_all (float_text ftext) [o_TracingSampleRate c]"

definition registry_vars :: "(float64 \<Rightarrow> string) \<Rightarrow> RegistryConfig \<Rightarrow> (string \<times> string) list" where
  "registry_vars ftext c = [
     (''REGISTRY_HEARTBEAT_INTERVAL'', Duration_String (r_HeartbeatInterval c)),
     (''REGISTRY_DEAD_THRESHOLD'', Duration_String (r_DeadThreshold c)),
     (''REGISTRY_POLL_INTERVAL'', Duration_String (r_PollInterval c)),
     (''REGISTRY_CONTROL_PLANE_POLL'', Duration_String (r_ControlPlanePoll c)),
     (''REGISTRY_LOCK_TTL'', Duration_String (r_LockTTL c))]"

definition registry_expressible :: "(float64 \<Rightarrow> string) \<Rightarrow> RegistryConfig \<Rightarrow> bool" where
  "registry_expressible ftext c \<longleftrightarrow> list_all in64 [r_HeartbeatInterval c, r_DeadThreshold c, r_PollInterval c, r_ControlPlanePoll c, r_LockTTL c]"

text \<open>Each helper reads back the text of its value.\<close>

lemma Duration_String_not_Nil [simp]: "Duration_String d \<noteq> []"
  using unsigned_head by (simp add: Duration_String_def)

lemma ParseFloat_Nil: "ParseFloat [] = None"
  by code_simp

lemma float_text_not_Nil: "float_text ftext x \<Longrightarrow> ftext x \<noteq> []"
  by (auto simp: float_text_def ParseFloat_Nil)

lemma env_texts:
  "env k \<noteq> [] \<Longrightarrow> GetEnv env k d = env k"
  "GetEnv env k [] = env k"
  "env k = itoa i \<Longrightarrow> in64 i \<Longrightarrow> GetIntEnv env k j = i"
  "env k = itoa i \<Longrightarrow> in64 i \<Longrightarrow> GetInt64Env env k j = i"
  "env k = bool_text b \<Longrightarrow> GetBoolEnv env k b' = b"
  "env k = ftext x \<Longrightarrow> float_text ftext x \<Longrightarrow> GetFloat64Env env k y = x"
  "env k = Duration_String i \<Longrightarrow> in64 i \<Longrightarrow> GetDurationEnv env k j = i"
  by (simp_all add: GetEnv_def GetIntEnv_def GetInt64Env_def GetBoolEnv_def GetFloat64Env_def GetDurationEnv_def
      bool_text_def ParseBool_def float_text_not_Nil float_text_def [symmetric] Let_def)
    (auto simp: float_text_def ParseFloat_Nil)

lemma loadThrottlerConfig_vars:
  "holds env (throttler_vars ftext c) \<Longrightarrow> throttler_expressible ftext c \<Longrightarrow> loadThrottlerConfig env d = c"
  by (cases c; cases d) (simp add: holds_def loadThrottlerConfig_def throttler_vars_def throttler_expressible_def env_texts)

lemma loadIngestionConfig_vars:
  "holds env (ingestion_vars ftext c) \<Longrightarrow> ingestion_expressible ftext c \<Longrightarrow> loadIngestionConfig env d = c"
  by (cases c; cases d; cases "i_Throttler c"; cases "i_Throttler d") (simp add: holds_def loadIngestionConfig_def ingestion_vars_def ingestion_expressible_def env_texts)

lemma loadWorkerConfig_vars:
  "holds env (worker_vars ftext c) \<Longrightarrow> worker_expressible ftext c \<Longrightarrow> loadWorkerConfig env d = c"
  by (cases c; cases d) (simp add: holds_def loadWorkerConfig_def worker_vars_def worker_expressible_def env_texts)

lemma loadServerConfig_vars:
  "holds env (server_vars ftext c) \<Longrightarrow> server_expressible ftext c \<Longrightarrow> loadServerConfig env d = c"
  by (cases c; cases d) (simp add: holds_def loadServerConfig_def server_vars_def server_expressible_def env_texts)

lemma loadRedisConfig_vars:
  "holds env (redis_vars ftext c) \<Longrightarrow> redis_expressible ftext c \<Longrightarrow> rc_Password d = '''' \<Longrightarrow> loadRedisConfig env d = c"
  by (cases c; cases d) (simp add: holds_def loadRedisConfig_def redis_vars_def redis_expressible_def env_texts)

lemma loadQueueConfig_vars:
  "holds env (queue_vars ftext c) \<Longrightarrow> queue_expressible ftext c \<Longrightarrow> loadQueueConfig env d = c"
  by (cases c; cases d) (simp add: holds_def loadQueueConfig_def queue_vars_def queue_expressible_def env_texts)

lemma loadPostgresConfig_vars:
  "holds env (postgres_vars ftext c) \<Longrightarrow> postgres_expressible ftext c \<Longrightarrow> loadPostgresConfig env d = c"
  by (cases c; cases d) (simp add: holds_def loadPostgresConfig_def postgres_vars_def postgres_expressible_def env_texts)

lemma loadObservabilityConfig_vars:
  "holds env (observability_vars ftext c) \<Longrightarrow> observability_expressible ftext c \<Longrightarrow> loadObservabilityConfig env d = c"
  by (cases c; cases d) (simp add: holds_def loadObservabilityConfig_def observability_vars_def observability_expressible_def env_texts)

lemma loadRegistryConfig_vars:
  "holds env (registry_vars ftext c) \<Longrightarrow> registry_expressible ftext c \<Longrightarrow> loadRegistryConfig env d = c"
  by (cases c; cases d) (simp add: holds_def loadRegistryConfig_def registry_vars_def registry_expressible_def env_texts)

definition config_vars :: "(float64 \<Rightarrow> string) \<Rightarrow> Config \<Rightarrow> (string \<times> string) list" where
  "config_vars ftext c = (''ENVIRONMENT'', c_Environment c)
     # ingestion_vars ftext (c_Ingestion c) @ worker_vars ftext (c_Worker c) @ server_vars ftext (c_Server c)
     @ redis_vars ftext (c_Redis c) @ queue_vars ftext (c_Queue c) @ postgres_vars ftext (c_Postgres c)
     @ observability_vars ftext (c_Observability c) @ registry_vars ftext (c_Registry c)
     @ throttler_vars ftext (c_Throttler c)"

definition config_expressible :: "(float64 \<Rightarrow> string) \<Rightarrow> Config \<Rightarrow> bool" where
  "config_expressible ftext c \<longleftrightarrow> c_Environment c \<noteq> '''' \<and>
     ingestion_expressible ftext (c_Ingestion c) \<and> worker_expressible ftext (c_Worker c) \<and>
     server_expressible ftext (c_Server c) \<and> redis_expressible ftext (c_Redis c) \<and>
     queue_expressible ftext (c_Queue c) \<and> postgres_expressible ftext (c_Postgres c) \<and>
     observability_expressible ftext (c_Observability c) \<and> registry_expressible ftext (c_Registry c) \<and>
     throttler_expressible ftext (c_Throttler c)"

lemmas section_vars = ingestion_vars_def worker_vars_def server_vars_def redis_vars_def queue_vars_def
  postgres_vars_def observability_vars_def registry_vars_def throttler_vars_def

lemmas section_expressible = ingestion_expressible_def worker_expressible_def server_expressible_def
  redis_expressible_def queue_expressible_def postgres_expressible_def observability_expressible_def
  registry_expressible_def throttler_expressible_def

text \<open>No variable is read for two fields.\<close>

definition variable_names :: "string list" where
  "variable_names = map fst (config_vars (\<lambda>_. '''') GetDefaults)"

lemma variable_names_eq: "map fst (config_vars ftext c) = variable_names"
  by (simp add: variable_names_def config_vars_def section_vars)

lemma variable_names_distinct: "distinct variable_names"
  by (simp only: variable_names_def config_vars_def section_vars list.map fst_conv append_Cons append_Nil) code_simp

lemma holds_map_of:
  "distinct (map fst vs) \<Longrightarrow> holds (\<lambda>k. case map_of vs k of Some t \<Rightarrow> t | None \<Rightarrow> '''') vs"
  by (auto simp: holds_def list_all_iff)

lemma load_sections_vars:
  assumes "config_expressible ftext cfg" "holds env (config_vars ftext cfg)"
  shows "load_sections env = cfg"
proof -
  have d: "rc_Password (c_Redis GetDefaults) = ''''" by (simp add: GetDefaults_def)
  have h: "env ''ENVIRONMENT'' = c_Environment cfg"
    "holds env (ingestion_vars ftext (c_Ingestion cfg))" "holds env (worker_vars ftext (c_Worker cfg))"
    "holds env (server_vars ftext (c_Server cfg))" "holds env (redis_vars ftext (c_Redis cfg))"
    "holds env (queue_vars ftext (c_Queue cfg))" "holds env (postgres_vars ftext (c_Postgres cfg))"
    "holds env (observability_vars ftext (c_Observability cfg))" "holds env (registry_vars ftext (c_Registry cfg))"
    "holds env (throttler_vars ftext (c_Throttler cfg))"
    using assms(2) by (simp_all add: holds_def config_vars_def)
  show ?thesis using assms(1)
    by (simp add: load_sections_def config_expressible_def loadIngestionConfig_vars [OF h(2)]
        loadWorkerConfig_vars [OF h(3)] loadServerConfig_vars [OF h(4)] loadRedisConfig_vars [OF h(5) _ d]
        loadQueueConfig_vars [OF h(6)] loadPostgresConfig_vars [OF h(7)] loadObservabilityConfig_vars [OF h(8)]
        loadRegistryConfig_vars [OF h(9)] loadThrottlerConfig_vars [OF h(10)] h(1) env_texts(1))
qed

text \<open>
  C39: Every valid configuration can be reached from the environment, and each variable sets its own
  field and no other: when the fields of \<open>cfg\<close> are representable (numbers fit 64 bits, strings are
  not empty where the default is not), there is an environment that holds the text of every field
  under the name of its variable, and \<open>Load\<close> in any such environment returns exactly \<open>cfg\<close>.
\<close>

theorem Load_expresses:
  assumes "Validate cfg = None" "config_expressible ftext cfg"
  shows "(\<exists>env. holds env (config_vars ftext cfg)) \<and>
         (\<forall>env. holds env (config_vars ftext cfg) \<longrightarrow> Load env = Ok cfg)"
proof -
  have "distinct (map fst (config_vars ftext cfg))"
    by (simp only: variable_names_eq variable_names_distinct)
  then have "\<exists>env. holds env (config_vars ftext cfg)" using holds_map_of by blast
  moreover have "Load env = Ok cfg" if "holds env (config_vars ftext cfg)" for env
    using load_sections_vars [OF assms(2) that] assms(1) by (simp add: Load_def)
  ultimately show ?thesis by blast
qed

text \<open>Instance: three workers on the second of four partitions, tracing everything.\<close>

definition demo_config :: Config where
  "demo_config = GetDefaults
     \<lparr>c_Worker := DefaultWorker\<lparr>w_Concurrency := 3\<rparr>,
      c_Queue := DefaultQueue\<lparr>q_PartitionCount := 4, q_PartitionID := 1\<rparr>,
      c_Observability := (c_Observability GetDefaults)\<lparr>o_TracingSampleRate := Fin 1\<rparr>\<rparr>"

definition demo_ftext :: "float64 \<Rightarrow> string" where
  "demo_ftext x = (if x = Fin 1 then ''1'' else if x = Fin (3 / 2) then ''1.5'' else ''1e2'')"

lemma demo_floats: "float_text demo_ftext (Fin 1)" "float_text demo_ftext (Fin (3 / 2))" "float_text demo_ftext (Fin 100)"
  by code_simp+

lemma demo_config_valid: "Validate demo_config = None"
  using Validate_GetDefaults
  by (simp add: demo_config_def cfg_defs DefaultQueue_def DefaultWorker_def DefaultWorkerBatchSize_def
      validateObservability_def GetDefaults_def del: ToLower.simps)

lemma demo_config_expressible: "config_expressible demo_ftext demo_config"
  by (simp add: demo_config_def config_expressible_def section_expressible GetDefaults_def DefaultQueue_def
      DefaultWorker_def DefaultWorkerBatchSize_def DefaultThrottler_def DefaultRegistry_def in64_def demo_floats)

theorem Load_expresses_witness:
  "Validate demo_config = None \<and> config_expressible demo_ftext demo_config \<and>
   (\<exists>env. holds env (config_vars demo_ftext demo_config) \<and> Load env = Ok demo_config)"
  using Load_expresses [OF demo_config_valid demo_config_expressible] demo_config_valid demo_config_expressible by blast

section \<open>The variables THROTTLER_*\<close>

definition agree_outside :: "string \<Rightarrow> environment \<Rightarrow> environment \<Rightarrow> bool" where
  "agree_outside p env env' \<longleftrightarrow> (\<forall>k. \<not> HasPrefix k p \<longrightarrow> env' k = env k)"

lemma helpers_outside:
  assumes "agree_outside p env env'" "\<not> HasPrefix k p"
  shows "GetEnv env' k s = GetEnv env k s" "GetIntEnv env' k i = GetIntEnv env k i"
    "GetInt64Env env' k i = GetInt64Env env k i" "GetBoolEnv env' k b = GetBoolEnv env k b"
    "GetFloat64Env env' k x = GetFloat64Env env k x" "GetDurationEnv env' k i = GetDurationEnv env k i"
  using assms by (simp_all add: agree_outside_def GetEnv_def GetIntEnv_def GetInt64Env_def GetBoolEnv_def
      GetFloat64Env_def GetDurationEnv_def)

lemma load_sections_outside:
  assumes "agree_outside ''THROTTLER_'' env env'"
  shows "load_sections env' = (load_sections env)\<lparr>c_Throttler := loadThrottlerConfig env' DefaultThrottler\<rparr>"
  by (simp add: load_sections_def helpers_outside [OF assms] loadIngestionConfig_def loadWorkerConfig_def
      loadServerConfig_def loadRedisConfig_def loadQueueConfig_def loadPostgresConfig_def
      loadObservabilityConfig_def loadRegistryConfig_def GetDefaults_def)

text \<open>
  C40: The variables \<open>THROTTLER_*\<close> change nothing but the top level section \<open>Throttler\<close>, which neither the
  validator nor a service reads (the throttler is built from \<open>cfg.Ingestion.Throttler\<close>): two
  environments that differ only there are accepted or rejected alike, with the same error, and
  give configurations that agree on everything else.
\<close>

theorem throttler_variables_unused:
  assumes "agree_outside ''THROTTLER_'' env env'"
  shows "(\<forall>cfg. Load env = Ok cfg \<longrightarrow>
            Load env' = Ok (cfg\<lparr>c_Throttler := loadThrottlerConfig env' DefaultThrottler\<rparr>)) \<and>
         (\<forall>e. Load env = Err e \<longrightarrow> Load env' = Err e)"
  using load_sections_outside [OF assms]
  by (auto simp: Load_def Validate_def Let_def split: option.splits)

lemma empty_env: "load_sections (\<lambda>_. '''') = GetDefaults"
  by (simp add: load_sections_def loadIngestionConfig_def loadWorkerConfig_def loadServerConfig_def
      loadRedisConfig_def loadQueueConfig_def loadPostgresConfig_def loadObservabilityConfig_def
      loadRegistryConfig_def loadThrottlerConfig_def GetEnv_def GetIntEnv_def GetInt64Env_def GetBoolEnv_def
      GetFloat64Env_def GetDurationEnv_def)

theorem throttler_variables_unused_witness:
  "\<exists>cfg. Load ((\<lambda>_. '''')(''THROTTLER_SOFT_DEPTH_LIMIT'' := ''-5'')) = Ok cfg \<and>
     t_SoftDepthLimit (c_Throttler cfg) = -5 \<and> t_SoftDepthLimit (i_Throttler (c_Ingestion cfg)) = 100"
proof -
  let ?env = "(\<lambda>_. '''')(''THROTTLER_SOFT_DEPTH_LIMIT'' := ''-5'')"
  have "Load (\<lambda>_. '''') = Ok GetDefaults" by (simp add: Load_def empty_env Validate_GetDefaults)
  moreover have "agree_outside ''THROTTLER_'' (\<lambda>_. '''') ?env" by (simp add: agree_outside_def)
  ultimately have "Load ?env = Ok (GetDefaults\<lparr>c_Throttler := loadThrottlerConfig ?env DefaultThrottler\<rparr>)"
    using throttler_variables_unused by blast
  moreover have "GetInt64Env ?env ''THROTTLER_SOFT_DEPTH_LIMIT'' 100 = -5" by code_simp
  ultimately show ?thesis by (simp add: loadThrottlerConfig_def GetDefaults_def DefaultThrottler_def)
qed

end
