(* ===== verification/Observability.thy ===== *)
theory Observability
  imports Config_Loader Go_Time
begin

text \<open>
  \<open>internal/observability/logger.go\<close>: the structured logger. A logger is what its \<open>slog\<close> handler was built
  with (level, format, source positions) and the attributes that \<open>With\<close> has added; logging returns the
  records that the handler writes. A context is the function from its string keys to values.
\<close>

section \<open>Values, attributes, records\<close>

datatype log_value =
    VString string
  | VInt int64
  | VDuration duration
  | VBool bool
  | VTime gotime
  | VAttr string log_value
  | VNil

type_synonym log_attr = "string \<times> log_value"

text \<open>\<open>slog.Level\<close> is an integer; these are its named values.\<close>

definition LevelDebug :: int64 where "LevelDebug = -4"
definition LevelInfo :: int64 where "LevelInfo = 0"
definition LevelWarn :: int64 where "LevelWarn = 4"
definition LevelError :: int64 where "LevelError = 8"

lemmas log_levels = LevelDebug_def LevelInfo_def LevelWarn_def LevelError_def

datatype log_format = JSONFormat | TextFormat

record Logger =
  lg_level :: int64
  lg_addSource :: bool
  lg_format :: log_format
  lg_attrs :: "log_attr list"
  lg_serviceName :: string

record log_record =
  lr_time :: log_attr
  lr_level :: int64
  lr_msg :: string
  lr_attrs :: "log_attr list"

definition parseLogLevel :: "string \<Rightarrow> int64" where
  "parseLogLevel level =
     (if level = ''debug'' then LevelDebug
      else if level = ''info'' then LevelInfo
      else if level = ''warn'' then LevelWarn
      else if level = ''error'' then LevelError
      else LevelInfo)"

text \<open>\<open>getEnv\<close> of this package is the helper of the configuration loader again.\<close>

definition getEnv :: "environment \<Rightarrow> string \<Rightarrow> string \<Rightarrow> string" where
  "getEnv env key defaultValue = (let value = env key in if value \<noteq> '''' then value else defaultValue)"

text \<open>
  \<open>ReplaceAttr\<close>, applied to every attribute of a record: a time under the key \<open>time\<close> becomes text in the
  layout \<open>time.RFC3339\<close>, which has no fraction of a second.
\<close>

definition replaceAttr :: "log_attr \<Rightarrow> log_attr" where
  "replaceAttr a =
     (case a of
        (k, VTime t) \<Rightarrow> if k = ''time'' then (k, VString (format_rfc3339nano (t\<lparr>tm_nsec := 0\<rparr>))) else a
      | _ \<Rightarrow> a)"

definition NewLogger :: "environment \<Rightarrow> ObservabilityConfig \<Rightarrow> string \<Rightarrow> Logger" where
  "NewLogger env cfg serviceName =
     \<lparr>lg_level = parseLogLevel (o_LogLevel cfg),
      lg_addSource = (parseLogLevel (o_LogLevel cfg) \<le> LevelDebug),
      lg_format = (if o_LogFormat cfg = ''json'' then JSONFormat
                   else if o_LogFormat cfg = ''text'' then TextFormat else JSONFormat),
      lg_attrs = [(''service'', VString serviceName),
                  (''environment'', VString (getEnv env ''ENVIRONMENT'' ''development''))],
      lg_serviceName = serviceName\<rparr>"

section \<open>Logging\<close>

text \<open>\<open>slog\<close>'s \<open>With\<close> for attributes, and a log call at a level: a record below the handler's level is dropped.\<close>

definition add_attrs :: "log_attr list \<Rightarrow> Logger \<Rightarrow> Logger" where
  "add_attrs attrs l = l\<lparr>lg_attrs := lg_attrs l @ attrs\<rparr>"

definition log_at :: "gotime \<Rightarrow> Logger \<Rightarrow> int64 \<Rightarrow> string \<Rightarrow> log_attr list \<Rightarrow> log_record list" where
  "log_at now l level msg attrs =
     (if lg_level l \<le> level
      then [\<lparr>lr_time = replaceAttr (''time'', VTime now), lr_level = level, lr_msg = msg, lr_attrs = map replaceAttr (lg_attrs l @ attrs)\<rparr>]
      else [])"

text \<open>The arguments of \<open>With\<close>: attributes, or keys and values in turn, as \<open>slog.argsToAttr\<close> pairs them.\<close>

datatype log_arg = ArgAttr log_attr | ArgValue log_value

fun args_to_attrs :: "log_arg list \<Rightarrow> log_attr list" where
  "args_to_attrs [] = []"
| "args_to_attrs (ArgAttr a # args) = a # args_to_attrs args"
| "args_to_attrs [ArgValue (VString s)] = [(''!BADKEY'', VString s)]"
| "args_to_attrs (ArgValue (VString s) # ArgValue v # args) = (s, v) # args_to_attrs args"
| "args_to_attrs (ArgValue (VString s) # ArgAttr a # args) = (s, VAttr (fst a) (snd a)) # args_to_attrs args"
| "args_to_attrs (ArgValue v # args) = (''!BADKEY'', v) # args_to_attrs args"

definition With :: "Logger \<Rightarrow> log_arg list \<Rightarrow> Logger" where
  "With l args = add_attrs (args_to_attrs args) l"

definition WithError :: "Logger \<Rightarrow> goerror option \<Rightarrow> Logger" where
  "WithError l err = (case err of None \<Rightarrow> l | Some e \<Rightarrow> add_attrs [(''error'', VString (Error e))] l)"

text \<open>The flds of a map arrive in the order in which \<open>range\<close> happens to visit it.\<close>

definition WithFields :: "Logger \<Rightarrow> (string \<times> log_value) list \<Rightarrow> Logger" where
  "WithFields l flds = add_attrs (args_to_attrs (map ArgAttr flds)) l"

text \<open>The values of a context: \<open>ctx.Value(key)\<close>, of any type; only non-empty strings are used.\<close>

definition RequestIDKey :: string where "RequestIDKey = ''request_id''"
definition TraceIDKey :: string where "TraceIDKey = ''trace_id''"
definition UserIDKey :: string where "UserIDKey = ''user_id''"

definition context_attr :: "(string \<Rightarrow> log_value) \<Rightarrow> string \<Rightarrow> string \<Rightarrow> Logger \<Rightarrow> Logger" where
  "context_attr values key name l =
     (case values key of
        VString s \<Rightarrow> if s \<noteq> '''' then add_attrs [(name, VString s)] l else l
      | _ \<Rightarrow> l)"

definition WithContext :: "Logger \<Rightarrow> (string \<Rightarrow> log_value) \<Rightarrow> Logger" where
  "WithContext l values =
     context_attr values UserIDKey ''user_id''
       (context_attr values TraceIDKey ''trace_id''
         (context_attr values RequestIDKey ''request_id'' l))"

section \<open>The log messages of the pipeline\<close>

definition LogHTTPRequest :: "gotime \<Rightarrow> Logger \<Rightarrow> string \<Rightarrow> string \<Rightarrow> int64 \<Rightarrow> duration \<Rightarrow> int64 \<Rightarrow> log_record list" where
  "LogHTTPRequest now l req_method path statusCode d bytes =
     log_at now l LevelInfo ''http request''
       [(''method'', VString req_method), (''path'', VString path), (''status'', VInt statusCode),
        (''duration'', VDuration d), (''size'', VInt bytes)]"

definition LogHTTPError :: "gotime \<Rightarrow> Logger \<Rightarrow> string \<Rightarrow> string \<Rightarrow> int64 \<Rightarrow> goerror option \<Rightarrow> log_record list go" where
  "LogHTTPError now l req_method path statusCode err =
     (case err of
        None \<Rightarrow> Panic
      | Some e \<Rightarrow> Ok (log_at now l LevelError ''http error''
          [(''method'', VString req_method), (''path'', VString path), (''status'', VInt statusCode),
           (''error'', VString (Error e))]))"

definition LogQueueEnqueue :: "gotime \<Rightarrow> Logger \<Rightarrow> string \<Rightarrow> string \<Rightarrow> int64 \<Rightarrow> log_record list" where
  "LogQueueEnqueue now l streamName messageID payloadSize =
     log_at now l LevelDebug ''enqueued message''
       [(''stream'', VString streamName), (''message_id'', VString messageID), (''payload_size'', VInt payloadSize)]"

definition LogQueueDequeue :: "gotime \<Rightarrow> Logger \<Rightarrow> string \<Rightarrow> string \<Rightarrow> string \<Rightarrow> int64 \<Rightarrow> log_record list" where
  "LogQueueDequeue now l streamName messageID jobID retryCount =
     log_at now l LevelDebug ''dequeued message''
       [(''stream'', VString streamName), (''message_id'', VString messageID), (''job_id'', VString jobID),
        (''retry_count'', VInt retryCount)]"

definition operation_error :: "gotime \<Rightarrow> Logger \<Rightarrow> string \<Rightarrow> string \<Rightarrow> goerror option \<Rightarrow> log_record list go" where
  "operation_error now l msg operation err =
     (case err of
        None \<Rightarrow> Panic
      | Some e \<Rightarrow> Ok (log_at now l LevelError msg [(''operation'', VString operation), (''error'', VString (Error e))]))"

definition LogQueueError :: "gotime \<Rightarrow> Logger \<Rightarrow> string \<Rightarrow> goerror option \<Rightarrow> log_record list go" where
  "LogQueueError now l operation err = operation_error now l ''queue error'' operation err"

definition LogDBQuery :: "gotime \<Rightarrow> Logger \<Rightarrow> string \<Rightarrow> duration \<Rightarrow> int64 \<Rightarrow> log_record list" where
  "LogDBQuery now l query d rowsAffected =
     log_at now l LevelDebug ''db query''
       [(''query'', VString query), (''duration'', VDuration d), (''rows_affected'', VInt rowsAffected)]"

definition LogDBError :: "gotime \<Rightarrow> Logger \<Rightarrow> string \<Rightarrow> goerror option \<Rightarrow> log_record list go" where
  "LogDBError now l operation err = operation_error now l ''db error'' operation err"

section \<open>Facts\<close>

lemma args_to_attrs_fields [simp]: "args_to_attrs (map ArgAttr flds) = flds"
  by (induction flds) auto

lemma add_attrs_simps [simp]:
  "lg_level (add_attrs as l) = lg_level l" "lg_serviceName (add_attrs as l) = lg_serviceName l"
  "lg_attrs (add_attrs as l) = lg_attrs l @ as" "lg_format (add_attrs as l) = lg_format l"
  by (simp_all add: add_attrs_def)

text \<open>Derived loggers keep the attributes, level and format of the logger they come from.\<close>

definition extends :: "Logger \<Rightarrow> Logger \<Rightarrow> bool" where
  "extends l l' \<longleftrightarrow> (\<exists>as. l' = add_attrs as l)"

lemma extends_refl [intro]: "extends l l"
  by (simp add: extends_def exI [of _ "[]"] add_attrs_def)

lemma extends_add [intro]: "extends l l' \<Longrightarrow> extends l (add_attrs as l')"
  by (auto simp: extends_def add_attrs_def intro: exI [of _ "_ @ _"])

lemma derived_loggers_extend:
  "extends l (With l args)" "extends l (WithError l err)" "extends l (WithFields l flds)" "extends l (WithContext l values)"
  by (auto simp: With_def WithError_def WithFields_def WithContext_def context_attr_def split: option.split log_value.split)

lemma log_at_extends:
  assumes "extends l l'" "r \<in> set (log_at now l' level msg as)"
  shows "map replaceAttr (lg_attrs l) = take (length (lg_attrs l)) (lr_attrs r)"
  using assms by (auto simp: log_at_def extends_def split: if_splits)

lemma valid_level_cases:
  assumes "validateObservability cfg = None"
  shows "ToLower (o_LogLevel cfg) \<in> {''debug'', ''info'', ''warn'', ''error''}"
  using assms by (auto simp: validateObservability_def contains_iff validLogLevels_def)

lemma parseLogLevel_other: "level \<notin> {''debug'', ''info'', ''warn'', ''error''} \<Longrightarrow> parseLogLevel level = LevelInfo"
  by (simp add: parseLogLevel_def)

lemma level_words: "ToLower ''debug'' = ''debug''" "ToLower ''info'' = ''info''" "ToLower ''warn'' = ''warn''" "ToLower ''error'' = ''error''"
  by code_simp+

lemma parseLogLevel_case:
  assumes "validateObservability cfg = None"
  shows "parseLogLevel (o_LogLevel cfg) =
    (if o_LogLevel cfg = ToLower (o_LogLevel cfg) then parseLogLevel (ToLower (o_LogLevel cfg)) else LevelInfo)"
proof (cases "o_LogLevel cfg = ToLower (o_LogLevel cfg)")
  case False
  have "ToLower w = w" if "w \<in> {''debug'', ''info'', ''warn'', ''error''}" for w
    using that level_words by (elim insertE emptyE) (simp_all only:)
  with False have "o_LogLevel cfg \<notin> {''debug'', ''info'', ''warn'', ''error''}" by metis
  with False parseLogLevel_other show ?thesis by simp
qed simp

lemma NewLogger_attrs:
  assumes "extends (NewLogger env cfg svc) l" "r \<in> set (log_at now l level msg as)"
  shows "take 2 (lr_attrs r) = [(''service'', VString svc), (''environment'', VString (getEnv env ''ENVIRONMENT'' ''development''))]"
  using log_at_extends [OF assms] by (simp add: NewLogger_def replaceAttr_def numeral_2_eq_2)

text \<open>
  Which records a logger writes: every logger derived from \<open>NewLogger\<close> writes exactly the records at or
  above its level, and each of them carries the service name and the environment first. The level is the one the
  configuration names when the word is in lower case; the validator also accepts other spellings
  (\<open>DEBUG\<close>, \<open>Error\<close>), but those all mean \<open>info\<close>.
\<close>

theorem logger_levels:
  assumes "validateObservability cfg = None" "extends (NewLogger env cfg svc) l"
  shows "(log_at now l level msg as \<noteq> [] \<longleftrightarrow>
           (if o_LogLevel cfg = ToLower (o_LogLevel cfg) then parseLogLevel (ToLower (o_LogLevel cfg)) else LevelInfo) \<le> level) \<and>
         (\<forall>r\<in>set (log_at now l level msg as).
            take 2 (lr_attrs r) = [(''service'', VString svc), (''environment'', VString (getEnv env ''ENVIRONMENT'' ''development''))])"
proof -
  have "lg_level l = parseLogLevel (o_LogLevel cfg)"
    using assms(2) by (auto simp: extends_def NewLogger_def)
  then have "log_at now l level msg as \<noteq> [] \<longleftrightarrow> parseLogLevel (o_LogLevel cfg) \<le> level" by (simp add: log_at_def)
  then show ?thesis
    unfolding parseLogLevel_case [OF assms(1)] using NewLogger_attrs [OF assms(2)] by blast
qed

definition upper_debug :: ObservabilityConfig where
  "upper_debug = (c_Observability GetDefaults)\<lparr>o_LogLevel := ''DEBUG''\<rparr>"

lemma upper_debug_valid: "validateObservability upper_debug = None"
proof -
  have "ToLower ''DEBUG'' = ''debug''" by code_simp
  then show ?thesis
    by (simp add: upper_debug_def validateObservability_def GetDefaults_def port_errors_def default_texts contains_iff
        validLogLevels_def validLogFormats_def del: ToLower.simps)
qed

theorem logger_levels_witness:
  "validateObservability upper_debug = None \<and>
   LogQueueEnqueue zero_time (WithError (NewLogger (\<lambda>_. '''') upper_debug ''worker'') None) ''logs:0'' ''1-0'' 7 = []"
proof -
  let ?l = "WithError (NewLogger (\<lambda>_. '''') upper_debug ''worker'') None"
  have "ToLower ''DEBUG'' \<noteq> ''DEBUG''" by code_simp
  then have "o_LogLevel upper_debug \<noteq> ToLower (o_LogLevel upper_debug)" by (simp add: upper_debug_def del: ToLower.simps)
  then have "log_at zero_time ?l LevelDebug msg as = []" for msg as
    using logger_levels [OF upper_debug_valid derived_loggers_extend(2), of zero_time _ _ _ LevelDebug] by (simp add: log_levels)
  then show ?thesis by (simp add: upper_debug_valid LogQueueEnqueue_def)
qed

end
