(* ===== verification/Bootstrap.thy ===== *)
theory Bootstrap
  imports Worker_Shutdown Throttler_Lifecycle Control_Plane Ingestion_Server Config_Loader Observability
begin

text \<open>
  \<open>internal/bootstrap\<close>: the construction of the components from the configuration, with the partition streams and
  consumer groups that the workers create at startup.
\<close>

section \<open>Clients\<close>

text \<open>\<open>redis.Options\<close>; \<open>connect\<close> is \<open>redis.NewClient\<close>, which returns the client of a server.\<close>

record redis_options =
  ro_Addr :: string
  ro_Password :: string
  ro_DB :: int64
  ro_PoolSize :: int64
  ro_MinIdleConns :: int64

definition SetupRedis :: "(redis_options \<Rightarrow> 's redis_client) \<Rightarrow> ctx \<Rightarrow> Config \<Rightarrow> ('s, 's redis_client) act" where
  "SetupRedis connect c cfg s =
     (let client = connect \<lparr>ro_Addr = RedisAddr cfg, ro_Password = rc_Password (c_Redis cfg), ro_DB = rc_DB (c_Redis cfg),
                            ro_PoolSize = rc_PoolSize (c_Redis cfg), ro_MinIdleConns = rc_MinIdleConns (c_Redis cfg)\<rparr>
      in case Ping client c s of
           (Inl e, s') \<Rightarrow> (Err (Wrap ''redis connection failed: '' e), s')
         | (Inr _, s') \<Rightarrow> (Ok client, s'))"

section \<open>Partitions\<close>

text \<open>The loop over the partitions from \<open>i\<close> on; \<open>cx j\<close> is the context at the \<open>j\<close>-th partition.\<close>

function SetupPartitions_loop :: "'s redis_client \<Rightarrow> (nat \<Rightarrow> ctx) \<Rightarrow> QueueConfig \<Rightarrow> int64 \<Rightarrow> ('s, unit) act" where
  "SetupPartitions_loop R cx q i s =
     (if i < q_PartitionCount q then
        (let streamName = PartitionStreamName (q_BaseStreamName q) i;
             groupName = PartitionGroupName (q_BaseConsumerGroup q) i
         in case XGroupCreateMkStream R (cx (nat i)) streamName groupName ''0'' s of
              (Inl err, s') \<Rightarrow>
                (if \<not> Contains (Error err) ''BUSYGROUP''
                 then (Err (Wrap (''failed to create partition '' @ itoa i @ '' (stream='' @ streamName
                              @ '' group='' @ groupName @ ''): '') err), s')
                 else SetupPartitions_loop R cx q (i + 1) s')
            | (Inr _, s') \<Rightarrow> SetupPartitions_loop R cx q (i + 1) s')
      else (Ok (), s))"
  by pat_completeness auto
termination by (relation "measure (\<lambda>(R, cx, q, i, s). nat (q_PartitionCount q - i))") auto

declare SetupPartitions_loop.simps [simp del]

definition SetupPartitions :: "'s redis_client \<Rightarrow> (nat \<Rightarrow> ctx) \<Rightarrow> Config \<Rightarrow> ('s, unit) act" where
  "SetupPartitions R cx cfg s = SetupPartitions_loop R cx (c_Queue cfg) 0 s"

section \<open>Components\<close>

definition SetupDLQ :: "Config \<Rightarrow> DLQ" where
  "SetupDLQ cfg = NewDLQ (q_DLQStreamName (c_Queue cfg)) (q_DLQMaxLen (c_Queue cfg))"

definition SetupConsumer :: "DLQ option \<Rightarrow> Config \<Rightarrow> string \<Rightarrow> Consumer go" where
  "SetupConsumer dlq cfg workerID =
     (let streamName = PartitionStreamName (q_BaseStreamName (c_Queue cfg)) (q_PartitionID (c_Queue cfg));
          groupName = PartitionGroupName (q_BaseConsumerGroup (c_Queue cfg)) (q_PartitionID (c_Queue cfg))
      in Ok (NewConsumer streamName groupName workerID dlq))"

definition SetupProducer :: "Config \<Rightarrow> Producer" where
  "SetupProducer cfg = NewProducer (c_Queue cfg)"

text \<open>\<open>NewRegistry\<close> only keeps the client and the configuration.\<close>

definition SetupRegistry :: "Config \<Rightarrow> Registry" where
  "SetupRegistry cfg = NewRegistry (c_Registry cfg)"

definition SetupControlPlane :: "Registry \<Rightarrow> Config \<Rightarrow> string \<Rightarrow> int64 \<Rightarrow> ControlPlane" where
  "SetupControlPlane reg cfg hostname pid = NewControlPlane reg (c_Registry cfg) hostname pid"

definition SetupHealthChecks :: "'s redis_client \<Rightarrow> Config \<Rightarrow> ctx \<Rightarrow> bool \<Rightarrow> duration \<Rightarrow> 's Aggregator" where
  "SetupHealthChecks R cfg c late d =
     Aggregator_Register (NewAggregator (o_HealthCheckTimeout (c_Observability cfg))) 
       (redis_HealthChecker (NewRedisChecker R) c late d)"

text \<open>
  \<open>SetupConsumer\<close> returns an interface; after an error, which it never reports, the interface variable is set to nil.
\<close>

definition SetupThrottler :: "ctx \<Rightarrow> Producer \<Rightarrow> DLQ option \<Rightarrow> Config \<Rightarrow> string \<Rightarrow> int64 \<Rightarrow> 's \<Rightarrow> 's ThrottlerInterface" where
  "SetupThrottler c producer dlq cfg hostname pid s =
     (if \<not> t_Enabled (i_Throttler (c_Ingestion cfg)) then NoopThrottler
      else let throttlerConsumerID = ''throttler-'' @ hostname @ ''-'' @ itoa pid;
               consumer = (case SetupConsumer dlq cfg throttlerConsumerID of Ok co \<Rightarrow> ConsumerPtr (Some co) | _ \<Rightarrow> NilInterface)
           in case NewThrottler producer consumer (i_Throttler (c_Ingestion cfg)) of
                (throttler, metrics) \<Rightarrow>
                  AdaptiveThrottler throttler (Throttler_Start throttler c (throttler_init metrics s)))"

section \<open>Partitions are ready\<close>

text \<open>What creating groups may change: existing groups stay as they are, new ones start at the beginning of their stream.\<close>

definition groups_extended :: "stream_db \<Rightarrow> stream_db \<Rightarrow> bool" where
  "groups_extended d d' \<longleftrightarrow> ents d' = ents d \<and>
     (\<forall>k g. grp d k g \<longrightarrow> grp d' k g \<and> fresh d' k g = fresh d k g \<and> pend d' k g = pend d k g) \<and>
     (\<forall>k g. \<not> grp d k g \<and> grp d' k g \<longrightarrow> fresh d' k g = ents d k \<and> pend d' k g = [])"

lemma groups_extended_refl [simp]: "groups_extended d d"
  by (simp add: groups_extended_def)

lemma groups_extended_trans: "groups_extended d1 d2 \<Longrightarrow> groups_extended d2 d3 \<Longrightarrow> groups_extended d1 d3"
  unfolding groups_extended_def by (intro conjI allI impI) metis+

lemma groups_extended_group: "\<not> grp d k g \<Longrightarrow> groups_extended d (db_group k g d)"
  by (auto simp: groups_extended_def db_group_def)

lemma groups_extended_grp: "groups_extended d d' \<Longrightarrow> grp d k g \<Longrightarrow> grp d' k g"
  by (simp add: groups_extended_def)

abbreviation partition_group :: "QueueConfig \<Rightarrow> stream_db \<Rightarrow> int64 \<Rightarrow> bool" where
  "partition_group q d i \<equiv> grp d (PartitionStreamName (q_BaseStreamName q) i) (PartitionGroupName (q_BaseConsumerGroup q) i)"

context redis_streams
begin

lemma xgroup_extends:
  assumes "invar s" "XGroupCreateMkStream R c k g ''0'' s = (x, s')"
  shows "invar s' \<and> groups_extended (db s) (db s') \<and>
         (case x of Inr _ \<Rightarrow> grp (db s') k g | Inl e \<Rightarrow> Contains (Error e) ''BUSYGROUP'' \<longrightarrow> grp (db s') k g)"
proof (cases x)
  case (Inl e)
  with xgroup_err [OF assms(1)] assms(2) groups_extended_group show ?thesis by fastforce
next
  case (Inr u)
  with xgroup_ok [OF assms(1)] assms(2) groups_extended_group show ?thesis by (fastforce simp: db_group_def)
qed

lemma SetupPartitions_loop_spec:
  assumes "invar s" "SetupPartitions_loop R cx q i s = (r, s')"
  shows "invar s' \<and> groups_extended (db s) (db s') \<and> r \<noteq> Panic \<and>
         (r = Ok () \<longrightarrow> (\<forall>j. i \<le> j \<and> j < q_PartitionCount q \<longrightarrow> partition_group q (db s') j))"
  using assms
proof (induction "nat (q_PartitionCount q - i)" arbitrary: i s rule: less_induct)
  case less
  show ?case
  proof (cases "i < q_PartitionCount q")
    case False
    with less(2,3) show ?thesis by (subst (asm) SetupPartitions_loop.simps) auto
  next
    case True
    let ?k = "PartitionStreamName (q_BaseStreamName q) i" and ?g = "PartitionGroupName (q_BaseConsumerGroup q) i"
    obtain x s1 where x: "XGroupCreateMkStream R (cx (nat i)) ?k ?g ''0'' s = (x, s1)" by fastforce
    note one = xgroup_extends [OF less(2) x]
    show ?thesis
    proof (cases "\<exists>e. x = Inl e \<and> \<not> Contains (Error e) ''BUSYGROUP''")
      case stop: True
      then have "s' = s1" "r \<noteq> Ok ()" "r \<noteq> Panic" using less(3) x True
        by (subst (asm) SetupPartitions_loop.simps; auto simp: Let_def)+
      with one show ?thesis by simp
    next
      case go: False
      then have ready: "partition_group q (db s1) i" using one by (auto split: sum.splits)
      from go less(3) x True have "SetupPartitions_loop R cx q (i + 1) s1 = (r, s')"
        by (subst (asm) SetupPartitions_loop.simps) (auto simp: Let_def split: sum.splits if_splits)
      from less(1) [OF _ conjunct1 [OF one] this] True
      have IH: "invar s'" "groups_extended (db s1) (db s')" "r \<noteq> Panic"
        "\<And>j. \<lbrakk>r = Ok (); i + 1 \<le> j; j < q_PartitionCount q\<rbrakk> \<Longrightarrow> partition_group q (db s') j" by auto
      have "partition_group q (db s') j" if "r = Ok ()" "i \<le> j" "j < q_PartitionCount q" for j
        using IH(4) [OF that(1)] that groups_extended_grp [OF IH(2) ready] by (cases "j = i") auto
      with IH one groups_extended_trans show ?thesis by blast
    qed
  qed
qed

end

text \<open>
  C37: \<open>SetupPartitions\<close> makes the partitions ready and is safe to run at every start of a worker. When it
  reports no error, the consumer group of every partition exists; a group that existed before keeps its position and
  its pending messages; a new group starts at the beginning of its stream, so events that
  arrived before the first worker are delivered; no entry is lost. When it reports an error the same
  holds for what it has done so far.
\<close>

theorem SetupPartitions_ready:
  assumes "redis_streams R db invar rank" and "invar s" and "SetupPartitions R cx cfg s = (r, s')"
  shows "invar s' \<and> r \<noteq> Panic \<and> ents (db s') = ents (db s) \<and>
    (r = Ok () \<longrightarrow> (\<forall>i. 0 \<le> i \<and> i < q_PartitionCount (c_Queue cfg) \<longrightarrow>
       grp (db s') (PartitionStreamName (q_BaseStreamName (c_Queue cfg)) i)
                   (PartitionGroupName (q_BaseConsumerGroup (c_Queue cfg)) i))) \<and>
    (\<forall>k g. grp (db s) k g \<longrightarrow> grp (db s') k g \<and> fresh (db s') k g = fresh (db s) k g \<and> pend (db s') k g = pend (db s) k g) \<and>
    (\<forall>k g. \<not> grp (db s) k g \<and> grp (db s') k g \<longrightarrow> fresh (db s') k g = ents (db s) k \<and> pend (db s') k g = [])"
  using redis_streams.SetupPartitions_loop_spec [OF assms(1,2) assms(3) [unfolded SetupPartitions_def]]
  by (simp add: groups_extended_def)

lemma mem_SetupPartitions_loop:
  assumes "m_faults s = []"
  shows "\<exists>s'. m_faults s' = [] \<and> SetupPartitions_loop memory (\<lambda>_. None) q i s = (Ok (), s')"
  using assms
proof (induction "nat (q_PartitionCount q - i)" arbitrary: i s rule: less_induct)
  case less
  have busy: "Contains (Error (ErrorString ''BUSYGROUP Consumer Group name already exists'')) ''BUSYGROUP''" by code_simp
  show ?case
  proof (cases "i < q_PartitionCount q")
    case True
    let ?k = "PartitionStreamName (q_BaseStreamName q) i" and ?g = "PartitionGroupName (q_BaseConsumerGroup q) i"
    obtain x s1 where x: "XGroupCreateMkStream memory None ?k ?g ''0'' s = (x, s1)" by fastforce
    with less(2) have "m_faults s1 = []"
      and "x = Inr () \<or> x = Inl (ErrorString ''BUSYGROUP Consumer Group name already exists'')"
      by (auto simp: memory_def mem_XGroupCreateMkStream_def split: if_splits)
    with less(1) [of "i + 1" s1] True x busy show ?thesis
      by (subst SetupPartitions_loop.simps) (auto simp: Let_def)
  qed (use less(2) in \<open>simp add: SetupPartitions_loop.simps\<close>)
qed

text \<open>Two starts in a row on an empty server: the second finds both groups.\<close>

theorem SetupPartitions_ready_witness:
  "\<exists>s1 s2. SetupPartitions memory (\<lambda>_. None) GetDefaults (mem_init 0 []) = (Ok (), s1) \<and>
     SetupPartitions memory (\<lambda>_. None) GetDefaults s1 = (Ok (), s2) \<and>
     grp (m_db s2) ''logs:ingest:partition:1'' ''log-workers-1''"
proof -
  obtain s1 where f1: "m_faults s1 = []" and r1: "SetupPartitions memory (\<lambda>_. None) GetDefaults (mem_init 0 []) = (Ok (), s1)"
    using mem_SetupPartitions_loop [of "mem_init 0 []"] by (auto simp: SetupPartitions_def)
  obtain s2 where r2: "SetupPartitions memory (\<lambda>_. None) GetDefaults s1 = (Ok (), s2)"
    using mem_SetupPartitions_loop [OF f1] by (auto simp: SetupPartitions_def)
  have i1: "mem_inv s1" using SetupPartitions_ready [OF mem_streams.redis_streams_axioms mem_inv_init r1] by simp
  have "PartitionStreamName ''logs:ingest'' 1 = ''logs:ingest:partition:1''" "PartitionGroupName ''log-workers'' 1 = ''log-workers-1''"
    by code_simp+
  then have "grp (m_db s2) ''logs:ingest:partition:1'' ''log-workers-1''"
    using SetupPartitions_ready [OF mem_streams.redis_streams_axioms i1 r2, THEN conjunct2, THEN conjunct2, THEN conjunct2,
        THEN conjunct1, rule_format, of 1] by (simp add: GetDefaults_def DefaultQueue_def)
  with r1 r2 show ?thesis by blast
qed

end
