(* ===== verification/Services.thy ===== *)
theory Services
  imports Bootstrap
begin

text \<open>
  The three programs under \<open>cmd\<close>: \<open>run\<close> and \<open>main\<close> of the worker, of the ingestion service and of the control plane.
  What happens while a program serves is an argument (a \<open>session\<close>, or the list of events for the control plane): the
  goroutines of the worker are the step relation of \<open>Worker_Concurrency\<close>, the handlers are those of
  \<open>Ingestion\<close>.
\<close>

section \<open>The exit status\<close>

text \<open>\<open>main\<close>: an error is printed and the status is 1; a panic that is not recovered ends a Go program with status 2.\<close>

definition exit_status :: "unit go \<Rightarrow> int64" where
  "exit_status r = (case r of Ok _ \<Rightarrow> 0 | Err _ \<Rightarrow> 1 | Panic \<Rightarrow> 2)"

definition stderr_text :: "unit go \<Rightarrow> string" where
  "stderr_text r = (case r of Err e \<Rightarrow> ''error: '' @ Error e @ [CHR 0x0A] | _ \<Rightarrow> '''')"

section \<open>The worker (cmd/worker/main.go)\<close>

text \<open>
  \<open>job\<close> gives for each job how its context ends, the context of the duplicate check and the counter of duplicates.
\<close>

definition worker_processor ::
  "'s redis_client \<Rightarrow> Config \<Rightarrow> (JobEnvelope \<Rightarrow> goerror option \<times> ctx \<times> int64) \<Rightarrow> 's processor" where
  "worker_processor R cfg job envelope s =
     (case job envelope of
        (ctxErr, c, dups) \<Rightarrow>
          dedup_processor R (NewDeduplicatingProcessor (DefaultProcessor_Process ctxErr) (w_DedupTTL (c_Worker cfg)))
            c dups envelope s)"

definition worker_id :: "string \<Rightarrow> int64 \<Rightarrow> string" where
  "worker_id hostname pid = ''worker-'' @ hostname @ ''-'' @ itoa pid"

text \<open>
  A session is the call of \<open>wrk.Start(ctx)\<close>: its result, or \<open>Panic\<close> when a goroutine panics, which ends the program and runs no
  deferred call of \<open>run\<close>. The deferred \<open>Deregister\<close> runs with a fresh context, whatever the result. Of the contexts, number 0 is that of
  \<open>SetupRedis\<close>, number 1 that of \<open>Register\<close>, the others are those of the partitions. \<open>check\<close> is the fate of the health check and
  the order of the checks.
\<close>

type_synonym 's worker_session = "'s redis_client \<Rightarrow> 's Worker \<Rightarrow> ('s, unit) act"

type_synonym check_fate = "ctx \<times> bool \<times> duration"

definition worker_run ::
  "environment \<Rightarrow> (redis_options \<Rightarrow> 's redis_client) \<Rightarrow> string \<Rightarrow> int64 \<Rightarrow> (nat \<Rightarrow> ctx) \<Rightarrow> int64 \<Rightarrow> check_fate \<Rightarrow> nat list \<Rightarrow>
   (JobEnvelope \<Rightarrow> goerror option \<times> ctx \<times> int64) \<Rightarrow> 's worker_session \<Rightarrow> ('s, unit) act" where
  "worker_run env connect hostname pid cx now check order job session s =
     (case Load env of
        Err e \<Rightarrow> (Err (Wrap ''failed to load config: '' e), s)
      | Panic \<Rightarrow> (Panic, s)
      | Ok cfg \<Rightarrow>
        (let workerID = worker_id hostname pid in
         case SetupRedis connect (cx 0) cfg s of
           (Err e, s1) \<Rightarrow> (Err e, s1)
         | (Panic, s1) \<Rightarrow> (Panic, s1)
         | (Ok redisClient, s1) \<Rightarrow>
           (case SetupPartitions redisClient (\<lambda>j. cx (j + 2)) cfg s1 of
              (Err e, s2) \<Rightarrow> (Err (Wrap ''failed to setup partitions: '' e), s2)
            | (Panic, s2) \<Rightarrow> (Panic, s2)
            | (Ok _, s2) \<Rightarrow>
              (let dlq = SetupDLQ cfg in
               case SetupConsumer (Some dlq) cfg workerID of
                 Err e \<Rightarrow> (Err (Wrap ''failed to setup consumer: '' e), s2)
               | Panic \<Rightarrow> (Panic, s2)
               | Ok consumer \<Rightarrow>
                 (let reg = SetupRegistry cfg in
                  case Register redisClient (cx 1) now workerID s2 of
                    (Some e, s3) \<Rightarrow> (Err (Wrap ''failed to register worker: '' e), s3)
                  | (None, s3) \<Rightarrow>
                    (let healthAgg = (case check of (hc, late, d) \<Rightarrow> SetupHealthChecks redisClient cfg hc late d);
                         healthServer = NewHealthServer cfg healthAgg order;
                         wrk = NewWorker consumer (worker_processor redisClient cfg job) (c_Worker cfg) (c_Registry cfg)
                                 (q_PartitionID (c_Queue cfg)) healthServer workerID reg
                     in case session redisClient wrk s3 of
                          (Panic, s4) \<Rightarrow> (Panic, s4)
                        | (Err e, s4) \<Rightarrow> (Err (Wrap ''worker failed: '' e), snd (Deregister redisClient None workerID s4))
                        | (Ok _, s4) \<Rightarrow> (Ok (), snd (Deregister redisClient None workerID s4))))))))"

text \<open>A session that is a run of the goroutines (\<open>wstep\<close>) up to the return of \<open>Start\<close>, or to a panic.\<close>

definition real_session ::
  "('s \<Rightarrow> stream_db) \<Rightarrow> ('s \<Rightarrow> bool) \<Rightarrow> 'q semaphore \<Rightarrow> 'g errgroup \<Rightarrow> (float64 \<Rightarrow> int64) \<Rightarrow> 's redis_client \<Rightarrow> 's worker_session \<Rightarrow> bool" where
  "real_session db invar S G impl R session \<longleftrightarrow>
     (\<forall>w s r s'. invar s \<and> session R w s = (r, s') \<longrightarrow>
        (\<exists>st. reachable R db invar S G impl w s st \<and> st_redis st = s' \<and>
           (case r of Ok _ \<Rightarrow> st_start st = StartReturned None | Err e \<Rightarrow> st_start st = StartReturned (Some e) | Panic \<Rightarrow> crashed st)))"

section \<open>The ingestion service (cmd/ingestion/main.go)\<close>

text \<open>
  A session of the server is the time until the two deferred calls have returned: the handlers, the updater of the throttler and
  finally \<open>throttler.Stop()\<close>. It gives what \<open>Server.Start\<close> receives and the result that \<open>http.Server.Shutdown\<close> has for each timeout.
\<close>

type_synonym 's server_session =
  "'s redis_client \<Rightarrow> 's ThrottlerInterface \<Rightarrow> 's Server \<Rightarrow> 's \<Rightarrow> (server_event \<times> (duration \<Rightarrow> goerror option)) \<times> 's"

definition ingestion_run ::
  "environment \<Rightarrow> (redis_options \<Rightarrow> 's redis_client) \<Rightarrow> string \<Rightarrow> int64 \<Rightarrow> ctx \<Rightarrow> check_fate \<Rightarrow> 's server_session \<Rightarrow> ('s, unit) act" where
  "ingestion_run env connect hostname pid c check session s =
     (case Load env of
        Err e \<Rightarrow> (Err (Wrap ''failed to load config: '' e), s)
      | Panic \<Rightarrow> (Panic, s)
      | Ok cfg \<Rightarrow>
        (case SetupRedis connect c cfg s of
           (Err e, s1) \<Rightarrow> (Err e, s1)
         | (Panic, s1) \<Rightarrow> (Panic, s1)
         | (Ok redisClient, s1) \<Rightarrow>
           (let producer = SetupProducer cfg;
                dlq = SetupDLQ cfg;
                throttler = SetupThrottler c producer (Some dlq) cfg hostname pid s1;
                healthAgg = (case check of (hc, late, d) \<Rightarrow> SetupHealthChecks redisClient cfg hc late d);
                service = NewService producer cfg;
                server = NewServer redisClient cfg healthAgg service
            in case session redisClient throttler server s1 of
                 ((ev, stop), s2) \<Rightarrow>
                   (case Server_Start server ev stop of
                      Some e \<Rightarrow> Err (Wrap ''server stopped with error: '' e)
                    | None \<Rightarrow> Ok (), s2))))"

section \<open>The control plane (cmd/control_plane/main.go)\<close>

text \<open>The result also says when the events are used up and the program still runs; the number counts the
  reconciliations. Neither \<open>Load\<close> nor \<open>SetupRedis\<close> panics.\<close>

definition control_plane_run ::
  "environment \<Rightarrow> (redis_options \<Rightarrow> 's redis_client) \<Rightarrow> string \<Rightarrow> int64 \<Rightarrow> (nat \<Rightarrow> ctx) \<Rightarrow> (nat \<Rightarrow> int) \<Rightarrow> 's cp_event list \<Rightarrow>
   's \<Rightarrow> (cp_result \<times> nat) \<times> 's" where
  "control_plane_run env connect hostname pid cx nows es s =
     (case Load env of
        Err e \<Rightarrow> ((Returned (Some (Wrap ''failed to load config: '' e)), 0), s)
      | Panic \<Rightarrow> ((Running, 0), s)
      | Ok cfg \<Rightarrow>
        (case SetupRedis connect (cx 0) cfg s of
           (Err e, s1) \<Rightarrow> ((Returned (Some (Wrap ''failed to connect to Redis: '' e)), 0), s1)
         | (Panic, s1) \<Rightarrow> ((Running, 0), s1)
         | (Ok redisClient, s1) \<Rightarrow>
           (let reg = NewRegistry (c_Registry cfg);
                cp = NewControlPlane reg (c_Registry cfg) hostname pid
            in case Start redisClient cp (\<lambda>j. cx (Suc j)) nows es s1 of
              ((Returned (Some e), n), s2) \<Rightarrow> ((Returned (Some (Wrap ''control plane exited with error: '' e)), n), s2)
            | res \<Rightarrow> res)))"

section \<open>Starting and stopping a worker\<close>

lemma Load_Ok_valid: "Load env = Ok cfg \<Longrightarrow> Validate cfg = None"
  by (auto simp: Load_def Let_def split: option.splits)

lemma Load_not_Panic [simp]: "Load env \<noteq> Panic"
  by (auto simp: Load_def Let_def split: option.splits)

lemma SetupRedis_not_Panic [simp]: "SetupRedis connect c cfg s \<noteq> (Panic, s')"
  by (auto simp: SetupRedis_def Let_def split: prod.splits sum.splits)

lemma SetupConsumer_Ok:
  "SetupConsumer dlq cfg wid = Ok (NewConsumer (PartitionStreamName (q_BaseStreamName (c_Queue cfg)) (q_PartitionID (c_Queue cfg)))
      (PartitionGroupName (q_BaseConsumerGroup (c_Queue cfg)) (q_PartitionID (c_Queue cfg))) wid dlq)"
  by (simp add: SetupConsumer_def Let_def)

definition all_backends :: "(redis_options \<Rightarrow> 's redis_client) \<Rightarrow> ('s \<Rightarrow> stream_db) \<Rightarrow> ('s \<Rightarrow> bool) \<Rightarrow>
  ('s \<Rightarrow> string \<Rightarrow> string \<Rightarrow> string \<Rightarrow> nat) \<Rightarrow> ('s \<Rightarrow> int) \<Rightarrow> ('s \<Rightarrow> keyview) \<Rightarrow> ('s \<Rightarrow> hashview) \<Rightarrow> bool" where
  "all_backends connect db invar rank clock kv hv \<longleftrightarrow> (\<forall>opts. redis_backend (connect opts) db invar rank clock kv hv)"

lemma SetupRedis_outcome:
  assumes "all_backends connect db invar rank clock kv hv" "invar s" "SetupRedis connect c cfg s = (r, s')"
  shows "invar s' \<and> db s' = db s \<and> hv s' = hv s \<and>
    (\<forall>R. r = Ok R \<longrightarrow> (\<exists>opts. R = connect opts) \<and> redis_backend R db invar rank clock kv hv)"
proof -
  from assms(3) obtain opts x where x: "Ping (connect opts) c s = (x, s')" and r: "\<forall>R. r = Ok R \<longrightarrow> R = connect opts"
    by (auto simp: SetupRedis_def Let_def split: prod.splits sum.splits)
  have svc: "redis_backend (connect opts) db invar rank clock kv hv" using assms(1) by (simp add: all_backends_def)
  from redis_service.ping_streams [OF redis_backend.axioms(2) [OF svc] assms(2) x] svc r show ?thesis by auto
qed

context redis_service
begin

lemma Register_outcome:
  assumes "invar s" "Register R c now wid s = (r, s')"
  shows "invar s' \<and> db s' = db s \<and> (r = None \<longrightarrow> hv s' (workerKey wid) fieldWorkerID = Some wid)"
proof -
  obtain x where x: "HSet R c (workerKey wid) [(fieldWorkerID, wid), (fieldLastSeen, itoa now), (fieldStartedAt, itoa now)] s = (x, s')"
    and r: "r = None \<longrightarrow> (\<exists>n. x = Inr n)"
    using assms(2) by (auto simp: Register_def split: prod.splits sum.splits)
  have "hv s' (workerKey wid) fieldWorkerID = Some wid" if "x = Inr n" for n
    using hset_ok [OF x [unfolded that]] by (simp add: hash_put_def)
  with hset_streams [OF assms(1) x] r show ?thesis by auto
qed

lemma Deregister_outcome:
  assumes "Deregister R c wid s = (None, s')" shows "hv s' (workerKey wid) = Map.empty"
proof -
  obtain n where "Del R c (workerKey wid) s = (Inr n, s')"
    using assms by (auto simp: Deregister_def split: prod.splits sum.splits)
  from hdel_ok [OF this] show ?thesis by simp
qed

text \<open>The state in which the worker starts to poll.\<close>

lemma worker_ready:
  assumes "invar s" "SetupPartitions R cx cfg s = (Ok u, s2)" "Register R c now wid s2 = (None, s3)" "Validate cfg = None"
  shows "groups_extended (db s) (db s3) \<and>
    (\<forall>i. 0 \<le> i \<and> i < q_PartitionCount (c_Queue cfg) \<longrightarrow> partition_group (c_Queue cfg) (db s3) i) \<and>
    partition_group (c_Queue cfg) (db s3) (q_PartitionID (c_Queue cfg)) \<and>
    hv s3 (workerKey wid) fieldWorkerID = Some wid"
  using SetupPartitions_loop_spec [OF assms(1) assms(2) [unfolded SetupPartitions_def]] Register_outcome [OF _ assms(3)] assms(4)
  by (auto simp: cfg_defs)

end

lemma worker_processor_safe:
  assumes "redis_server R db invar rank clock kv" shows "stream_safe_processor db invar (worker_processor R cfg job)"
proof
  fix s env r s' assume s: "invar s" and run: "worker_processor R cfg job env s = (r, s')"
  obtain ctxErr c dups where "job env = (ctxErr, c, dups)" by (metis prod.exhaust)
  with run have run: "dedup_processor R (NewDeduplicatingProcessor (DefaultProcessor_Process ctxErr) (w_DedupTTL (c_Worker cfg))) c dups env s = (r, s')"
    by (simp add: worker_processor_def)
  have "stream_safe_processor db invar (dp_downstream (NewDeduplicatingProcessor (DefaultProcessor_Process ctxErr) (w_DedupTTL (c_Worker cfg))))"
    by (simp add: NewDeduplicatingProcessor_def DefaultProcessor_safe)
  from stream_safe_processor.process_safe [OF dedup_processor_safe [OF assms this] s run] show "invar s' \<and> db s' = db s" .
qed

text \<open>What a session of the goroutines leaves behind.\<close>

lemma session_outcome:
  assumes real: "real_session db invar S G impl R session" and G: "error_group G running first"
    and R: "redis_backend R db invar rank clock kv hv" and P: "stream_safe_processor db invar (wk_processor w)"
    and s: "invar s" and run: "session R w s = (x, s')"
  shows "invar s' \<and> (\<forall>e. x \<noteq> Err e)"
proof -
  from real [unfolded real_session_def] s run obtain st where st: "reachable R db invar S G impl w s st" "st_redis st = s'"
    "case x of Ok _ \<Rightarrow> st_start st = StartReturned None | Err e \<Rightarrow> st_start st = StartReturned (Some e) | Panic \<Rightarrow> crashed st" by blast
  have "x \<noteq> Err e" for e using error_group.group_reachable [OF G st(1)] st(3) by (auto simp: group_inv_def)
  with redis_backend.reachable_invar [OF R P s st(1)] st(2) show ?thesis by simp
qed

text \<open>
  C38: The life of a worker process. With an invalid configuration it exits with an error and touches nothing. When a step
  of the startup fails it exits with an error, without having taken a message. Otherwise, at the moment
  the worker starts, the groups of all partitions exist, among them the one it polls, and it is in the registry
  under its own identifier. If the goroutines then stop, it takes itself off the registry and exits without error, whatever the
  reason was: \<open>Worker.Start\<close> never returns an error. Only a panic of the processor ends it otherwise, and leaves it in the registry.
\<close>

theorem worker_run_lifecycle:
  assumes svc: "all_backends connect db invar rank clock kv hv" and s: "invar s" and G: "error_group G running first"
    and real: "\<And>opts. real_session db invar S G impl (connect opts) session"
    and run: "worker_run env connect hostname pid cx now check order job session s = (r, s')"
  shows "case Load env of
     Ok cfg \<Rightarrow>
       (\<exists>e. r = Err e \<and> groups_extended (db s) (db s')) \<or>
       (\<exists>R w s1 x s2. session R w s1 = (x, s2) \<and> invar s2 \<and>
          groups_extended (db s) (db s1) \<and>
          (\<forall>i. 0 \<le> i \<and> i < q_PartitionCount (c_Queue cfg) \<longrightarrow> partition_group (c_Queue cfg) (db s1) i) \<and>
          grp (db s1) (co_streamName (wk_consumer w)) (co_consumerGroup (wk_consumer w)) \<and>
          wk_workerID w = worker_id hostname pid \<and>
          hv s1 (workerKey (worker_id hostname pid)) fieldWorkerID = Some (worker_id hostname pid) \<and>
          (if x = Panic then r = Panic \<and> s' = s2
           else r = Ok () \<and> s' = snd (Deregister R None (worker_id hostname pid) s2) \<and>
             (fst (Deregister R None (worker_id hostname pid) s2) = None \<longrightarrow> hv s' (workerKey (worker_id hostname pid)) = Map.empty)))
   | _ \<Rightarrow> (\<exists>e. r = Err e) \<and> s' = s"
proof (cases "Load env")
  case (Ok cfg)
  let ?id = "worker_id hostname pid"
  obtain rr s1 where a: "SetupRedis connect (cx 0) cfg s = (rr, s1)" by fastforce
  note A = SetupRedis_outcome [OF svc s a]
  show ?thesis
  proof (cases rr)
    case cl: (Ok R)
    then have B: "redis_backend R db invar rank clock kv hv" and s1: "invar s1" "db s1 = db s"
      and real: "real_session db invar S G impl R session" using A real by auto
    note R = redis_backend.axioms(2) [OF B] and RV = redis_backend.axioms(1) [OF B]
    then have RS: "redis_streams R db invar rank" by (simp add: redis_service_def)
    obtain pr s2 where b: "SetupPartitions R (\<lambda>j. cx (j + 2)) cfg s1 = (pr, s2)" by fastforce
    note B2 = redis_streams.SetupPartitions_loop_spec [OF RS s1(1) b [unfolded SetupPartitions_def]]
    show ?thesis
    proof (cases pr)
      case up: (Ok u)
      obtain x s3 where c: "Register R (cx 1) now ?id s2 = (x, s3)" by fastforce
      note C = redis_service.Register_outcome [OF R conjunct1 [OF B2] c]
      show ?thesis
      proof (cases x)
        case None
        let ?co = "NewConsumer (PartitionStreamName (q_BaseStreamName (c_Queue cfg)) (q_PartitionID (c_Queue cfg)))
            (PartitionGroupName (q_BaseConsumerGroup (c_Queue cfg)) (q_PartitionID (c_Queue cfg))) ?id (Some (SetupDLQ cfg))"
        let ?hs = "NewHealthServer cfg (case check of (hc, late, d) \<Rightarrow> SetupHealthChecks R cfg hc late d) order"
        let ?w = "NewWorker ?co (worker_processor R cfg job) (c_Worker cfg) (c_Registry cfg) (q_PartitionID (c_Queue cfg)) ?hs ?id (SetupRegistry cfg)"
        obtain y s4 where d: "session R ?w s3 = (y, s4)" by fastforce
        have P: "stream_safe_processor db invar (wk_processor ?w)" using worker_processor_safe [OF RV] by (simp add: NewWorker_def)
        note S = session_outcome [OF real G B P conjunct1 [OF C] d]
        obtain z s5 where e: "Deregister R None ?id s4 = (z, s5)" by fastforce
        have fin: "if y = Panic then r = Panic \<and> s' = s4 else r = Ok () \<and> s' = s5"
          using run Ok a cl b up c None d e S by (cases y) (auto simp: worker_run_def Let_def SetupConsumer_Ok)
        have "z = None \<Longrightarrow> hv s5 (workerKey ?id) = Map.empty"
          using redis_service.Deregister_outcome [OF R, of None ?id s4 s5] e by auto
        moreover note redis_service.worker_ready [OF R s1(1) b [unfolded up] c [unfolded None] Load_Ok_valid [OF Ok]]
        ultimately show ?thesis using d e fin s1(2) S unfolding Ok go.case
          by (intro disjI2 exI [of _ R] exI [of _ ?w] exI [of _ s3] exI [of _ y] exI [of _ s4]) (auto simp: NewWorker_def NewConsumer_def)
      next
        case (Some e)
        with run Ok a cl b up c B2 C s1 show ?thesis
          by (auto simp: worker_run_def Let_def SetupConsumer_Ok)
      qed
    next
      case (Err e)
      with run Ok a cl b B2 s1 show ?thesis by (auto simp: worker_run_def Let_def)
    qed (use B2 in simp)
  next
    case (Err e)
    with run Ok a A show ?thesis by (auto simp: worker_run_def Let_def)
  qed (use a in simp)
next
  case (Err e)
  with run show ?thesis by (auto simp: worker_run_def)
qed simp

text \<open>A session whose context has ended before it starts: the goroutines stop in turn.\<close>

definition idle_session :: "'s worker_session" where
  "idle_session R w s =
     (let c = Some ContextCanceled;
          s1 = (case tryReclaim R w (\<lambda>_. c) s of Some (_, s1) \<Rightarrow> s1 | None \<Rightarrow> s)
      in (Ok (), snd (Heartbeat R c 0 (wk_workerID w) s1)))"

definition idle_state ::
  "'s Worker \<Rightarrow> start_pc \<Rightarrow> poll_pc \<Rightarrow> reclaim_pc \<Rightarrow> registry_pc \<Rightarrow> health_pc \<Rightarrow> bool \<Rightarrow> nat \<Rightarrow> 's \<Rightarrow>
   (int \<times> int, nat \<times> goerror option \<times> ctx, 's) wstate" where
  "idle_state w start poll reclaim registry health ready n s = (start_state counting simple_group w (Some ContextCanceled) s)
     \<lparr>st_start := start, st_poll := poll, st_reclaim := reclaim, st_registry := registry, st_health := health, st_ready := ready,
      st_group := (n, None, Some ContextCanceled)\<rparr>"

lemmas idle_defs = idle_state_def start_state_def simple_group_def eval_nat_numeral

abbreviation idle_reachable :: "mem Worker \<Rightarrow> mem \<Rightarrow> (int \<times> int, nat \<times> goerror option \<times> ctx, mem) wstate \<Rightarrow> bool" where
  "idle_reachable w s \<equiv> reachable memory m_db mem_inv counting simple_group (\<lambda>_. 0) w s"

lemma idle_started: "idle_reachable w s (idle_state w Waiting PollStopped Reclaiming Beating Serving True 3 s)"
proof -
  have "idle_reachable w s (start_state counting simple_group w (Some ContextCanceled) s)" by (rule reachable.init)
  from reachable.step [OF this launch_poll]
  have "idle_reachable w s (idle_state w (Launching 1) PollEntry ReclaimIdle RegistryIdle HealthIdle False 1 s)" by (simp add: idle_defs)
  from reachable.step [OF this launch_reclaim]
  have "idle_reachable w s (idle_state w (Launching 2) PollEntry Reclaiming RegistryIdle HealthIdle False 2 s)" by (simp add: idle_defs)
  from reachable.step [OF this launch_registry]
  have "idle_reachable w s (idle_state w (Launching 3) PollEntry Reclaiming Beating HealthIdle False 3 s)" by (simp add: idle_defs)
  from reachable.step [OF this launch_health]
  have "idle_reachable w s (idle_state w Waiting PollEntry Reclaiming Beating Serving False 4 s)" by (simp add: idle_defs)
  from reachable.step [OF this poll_ready]
  have "idle_reachable w s (idle_state w Waiting Polling Reclaiming Beating Serving True 4 s)" by (simp add: idle_defs)
  from reachable.step [OF this poll_done] show ?thesis by (simp add: idle_defs)
qed

lemma idle_reclaimed:
  assumes "mem_inv s"
  shows "\<exists>x s1. tryReclaim memory w (\<lambda>_. Some ContextCanceled) s = Some (x, s1) \<and>
    idle_reachable w s (idle_state w Waiting PollStopped AwaitTick Beating Serving True 3 s1)"
proof -
  obtain x s1 where x: "tryReclaim memory w (\<lambda>_. Some ContextCanceled) s = Some (x, s1)" "x \<noteq> Panic"
    using redis_server.tryReclaim_returns [OF redis_backend.axioms(1) [OF mem_backend.redis_backend_axioms] assms] by blast
  have since: "\<forall>n::nat. ctx_since (group_Err simple_group (st_group (idle_state w Waiting PollStopped Reclaiming Beating Serving True 3 s))) (Some ContextCanceled)"
    by (simp add: idle_defs ctx_since_def)
  show ?thesis
  proof (cases x)
    case (Ok jobs)
    from reachable.step [OF idle_started reclaim_jobs [OF _ since]] x(1) Ok
    have st: "idle_reachable w s (idle_state w Waiting PollStopped (Starting jobs) Beating Serving True 3 s1)" by (simp add: idle_defs)
    from reachable.step [OF st reclaim_end] reachable.step [OF st reclaim_abandon] x(1) show ?thesis
      by (cases jobs) (auto simp: idle_defs)
  next
    case (Err e)
    from reachable.step [OF idle_started reclaim_fails [OF _ since]] x(1) Err show ?thesis by (auto simp: idle_defs)
  qed (use x in simp)
qed

lemma idle_real: "real_session m_db mem_inv counting simple_group (\<lambda>_. 0) memory idle_session"
proof -
  have "\<exists>st. idle_reachable w s st \<and> st_redis st = s' \<and> st_start st = StartReturned None \<and> r = Ok ()"
    if s: "mem_inv s" and run: "idle_session memory w s = (r, s')" for w :: "mem Worker" and s r s'
  proof -
    obtain x s1 where x: "tryReclaim memory w (\<lambda>_. Some ContextCanceled) s = Some (x, s1)"
      and r1: "idle_reachable w s (idle_state w Waiting PollStopped AwaitTick Beating Serving True 3 s1)"
      using idle_reclaimed [OF s] by blast
    obtain y s2 where y: "Heartbeat memory (Some ContextCanceled) 0 (wk_workerID w) s1 = (y, s2)" by fastforce
    with run x have s': "s' = s2" "r = Ok ()" by (auto simp: idle_session_def Let_def)
    from reachable.step [OF r1 reclaim_done]
    have "idle_reachable w s (idle_state w Waiting PollStopped ReclaimStopped Beating Serving True 2 s1)" by (simp add: idle_defs)
    from reachable.step [OF this beat [where c = "Some ContextCanceled"]] y
    have "idle_reachable w s (idle_state w Waiting PollStopped ReclaimStopped AwaitBeat Serving True 2 s2)" by (simp add: idle_defs ctx_since_def)
    from reachable.step [OF this registry_done]
    have "idle_reachable w s (idle_state w Waiting PollStopped ReclaimStopped RegistryStopped Serving True 1 s2)" by (simp add: idle_defs)
    from reachable.step [OF this health_returns [where e = ErrServerClosed]]
    have "idle_reachable w s (idle_state w Waiting PollStopped ReclaimStopped RegistryStopped HealthStopped True 0 s2)" by (simp add: idle_defs)
    from reachable.step [OF this start_returns] s' show ?thesis by (force simp: idle_defs Worker_Start_def)
  qed
  then show ?thesis unfolding real_session_def by fastforce
qed

lemma mem_all_backends: "all_backends (\<lambda>_. memory) m_db mem_inv mem_rank m_now m_kv mem_hv"
  using mem_backend.redis_backend_axioms by (simp add: all_backends_def)

lemma Load_empty: "Load (\<lambda>_. '''') = Ok GetDefaults"
  by (simp add: Load_def empty_env Validate_GetDefaults)

abbreviation demo_run :: "(unit go \<times> mem)" where
  "demo_run \<equiv> worker_run (\<lambda>_. '''') (\<lambda>_. memory) ''host'' 7 (\<lambda>_. None) 5 (None, False, 0) [0] (\<lambda>_. (None, None, 0)) idle_session (mem_init 0 [])"

lemma demo_worker_run: "\<exists>s'. demo_run = (Ok (), s')"
proof -
  let ?s = "mem_init 0 []"
  have "SetupRedis (\<lambda>_. memory) None GetDefaults ?s = (Ok memory, ?s)"
    by (simp add: SetupRedis_def Let_def memory_def mem_Ping_def)
  moreover obtain s1 where "m_faults s1 = []" and "SetupPartitions memory (\<lambda>_. None) GetDefaults ?s = (Ok (), s1)"
    using mem_SetupPartitions_loop [of ?s] by (auto simp: SetupPartitions_def)
  moreover from this obtain s2 where "Register memory None 5 (worker_id ''host'' 7) s1 = (None, s2)"
    by (auto simp: Register_def memory_def mem_HSet_def Let_def split: prod.splits sum.splits)
  ultimately show ?thesis
    by (auto simp: worker_run_def Load_empty SetupConsumer_Ok idle_session_def Let_def)
qed

theorem worker_run_lifecycle_witness:
  "\<exists>s' s1. demo_run = (Ok (), s') \<and>
     partition_group DefaultQueue (m_db s1) 1 \<and>
     mem_hv s1 (workerKey (worker_id ''host'' 7)) fieldWorkerID = Some (worker_id ''host'' 7)"
proof -
  obtain s' where run: "demo_run = (Ok (), s')" using demo_worker_run by blast
  have q: "c_Queue GetDefaults = DefaultQueue" "q_PartitionCount DefaultQueue = 2" by (simp_all add: GetDefaults_def DefaultQueue_def)
  from worker_run_lifecycle [OF mem_all_backends mem_inv_init simple_errgroup.error_group_axioms idle_real run] obtain s1
    where "\<forall>i. 0 \<le> i \<and> i < q_PartitionCount (c_Queue GetDefaults) \<longrightarrow> partition_group (c_Queue GetDefaults) (m_db s1) i"
      and "mem_hv s1 (workerKey (worker_id ''host'' 7)) fieldWorkerID = Some (worker_id ''host'' 7)"
    unfolding Load_empty go.case by blast
  then have "partition_group DefaultQueue (m_db s1) 1" "mem_hv s1 (workerKey (worker_id ''host'' 7)) fieldWorkerID = Some (worker_id ''host'' 7)"
    unfolding q by simp_all
  with run show ?thesis by blast
qed

end
