(* ===== verification/Queue_Refinement.thy ===== *)
theory Queue_Refinement
  imports Queue_Consumer "HOL-Library.Sublist"
begin

text \<open>
  The abstract specification of a partition: a queue of jobs that wait, and the identifiers of the jobs that were
  taken and not finished. The operations of \<open>internal/queue\<close> refine it: each has exactly the effect of
  a few abstract events on the state seen through \<open>abs_queue\<close>, and a failed operation has the effect of a prefix of
  them. Abstract runs are first in, first out; \<open>Queue_Interfaces\<close> carries this over to the clients of the package.
\<close>

section \<open>The abstract queue\<close>

type_synonym waiting_job = "string \<times> JobEnvelope option"

record job_queue =
  jq_waiting :: "waiting_job list"
  jq_taken :: "string list"

text \<open>
  \<open>Put full i job\<close> appends; when the stream is \<open>full\<close> it may drop jobs that wait. \<open>Take\<close> removes the first job;
  a message that is no job waits as \<open>None\<close>.
\<close>

datatype queue_event =
    Put bool string JobEnvelope
  | Take waiting_job
  | Finish string

inductive qstep :: "queue_event \<Rightarrow> job_queue \<Rightarrow> job_queue \<Rightarrow> bool" where
  put: "\<lbrakk>subseq ws (jq_waiting q); \<not> full \<longrightarrow> ws = jq_waiting q\<rbrakk> \<Longrightarrow>
    qstep (Put full i job) q (q\<lparr>jq_waiting := ws @ [(i, Some job)]\<rparr>)"
| take: "jq_waiting q = w # rest \<Longrightarrow>
    qstep (Take w) q (q\<lparr>jq_waiting := rest, jq_taken := jq_taken q @ [fst w]\<rparr>)"
| finish: "qstep (Finish i) q (q\<lparr>jq_taken := removeAll i (jq_taken q)\<rparr>)"

inductive_cases qstepE: "qstep ev q q'"

inductive qrun :: "queue_event list \<Rightarrow> job_queue \<Rightarrow> job_queue \<Rightarrow> bool" where
  nil: "qrun [] q q"
| cons: "\<lbrakk>qstep ev q q1; qrun evs q1 q'\<rbrakk> \<Longrightarrow> qrun (ev # evs) q q'"

inductive_simps qrun_Nil [simp]: "qrun [] q q'"
inductive_simps qrun_Cons: "qrun (ev # evs) q q'"

lemma qrun_single: "qrun [ev] q q' \<longleftrightarrow> qstep ev q q'"
  by (simp add: qrun_Cons)

lemma qrun_append: "qrun evs q q1 \<Longrightarrow> qrun evs' q1 q' \<Longrightarrow> qrun (evs @ evs') q q'"
  by (induction rule: qrun.induct) (auto intro: qrun.cons)

fun puts :: "queue_event list \<Rightarrow> waiting_job list" where
  "puts [] = []"
| "puts (Put full i job # evs) = (i, Some job) # puts evs"
| "puts (_ # evs) = puts evs"

fun takes :: "queue_event list \<Rightarrow> waiting_job list" where
  "takes [] = []"
| "takes (Take w # evs) = w # takes evs"
| "takes (_ # evs) = takes evs"

fun never_full :: "queue_event list \<Rightarrow> bool" where
  "never_full [] \<longleftrightarrow> True"
| "never_full (Put full i job # evs) \<longleftrightarrow> \<not> full \<and> never_full evs"
| "never_full (_ # evs) \<longleftrightarrow> never_full evs"

lemma puts_append [simp]: "puts (evs @ evs') = puts evs @ puts evs'"
  by (induction evs rule: puts.induct) auto

lemma takes_append [simp]: "takes (evs @ evs') = takes evs @ takes evs'"
  by (induction evs rule: takes.induct) auto

lemma never_full_append [simp]: "never_full (evs @ evs') \<longleftrightarrow> never_full evs \<and> never_full evs'"
  by (induction evs rule: never_full.induct) auto

text \<open>First in, first out: what was taken and what still waits is, in order, what waited before and what was put.\<close>

lemma qrun_fifo:
  "qrun evs q q' \<Longrightarrow> never_full evs \<Longrightarrow> takes evs @ jq_waiting q' = jq_waiting q @ puts evs"
  by (induction rule: qrun.induct) (auto elim!: qstepE)

lemma qrun_fifo_full:
  "qrun evs q q' \<Longrightarrow> subseq (takes evs @ jq_waiting q') (jq_waiting q @ puts evs)"
proof (induction rule: qrun.induct)
  case (cons ev q q1 evs q')
  from cons.hyps(1) show ?case
  proof (cases rule: qstep.cases)
    case (put ws full i job)
    then have "subseq (jq_waiting q1 @ puts evs) (jq_waiting q @ puts (ev # evs))"
      by (simp add: list_emb_append_mono)
    with cons.IH put show ?thesis by (auto intro: subseq_order.trans)
  qed (use cons.IH in auto)
qed simp

section \<open>A partition as a queue\<close>

definition message_job :: "fields \<Rightarrow> JobEnvelope option" where
  "message_job v = (case map_of v ''job'' of
     None \<Rightarrow> None
   | Some t \<Rightarrow> (case unmarshal_JobEnvelope t of Ok env \<Rightarrow> Some env | _ \<Rightarrow> None))"

lemma message_job_decodes: "message_job v = Some env \<longleftrightarrow> decodes v env"
  by (auto simp: message_job_def decodes_def split: option.splits go.splits)

definition abs_queue :: "Consumer \<Rightarrow> stream_db \<Rightarrow> job_queue" where
  "abs_queue co d =
     \<lparr>jq_waiting = map (\<lambda>(i, v). (i, message_job v)) (fresh d (co_streamName co) (co_consumerGroup co)),
      jq_taken = pend d (co_streamName co) (co_consumerGroup co)\<rparr>"

abbreviation group_of :: "Consumer \<Rightarrow> stream_db \<Rightarrow> bool" where
  "group_of co d \<equiv> grp d (co_streamName co) (co_consumerGroup co)"

text \<open>The effect of the commands.\<close>

lemma abs_added:
  assumes "added (co_streamName co) m v i d d'" "carries v env" "group_of co d"
  shows "qstep (Put (0 < m \<and> m \<le> int (length (ents d (co_streamName co)))) i env) (abs_queue co d) (abs_queue co d')"
proof -
  let ?k = "co_streamName co" and ?g = "co_consumerGroup co"
  let ?f = "\<lambda>(i, v). (i, message_job v)"
  from assms(1) obtain n where n: "trim_ok m (length (ents d ?k)) n" and d': "d' = db_add ?k i v (db_trim ?k n d)"
    by (auto simp: added_def)
  let ?ws = "fresh (db_trim ?k n d) ?k ?g"
  have sub: "subseq (map ?f ?ws) (map ?f (fresh d ?k ?g))" by (simp add: db_trim_def subseq_map)
  have "n = 0" if "\<not> (0 < m \<and> m \<le> int (length (ents d ?k)))" using n that by (auto simp: trim_ok_def)
  then have keep: "\<not> (0 < m \<and> m \<le> int (length (ents d ?k))) \<longrightarrow> map ?f ?ws = map ?f (fresh d ?k ?g)" by auto
  have "message_job v = Some env" using message_job_decodes carries_decodes [OF assms(2)] by blast
  then have "abs_queue co d' = (abs_queue co d)\<lparr>jq_waiting := map ?f ?ws @ [(i, Some env)]\<rparr>"
    using assms(3) by (simp add: abs_queue_def d' db_add_def)
  with qstep.put [of "map ?f ?ws" "abs_queue co d" "0 < m \<and> m \<le> int (length (ents d ?k))" i env] sub keep
  show ?thesis by (simp add: abs_queue_def)
qed

lemma abs_other: "added k m v i d d' \<Longrightarrow> k \<noteq> co_streamName co \<Longrightarrow> abs_queue co d' = abs_queue co d"
  by (auto simp: added_def abs_queue_def db_add_def db_trim_def)

lemma abs_deliver:
  "fresh d (co_streamName co) (co_consumerGroup co) = (i, v) # rest \<Longrightarrow>
   qstep (Take (i, message_job v)) (abs_queue co d) (abs_queue co (db_deliver (co_streamName co) (co_consumerGroup co) d))"
  using qstep.take [of "abs_queue co d" "(i, message_job v)" "map (\<lambda>(i, v). (i, message_job v)) rest"]
  by (simp add: abs_queue_def db_deliver_def)

lemma abs_ack: "qstep (Finish i) (abs_queue co d) (abs_queue co (db_ack (co_streamName co) (co_consumerGroup co) i d))"
  using qstep.finish [of i "abs_queue co d"] by (simp add: abs_queue_def db_ack_def)

lemma added_grp: "added k m v i d d' \<Longrightarrow> grp d' = grp d"
  by (auto simp: added_def)

section \<open>The operations refine the queue\<close>

text \<open>Whether the next entry may push others out of the stream.\<close>

definition stream_full :: "Producer \<Rightarrow> Consumer \<Rightarrow> stream_db \<Rightarrow> bool" where
  "stream_full p co d \<longleftrightarrow> 0 < q_MaxLen (pr_config p) \<and> q_MaxLen (pr_config p) \<le> int (length (ents d (co_streamName co)))"

text \<open>The abstract events of each operation, complete and as far as they may get when an error is reported.\<close>

definition enqueue_events :: "Producer \<Rightarrow> Consumer \<Rightarrow> stream_db \<Rightarrow> string \<Rightarrow> int64 \<Rightarrow> LogEvent \<Rightarrow> string \<Rightarrow> queue_event list" where
  "enqueue_events p co d uuid now e i =
     (if stream_of p e = co_streamName co then [Put (stream_full p co d) i (new_job p uuid now e)] else [])"

definition retry_events :: "JobEnvelope \<Rightarrow> goerror \<Rightarrow> string \<Rightarrow> string \<Rightarrow> queue_event list" where
  "retry_events env err i j =
     (if RetryCount (failed_once env err) < MaxRetries env then [Put False j (failed_once env err), Finish i] else [Finish i])"

definition runs_prefix :: "queue_event list \<Rightarrow> job_queue \<Rightarrow> job_queue \<Rightarrow> bool" where
  "runs_prefix evs q q' \<longleftrightarrow> (\<exists>n. qrun (take n evs) q q')"

lemma runs_prefix_all: "qrun evs q q' \<Longrightarrow> runs_prefix evs q q'"
  unfolding runs_prefix_def by (intro exI [of _ "length evs"]) simp

lemma runs_prefix_none [simp]: "runs_prefix evs q q"
  unfolding runs_prefix_def by (intro exI [of _ 0]) simp

lemma runs_prefix_first: "qstep ev q q' \<Longrightarrow> runs_prefix (ev # evs) q q'"
  unfolding runs_prefix_def by (intro exI [of _ 1]) (simp add: qrun_single)

context redis_streams
begin

lemma Enqueue_refines:
  assumes "invar s" "group_of co (db s)" "0 < q_PartitionCount (pr_config p)" "producible p uuid now e"
    and "Enqueue R p uuid now c (Some e) s = (r, s')"
  shows "invar s' \<and> group_of co (db s') \<and>
    (case r of
       Ok i \<Rightarrow> qrun (enqueue_events p co (db s) uuid now e i) (abs_queue co (db s)) (abs_queue co (db s'))
     | Err _ \<Rightarrow> \<exists>i. runs_prefix (enqueue_events p co (db s) uuid now e i) (abs_queue co (db s)) (abs_queue co (db s'))
     | Panic \<Rightarrow> False)"
proof -
  from Enqueue_outcome [OF assms(1,3-5)] obtain v where s': "invar s'" and v: "carries v (new_job p uuid now e)"
    and o: "case r of
       Ok i \<Rightarrow> added (stream_of p e) (q_MaxLen (pr_config p)) v i (db s) (db s')
     | Err err \<Rightarrow> db s' = db s \<or> (\<exists>i. added (stream_of p e) (q_MaxLen (pr_config p)) v i (db s) (db s'))
     | Panic \<Rightarrow> False" by blast
  have ok: "qrun (enqueue_events p co (db s) uuid now e i) (abs_queue co (db s)) (abs_queue co (db s')) \<and> group_of co (db s')"
    if a: "added (stream_of p e) (q_MaxLen (pr_config p)) v i (db s) (db s')" for i
  proof (cases "stream_of p e = co_streamName co")
    case True
    with abs_added [OF a [unfolded True] v assms(2)] added_grp [OF a] assms(2) show ?thesis
      by (simp add: enqueue_events_def stream_full_def qrun_single)
  next
    case False
    with abs_other [OF a False] added_grp [OF a] assms(2) show ?thesis by (simp add: enqueue_events_def)
  qed
  show ?thesis
  proof (cases r)
    case (Err err)
    with o consider "db s' = db s" | i where "added (stream_of p e) (q_MaxLen (pr_config p)) v i (db s) (db s')" by auto
    then show ?thesis by cases (use s' ok assms(2) Err in \<open>auto intro: runs_prefix_all\<close>)
  qed (use o ok s' in auto)
qed

lemma Consume_refines:
  assumes "invar s" "Consume R co c b s = ((oe, i, err), s')"
  shows "invar s' \<and> (group_of co (db s) \<longrightarrow> group_of co (db s')) \<and>
    (case (oe, err) of
       (Some env, None) \<Rightarrow> qrun [Take (i, Some env)] (abs_queue co (db s)) (abs_queue co (db s'))
     | (None, None) \<Rightarrow> jq_waiting (abs_queue co (db s)) = [] \<and> abs_queue co (db s') = abs_queue co (db s)
     | (None, Some _) \<Rightarrow> \<exists>w. runs_prefix [Take w] (abs_queue co (db s)) (abs_queue co (db s'))
     | (Some _, Some _) \<Rightarrow> False)"
proof -
  let ?k = "co_streamName co" and ?g = "co_consumerGroup co"
  obtain x s1 where x: "XReadGroup R c ?g (co_consumerName co) ?k 1 b s = (x, s1)" by fastforce
  show ?thesis
  proof (cases x)
    case (Inr res)
    from xread_ok [OF assms(1) x [unfolded Inr]] obtain j v rest
      where h: "invar s1" "fresh (db s) ?k ?g = (j, v) # rest" "res = [(?k, [xmsg (j, v)])]" "db s1 = db_deliver ?k ?g (db s)"
      by (cases "fresh (db s) ?k ?g") auto
    with assms(2) x Inr have p: "parseMessage (xmsg (j, v)) = (oe, i, err)" "s' = s1" by (auto simp: Consume_def)
    note d = abs_deliver [OF h(2)]
    from parseMessage_not_empty [of "xmsg (j, v)"] p(1) consider env where "oe = Some env" "err = None" "i = j"
      | y where "oe = None" "err = Some y" by (auto simp: xmsg_def)
    then show ?thesis
    proof cases
      case 1
      with p(1) have "message_job v = Some env" using message_job_decodes parseMessage_Some by (fastforce simp: xmsg_def)
      with 1 d h p(2) show ?thesis by (simp add: qrun_single)
    next
      case 2
      with d h p(2) show ?thesis by (auto intro: runs_prefix_first)
    qed
  next
    case (Inl e)
    show ?thesis
    proof (cases "e = RedisNil")
      case True
      with xread_nil [OF assms(1)] x Inl assms(2) show ?thesis by (auto simp: Consume_def abs_queue_def)
    next
      case False
      with assms(2) x Inl have o: "oe = None" "err \<noteq> None" "s' = s1" by (auto simp: Consume_def)
      from xread_err [OF assms(1) x [unfolded Inl]] have "invar s1"
        and "db s1 = db s \<or> (\<exists>j v rest. fresh (db s) ?k ?g = (j, v) # rest \<and> db s1 = db_deliver ?k ?g (db s))"
        by (cases "fresh (db s) ?k ?g"; auto)+
      then show ?thesis using o abs_deliver by (fastforce intro: runs_prefix_first)
    qed
  qed
qed

lemma Ack_refines:
  assumes "invar s" "Ack R co c i s = (r, s')"
  shows "invar s' \<and> (group_of co (db s) \<longrightarrow> group_of co (db s')) \<and>
    (if r = None then qrun [Finish i] (abs_queue co (db s)) (abs_queue co (db s'))
     else runs_prefix [Finish i] (abs_queue co (db s)) (abs_queue co (db s')))"
  using Ack_outcome [OF assms] abs_ack [of i co "db s"] by (auto simp: qrun_single intro: runs_prefix_first)

end

lemma abs_db_add:
  assumes "group_of co d" "carries v env"
  shows "qstep (Put False j env) (abs_queue co d) (abs_queue co (db_add (co_streamName co) j v d))"
proof -
  have "message_job v = Some env" using message_job_decodes carries_decodes [OF assms(2)] by blast
  with qstep.put [of "jq_waiting (abs_queue co d)" "abs_queue co d" False j env] assms(1) show ?thesis
    by (simp add: abs_queue_def db_add_def)
qed

context redis_streams
begin

lemma xadd_elsewhere:
  assumes "invar s" "XAdd R c k m v s = (x, s')" "k \<noteq> co_streamName co"
  shows "invar s' \<and> abs_queue co (db s') = abs_queue co (db s) \<and> grp (db s') = grp (db s)"
  using xadd_ok [OF assms(1)] xadd_err [OF assms(1)] assms(2) abs_other [OF _ assms(3)] added_grp
  by (cases x) metis+

lemma Send_elsewhere:
  assumes "invar s" "dq_streamName dlq \<noteq> co_streamName co"
  shows "invar (snd (Send R dlq c entry s)) \<and> abs_queue co (db (snd (Send R dlq c entry s))) = abs_queue co (db s) \<and>
         grp (db (snd (Send R dlq c entry s))) = grp (db s)"
  using assms xadd_elsewhere [OF assms(1) _ assms(2)]
  by (auto simp: Send_def split: go.splits prod.splits sum.splits option.splits)

lemma Retry_refines:
  assumes s: "invar s" and g: "group_of co (db s)" and wf: "wf_envelope maxNestingDepth (failed_once env err)"
    and dlq: "\<forall>dlq. co_dlq co = Some dlq \<longrightarrow> dq_streamName dlq \<noteq> co_streamName co"
    and run: "Retry R co now cx env i err s = (r, s')"
  shows "invar s' \<and> group_of co (db s') \<and>
    (if r = None then \<exists>j. qrun (retry_events env err i j) (abs_queue co (db s)) (abs_queue co (db s'))
     else \<exists>j. runs_prefix (retry_events env err i j) (abs_queue co (db s)) (abs_queue co (db s')))"
proof (cases "RetryCount (failed_once env err) < MaxRetries env")
  case True
  let ?k = "co_streamName co"
  from Retry_again_outcome [OF s True wf run] have inv: "invar s'" and "db s' = db s \<and> r \<noteq> None \<or>
    (\<exists>v j. carries v (failed_once env err) \<and> (db s' = db_add ?k j v (db s) \<and> r \<noteq> None \<or>
        db s' = db_ack ?k (co_consumerGroup co) i (db_add ?k j v (db s))))" by auto
  then consider "db s' = db s" "r \<noteq> None"
    | v j where "carries v (failed_once env err)" "db s' = db_add ?k j v (db s)" "r \<noteq> None"
    | v j where "carries v (failed_once env err)" "db s' = db_ack ?k (co_consumerGroup co) i (db_add ?k j v (db s))" by blast
  then show ?thesis
  proof cases
    case 1
    with inv g show ?thesis by auto
  next
    case (2 v j)
    with abs_db_add [OF g 2(1), of j] inv g True show ?thesis
      by (auto simp: retry_events_def intro: runs_prefix_first)
  next
    case (3 v j)
    have "qrun (retry_events env err i j) (abs_queue co (db s)) (abs_queue co (db s'))"
      using abs_db_add [OF g 3(1), of j] abs_ack [of i co "db_add ?k j v (db s)"] True 3(2)
      by (auto simp: retry_events_def qrun_Cons)
    with 3(2) inv g show ?thesis by (auto intro: runs_prefix_all)
  qed
next
  case False
  define s1 where "s1 = (case co_dlq co of None \<Rightarrow> s
     | Some dlq \<Rightarrow> snd (Send R dlq (cx 0) (retry_entry (failed_once env err) i err now) s))"
  have a: "invar s1" "abs_queue co (db s1) = abs_queue co (db s)" "grp (db s1) = grp (db s)"
    using Send_elsewhere [OF s] dlq s by (auto simp: s1_def split: option.splits)
  have "Ack R co (cx 1) i s1 = (r, s')" using run False Retry_give_up [of env err R co now cx i s]
    by (simp del: failed_once_simps(5) flip: s1_def)
  from Ack_refines [OF a(1) this] a g False show ?thesis by (auto simp: retry_events_def split: if_splits)
qed

end

text \<open>
  C2: The queue package implements the abstract queue. For a consumer whose group exists: a successful \<open>Enqueue\<close>
  of an event of this partition is one \<open>Put\<close> of its job (one for another partition changes nothing); a \<open>Consume\<close> that returns
  a job is the \<open>Take\<close> of the job that waits longest, and one that returns nothing means that no job waits;
  a successful \<open>Ack\<close> is \<open>Finish\<close>; a successful \<open>Retry\<close> is the \<open>Put\<close> of the job with one more attempt followed by \<open>Finish\<close>,
  or only \<open>Finish\<close> when the attempts are used up. An operation that reports an error did a prefix of its events.
\<close>

theorem queue_refinement:
  assumes "redis_streams R db invar rank" and "invar s" and "group_of co (db s)" and "validateQueue (pr_config p) = None"
    and "\<forall>dlq. co_dlq co = Some dlq \<longrightarrow> dq_streamName dlq \<noteq> co_streamName co"
  shows "(\<forall>uuid now c e r s'. producible p uuid now e \<and> Enqueue R p uuid now c (Some e) s = (r, s') \<longrightarrow>
      (case r of
         Ok i \<Rightarrow> qrun (enqueue_events p co (db s) uuid now e i) (abs_queue co (db s)) (abs_queue co (db s'))
       | Err _ \<Rightarrow> \<exists>i. runs_prefix (enqueue_events p co (db s) uuid now e i) (abs_queue co (db s)) (abs_queue co (db s'))
       | Panic \<Rightarrow> False))
   \<and> (\<forall>c b oe i err s'. Consume R co c b s = ((oe, i, err), s') \<longrightarrow>
      (case (oe, err) of
         (Some env, None) \<Rightarrow> qrun [Take (i, Some env)] (abs_queue co (db s)) (abs_queue co (db s'))
       | (None, None) \<Rightarrow> jq_waiting (abs_queue co (db s)) = [] \<and> abs_queue co (db s') = abs_queue co (db s)
       | (None, Some _) \<Rightarrow> \<exists>w. runs_prefix [Take w] (abs_queue co (db s)) (abs_queue co (db s'))
       | (Some _, Some _) \<Rightarrow> False))
   \<and> (\<forall>c i r s'. Ack R co c i s = (r, s') \<longrightarrow>
      (if r = None then qrun [Finish i] (abs_queue co (db s)) (abs_queue co (db s'))
       else runs_prefix [Finish i] (abs_queue co (db s)) (abs_queue co (db s'))))
   \<and> (\<forall>now cx env i err r s'. wf_envelope maxNestingDepth (failed_once env err) \<and> Retry R co now cx env i err s = (r, s') \<longrightarrow>
      (if r = None then \<exists>j. qrun (retry_events env err i j) (abs_queue co (db s)) (abs_queue co (db s'))
       else \<exists>j. runs_prefix (retry_events env err i j) (abs_queue co (db s)) (abs_queue co (db s'))))"
proof -
  have "0 < q_PartitionCount (pr_config p)" using assms(4) by (simp add: cfg_defs)
  note E = redis_streams.Enqueue_refines [OF assms(1-3) this] and C = redis_streams.Consume_refines [OF assms(1,2)]
    and A = redis_streams.Ack_refines [OF assms(1,2)] and T = redis_streams.Retry_refines [OF assms(1-3) _ assms(5)]
  show ?thesis
    by (intro conjI allI impI; (elim conjE)?) (use E in blast, use C in blast, use A in blast, use T in blast)
qed

theorem queue_refinement_witness:
  "\<exists>i s1. Enqueue memory demo_producer ''3f2a'' 1700000000 None (Some demo_event) demo_ready = (Ok i, s1) \<and>
     qrun (enqueue_events demo_producer demo_stream_consumer (m_db demo_ready) ''3f2a'' 1700000000 demo_event i)
       (abs_queue demo_stream_consumer (m_db demo_ready)) (abs_queue demo_stream_consumer (m_db s1))"
proof -
  obtain i s1 where enq: "Enqueue memory demo_producer ''3f2a'' 1700000000 None (Some demo_event) demo_ready = (Ok i, s1)"
    by (rule demo_ready_Enqueue)
  have co: "group_of demo_stream_consumer (m_db demo_ready)"
    "\<forall>dlq. co_dlq demo_stream_consumer = Some dlq \<longrightarrow> dq_streamName dlq \<noteq> co_streamName demo_stream_consumer"
    by (simp_all add: demo_stream_consumer_def NewConsumer_def demo_ready_def db_group_def)
  from queue_refinement [OF mem_streams.redis_streams_axioms demo_ready_inv co(1) validate_demo_producer co(2), THEN conjunct1,
      rule_format, OF conjI [OF producible_demo enq]] enq
  show ?thesis by auto
qed

end
