(* ===== verification/Queue_Interfaces.thy ===== *)
theory Queue_Interfaces
  imports Queue_Refinement
begin

text \<open>
  \<open>internal/queue/interfaces.go\<close>: the interfaces of the queue package as records of operations, and the method sets of
  \<open>Producer\<close>, \<open>Consumer\<close> and \<open>DLQ\<close> as values of them. What their clients rely on is stated in the locales \<open>job_queue_interface\<close> (over the
  abstract queue of \<open>Queue_Refinement\<close>) and \<open>dead_letter_interface\<close> (over a list of dead letters); the facts about clients are proved
  there. The sublocale relations show that the implementations on any Redis server that meets \<open>redis_streams\<close> keep the contracts.
\<close>

section \<open>The interfaces\<close>

text \<open>Identifiers and readings of the clock that a method draws are arguments, as in the operations themselves.\<close>

record 's ProducerInterface =
  pi_Enqueue :: "string \<Rightarrow> int64 \<Rightarrow> ctx \<Rightarrow> LogEvent option \<Rightarrow> ('s, string) act"
  pi_EnqueueBatch :: "(nat \<Rightarrow> string) \<Rightarrow> (nat \<Rightarrow> int64) \<Rightarrow> ctx \<Rightarrow> LogEvent option list \<Rightarrow> ('s, string list) act"
  pi_StreamLength :: "ctxs \<Rightarrow> ('s, int64) act"
  pi_Ping :: "ctx \<Rightarrow> ('s, unit) act"

record 's ConsumerInterface =
  ci_Consume :: "ctx \<Rightarrow> duration \<Rightarrow> 's \<Rightarrow> consumed \<times> 's"
  ci_Ack :: "ctx \<Rightarrow> string \<Rightarrow> 's \<Rightarrow> goerror option \<times> 's"
  ci_Retry :: "int64 \<Rightarrow> ctxs \<Rightarrow> JobEnvelope \<Rightarrow> string \<Rightarrow> goerror \<Rightarrow> 's \<Rightarrow> goerror option \<times> 's"
  ci_ReclaimStale :: "ctxs \<Rightarrow> duration \<Rightarrow> int64 \<Rightarrow> 's \<Rightarrow> (((JobEnvelope \<times> string) list \<times> goerror option) \<times> 's) option"
  ci_GetPendingInfo :: "int64 \<Rightarrow> ctx \<Rightarrow> ('s, int64 \<times> int64) act"

record 's DLQInterface =
  di_Send :: "ctx \<Rightarrow> DLQEntry \<Rightarrow> ('s, string) act"
  di_Get :: "ctx \<Rightarrow> string \<Rightarrow> ('s, DLQEntry) act"
  di_List :: "ctx \<Rightarrow> string \<Rightarrow> string \<Rightarrow> int64 \<Rightarrow> ('s, DLQEntry list) act"
  di_Count :: "ctx \<Rightarrow> ('s, int64) act"
  di_Delete :: "ctx \<Rightarrow> string \<Rightarrow> ('s, unit) act"
  di_Requeue :: "ctxs \<Rightarrow> string \<Rightarrow> string \<Rightarrow> int64 \<Rightarrow> ('s, unit) act"

text \<open>The assignments \<open>var _ ProducerInterface = (*Producer)(nil)\<close> and so on: the method sets of the implementations.\<close>

definition Producer_methods :: "'s redis_client \<Rightarrow> Producer \<Rightarrow> 's ProducerInterface" where
  [simp]: "Producer_methods R p = \<lparr>pi_Enqueue = Enqueue R p, pi_EnqueueBatch = EnqueueBatch R p,
     pi_StreamLength = StreamLength R p, pi_Ping = Producer_Ping R p\<rparr>"

definition Consumer_methods :: "'s redis_client \<Rightarrow> Consumer \<Rightarrow> 's ConsumerInterface" where
  [simp]: "Consumer_methods R co = \<lparr>ci_Consume = Consume R co, ci_Ack = Ack R co, ci_Retry = Retry R co,
     ci_ReclaimStale = ReclaimStale R co, ci_GetPendingInfo = GetPendingInfo R co\<rparr>"

definition DLQ_methods :: "'s redis_client \<Rightarrow> DLQ \<Rightarrow> 's DLQInterface" where
  [simp]: "DLQ_methods R d = \<lparr>di_Send = Send R d, di_Get = DLQ_Get R d, di_List = DLQ_List R d, di_Count = DLQ_Count R d,
     di_Delete = DLQ_Delete R d, di_Requeue = Requeue R d\<rparr>"

section \<open>The contract of producer and consumer\<close>

text \<open>The jobs of a batch for one partition, in order.\<close>

definition batch_jobs :: "(string \<Rightarrow> int64 \<Rightarrow> LogEvent \<Rightarrow> JobEnvelope) \<Rightarrow> (LogEvent \<Rightarrow> bool) \<Rightarrow> (nat \<Rightarrow> string) \<Rightarrow> (nat \<Rightarrow> int64) \<Rightarrow>
    LogEvent option list \<Rightarrow> JobEnvelope list" where
  "batch_jobs job mine uuids nows evs =
     concat (map (\<lambda>j. case evs ! j of None \<Rightarrow> [] | Some e \<Rightarrow> if mine e then [job (uuids j) (nows j) e] else []) [0..<length evs])"

definition batch_accepted :: "(string \<Rightarrow> int64 \<Rightarrow> LogEvent \<Rightarrow> bool) \<Rightarrow> (nat \<Rightarrow> string) \<Rightarrow> (nat \<Rightarrow> int64) \<Rightarrow> LogEvent option list \<Rightarrow> bool" where
  "batch_accepted accepts uuids nows evs \<longleftrightarrow> (\<forall>j<length evs. \<exists>e. evs ! j = Some e \<and> accepts (uuids j) (nows j) e)"

text \<open>
  What a client of the interfaces relies on, for the partition of one consumer: \<open>Q\<close> is the abstract queue of a state, \<open>ok\<close> says
  that its group exists and the store is sound, \<open>job\<close> is the job of an event, \<open>mine\<close> says that an event belongs to the
  partition and \<open>room n\<close> that \<open>n\<close> more entries fit without trimming.
\<close>

locale job_queue_interface =
  fixes P :: "'s ProducerInterface"
    and C :: "'s ConsumerInterface"
    and ok :: "'s \<Rightarrow> bool"
    and Q :: "'s \<Rightarrow> job_queue"
    and accepts :: "string \<Rightarrow> int64 \<Rightarrow> LogEvent \<Rightarrow> bool"
    and job :: "string \<Rightarrow> int64 \<Rightarrow> LogEvent \<Rightarrow> JobEnvelope"
    and mine :: "LogEvent \<Rightarrow> bool"
    and room :: "nat \<Rightarrow> 's \<Rightarrow> bool"
  assumes enqueue_law: "\<lbrakk>ok s; accepts uuid now e; pi_Enqueue P uuid now c (Some e) s = (re, s')\<rbrakk> \<Longrightarrow>
      ok s' \<and> (\<exists>i. let evs = (if mine e then [Put (\<not> room 1 s) i (job uuid now e)] else []) in
        (case re of Ok j \<Rightarrow> j = i \<and> qrun evs (Q s) (Q s') | Err _ \<Rightarrow> runs_prefix evs (Q s) (Q s') | Panic \<Rightarrow> False))"
    and batch_law: "\<lbrakk>ok s; batch_accepted accepts uuids nows evs; pi_EnqueueBatch P uuids nows c evs s = (rb, s')\<rbrakk> \<Longrightarrow>
      ok s' \<and> (\<exists>qs. qrun qs (Q s) (Q s') \<and> takes qs = [] \<and>
        (case rb of
           Ok ids \<Rightarrow> length ids = length evs \<and> (room (length evs) s \<longrightarrow> never_full qs) \<and>
             map snd (puts qs) = map Some (batch_jobs job mine uuids nows evs)
         | Err _ \<Rightarrow> set (map snd (puts qs)) \<subseteq> Some ` set (batch_jobs job mine uuids nows evs)
         | Panic \<Rightarrow> False))"
    and consume_law: "\<lbrakk>ok s; ci_Consume C c b s = ((oe, i, err), s')\<rbrakk> \<Longrightarrow>
      ok s' \<and> (case (oe, err) of
         (Some env, None) \<Rightarrow> qrun [Take (i, Some env)] (Q s) (Q s')
       | (None, None) \<Rightarrow> jq_waiting (Q s) = [] \<and> Q s' = Q s
       | (None, Some _) \<Rightarrow> \<exists>w. runs_prefix [Take w] (Q s) (Q s')
       | (Some _, Some _) \<Rightarrow> False)"
    and ack_law: "\<lbrakk>ok s; ci_Ack C c i s = (ra, s')\<rbrakk> \<Longrightarrow>
      ok s' \<and> (if ra = None then qrun [Finish i] (Q s) (Q s') else runs_prefix [Finish i] (Q s) (Q s'))"
    and retry_law: "\<lbrakk>ok s; wf_envelope maxNestingDepth (failed_once env lerr); ci_Retry C now cx env i lerr s = (rt, s')\<rbrakk> \<Longrightarrow>
      ok s' \<and> (\<exists>j. if rt = None then qrun (retry_events env lerr i j) (Q s) (Q s')
                    else runs_prefix (retry_events env lerr i j) (Q s) (Q s'))"
    and reclaim_law: "ok s \<Longrightarrow> \<exists>jobs e s'. ci_ReclaimStale C cx idle n s = Some ((jobs, e), s') \<and> ok s' \<and>
      jq_waiting (Q s') = jq_waiting (Q s) \<and> set (jq_taken (Q s')) \<subseteq> set (jq_taken (Q s)) \<and>
      snd ` set jobs \<subseteq> set (jq_taken (Q s))"
    and info_law: "\<lbrakk>ok s; ci_GetPendingInfo C nowMs c s = (rp, s')\<rbrakk> \<Longrightarrow> ok s' \<and> Q s' = Q s"
    and length_law: "\<lbrakk>ok s; pi_StreamLength P cx s = (rl, s')\<rbrakk> \<Longrightarrow> ok s' \<and> Q s' = Q s"

section \<open>Clients\<close>

text \<open>
  A run of operations without errors on one partition, by producers and by workers of its group: \<open>ins\<close> are the jobs that
  \<open>Enqueue\<close>, \<open>EnqueueBatch\<close> and \<open>Retry\<close> added to it, \<open>outs\<close> those that \<open>Consume\<close> returned, each in order. Any number of
  metrics are read and stale jobs reclaimed in between.
\<close>

inductive client_run ::
  "'s ProducerInterface \<Rightarrow> 's ConsumerInterface \<Rightarrow> (string \<Rightarrow> int64 \<Rightarrow> LogEvent \<Rightarrow> bool) \<Rightarrow> (string \<Rightarrow> int64 \<Rightarrow> LogEvent \<Rightarrow> JobEnvelope) \<Rightarrow>
   (LogEvent \<Rightarrow> bool) \<Rightarrow> (nat \<Rightarrow> 's \<Rightarrow> bool) \<Rightarrow> 's \<Rightarrow> JobEnvelope list \<Rightarrow> JobEnvelope list \<Rightarrow> 's \<Rightarrow> bool"
  for P C accepts job mine room s where
  start: "client_run P C accepts job mine room s [] [] s"
| enqueue: "\<lbrakk>client_run P C accepts job mine room s ins outs s1; accepts uuid now e; room 1 s1;
    pi_Enqueue P uuid now c (Some e) s1 = (Ok i, s2)\<rbrakk> \<Longrightarrow>
    client_run P C accepts job mine room s (ins @ (if mine e then [job uuid now e] else [])) outs s2"
| batch: "\<lbrakk>client_run P C accepts job mine room s ins outs s1; batch_accepted accepts uuids nows evs; room (length evs) s1;
    pi_EnqueueBatch P uuids nows c evs s1 = (Ok ids, s2)\<rbrakk> \<Longrightarrow>
    client_run P C accepts job mine room s (ins @ batch_jobs job mine uuids nows evs) outs s2"
| consume: "\<lbrakk>client_run P C accepts job mine room s ins outs s1; ci_Consume C c b s1 = ((Some env, i, None), s2)\<rbrakk> \<Longrightarrow>
    client_run P C accepts job mine room s ins (outs @ [env]) s2"
| consume_empty: "\<lbrakk>client_run P C accepts job mine room s ins outs s1; ci_Consume C c b s1 = ((None, i, None), s2)\<rbrakk> \<Longrightarrow>
    client_run P C accepts job mine room s ins outs s2"
| ack: "\<lbrakk>client_run P C accepts job mine room s ins outs s1; ci_Ack C c i s1 = (None, s2)\<rbrakk> \<Longrightarrow>
    client_run P C accepts job mine room s ins outs s2"
| retry: "\<lbrakk>client_run P C accepts job mine room s ins outs s1; wf_envelope maxNestingDepth (failed_once env err);
    ci_Retry C now cx env i err s1 = (None, s2)\<rbrakk> \<Longrightarrow>
    client_run P C accepts job mine room s
      (ins @ (if RetryCount (failed_once env err) < MaxRetries env then [failed_once env err] else [])) outs s2"
| reclaim: "\<lbrakk>client_run P C accepts job mine room s ins outs s1; ci_ReclaimStale C cx idle n s1 = Some (r, s2)\<rbrakk> \<Longrightarrow>
    client_run P C accepts job mine room s ins outs s2"
| info: "\<lbrakk>client_run P C accepts job mine room s ins outs s1; ci_GetPendingInfo C nowMs c s1 = (rp, s2)\<rbrakk> \<Longrightarrow>
    client_run P C accepts job mine room s ins outs s2"
| lengths: "\<lbrakk>client_run P C accepts job mine room s ins outs s1; pi_StreamLength P cx s1 = (rl, s2)\<rbrakk> \<Longrightarrow>
    client_run P C accepts job mine room s ins outs s2"

text \<open>What was taken and what waits, in order: \<open>delivered outs\<close> followed by the backlog is the old backlog followed by \<open>ins\<close>.\<close>

definition balanced :: "job_queue \<Rightarrow> JobEnvelope list \<Rightarrow> JobEnvelope list \<Rightarrow> job_queue \<Rightarrow> bool" where
  "balanced q ins outs q' \<longleftrightarrow> map Some outs @ map snd (jq_waiting q') = map snd (jq_waiting q) @ map Some ins"

lemma balanced_step:
  assumes "balanced q ins outs q1" "qrun evs q1 q2" "never_full evs"
    and "map snd (puts evs) = map Some ins'" "map snd (takes evs) = map Some outs'"
  shows "balanced q (ins @ ins') (outs @ outs') q2"
proof -
  from qrun_fifo [OF assms(2,3)] have "map snd (takes evs) @ map snd (jq_waiting q2) = map snd (jq_waiting q1) @ map snd (puts evs)"
    by (metis map_append)
  with assms(1,4,5) show ?thesis unfolding balanced_def by (metis append.assoc map_append)
qed

lemma balanced_waiting: "balanced q ins outs q1 \<Longrightarrow> jq_waiting q2 = jq_waiting q1 \<Longrightarrow> balanced q ins outs q2"
  by (simp add: balanced_def)

context job_queue_interface
begin

lemma client_run_balanced:
  assumes "client_run P C accepts job mine room s ins outs s'" "ok s"
  shows "ok s' \<and> balanced (Q s) ins outs (Q s')"
  using assms
proof (induction rule: client_run.induct)
  case start
  then show ?case by (simp add: balanced_def)
next
  case (enqueue ins outs s1 uuid now e c i s2)
  then have 1: "ok s1" "balanced (Q s) ins outs (Q s1)" by auto
  from enqueue_law [OF 1(1) enqueue.hyps(2,4)] enqueue.hyps(3) have "ok s2"
    and "qrun (if mine e then [Put False i (job uuid now e)] else []) (Q s1) (Q s2)" by (auto simp: Let_def)
  with balanced_step [OF 1(2) this(2), of _ "[]"] show ?case by (cases "mine e") auto
next
  case (batch ins outs s1 uuids nows evs c ids s2)
  then have 1: "ok s1" "balanced (Q s) ins outs (Q s1)" by auto
  from batch_law [OF 1(1) batch.hyps(2,4)] batch.hyps(3) obtain qs where "ok s2" "qrun qs (Q s1) (Q s2)" "never_full qs"
    "takes qs = []" "map snd (puts qs) = map Some (batch_jobs job mine uuids nows evs)" by auto
  with balanced_step [OF 1(2) this(2,3,5), of "[]"] show ?case by auto
next
  case (consume ins outs s1 c b env i s2)
  then have 1: "ok s1" "balanced (Q s) ins outs (Q s1)" by auto
  from consume_law [OF 1(1) consume.hyps(2)] have "ok s2" "qrun [Take (i, Some env)] (Q s1) (Q s2)" by auto
  with balanced_step [OF 1(2) this(2), of "[]" "[env]"] show ?case by auto
next
  case (consume_empty ins outs s1 c b i s2)
  then have 1: "ok s1" "balanced (Q s) ins outs (Q s1)" by auto
  from consume_law [OF 1(1) consume_empty.hyps(2)] 1(2) show ?case by auto
next
  case (ack ins outs s1 c i s2)
  then have 1: "ok s1" "balanced (Q s) ins outs (Q s1)" by auto
  from ack_law [OF 1(1) ack.hyps(2)] have "ok s2" "qrun [Finish i] (Q s1) (Q s2)" by auto
  with balanced_step [OF 1(2) this(2), of "[]" "[]"] show ?case by auto
next
  case (retry ins outs s1 env err now cx i s2)
  then have 1: "ok s1" "balanced (Q s) ins outs (Q s1)" by auto
  from retry_law [OF 1(1) retry.hyps(2,3)] obtain j where "ok s2" "qrun (retry_events env err i j) (Q s1) (Q s2)" by auto
  with balanced_step [OF 1(2) this(2), of _ "[]"] show ?case by (auto simp: retry_events_def)
next
  case (reclaim ins outs s1 cx idle n r s2)
  then have 1: "ok s1" "balanced (Q s) ins outs (Q s1)" by auto
  from reclaim_law [OF 1(1), of cx idle n] reclaim.hyps(2) balanced_waiting [OF 1(2)] show ?case by auto
next
  case (info ins outs s1 nowMs c rp s2)
  with info_law [OF _ info.hyps(2)] show ?case by auto
next
  case (lengths ins outs s1 cx rl s2)
  with length_law [OF _ lengths.hyps(2)] show ?case by auto
qed

end

section \<open>The Redis queue implements the contract\<close>

definition stream_room :: "Producer \<Rightarrow> Consumer \<Rightarrow> nat \<Rightarrow> stream_db \<Rightarrow> bool" where
  "stream_room p co n d \<longleftrightarrow> q_MaxLen (pr_config p) \<le> 0 \<or> int (length (ents d (co_streamName co))) + int n \<le> q_MaxLen (pr_config p)"

definition in_partition :: "Producer \<Rightarrow> Consumer \<Rightarrow> LogEvent \<Rightarrow> bool" where
  "in_partition p co e \<longleftrightarrow> stream_of p e = co_streamName co"

lemma stream_full_room: "stream_full p co d \<longleftrightarrow> \<not> stream_room p co 1 d"
  by (auto simp: stream_full_def stream_room_def)

text \<open>The entries of a pipeline on the abstract queue: the jobs of the consumer's stream are put, in order.\<close>

definition arg_jobs :: "Consumer \<Rightarrow> xadd_args list \<Rightarrow> JobEnvelope option list" where
  "arg_jobs co as = concat (map (\<lambda>(k, m, v). if k = co_streamName co then [message_job v] else []) as)"

lemma arg_jobs_Cons [simp]:
  "arg_jobs co ((k, m, v) # as) = (if k = co_streamName co then message_job v # arg_jobs co as else arg_jobs co as)"
  by (simp add: arg_jobs_def)

lemma stream_room_added:
  assumes "added k (q_MaxLen (pr_config p)) v i d d'" "stream_room p co (Suc n) d"
  shows "stream_room p co n d'"
proof (cases "k = co_streamName co")
  case True
  with added_last [OF assms(1)] assms(2) show ?thesis by (auto simp: stream_room_def)
next
  case False
  then have "ents d' (co_streamName co) = ents d (co_streamName co)" using added_other [OF assms(1)] by auto
  with assms(2) show ?thesis by (auto simp: stream_room_def)
qed

lemma abs_added_all:
  assumes "added_all as is d d'" "\<forall>(k, m, v)\<in>set as. m = q_MaxLen (pr_config p) \<and> (\<exists>env. carries v env)" "group_of co d"
  shows "\<exists>qs. qrun qs (abs_queue co d) (abs_queue co d') \<and> takes qs = [] \<and> group_of co d' \<and>
    map snd (puts qs) = arg_jobs co as \<and> (stream_room p co (length as) d \<longrightarrow> never_full qs)"
  using assms
proof (induction as "is" d d' rule: added_all.induct)
  case (1 d d')
  then show ?case by (intro exI [of _ "[]"]) (simp add: arg_jobs_def)
next
  case (2 k m v as i "is" d d')
  then obtain d1 env where a: "added k m v i d d1" and rest: "added_all as is d1 d'" and m: "m = q_MaxLen (pr_config p)"
    and v: "carries v env" by auto
  have g1: "group_of co d1" using added_grp [OF a] "2.prems"(3) by simp
  from "2.IH" [OF rest _ g1] "2.prems"(2) obtain qs where qs: "qrun qs (abs_queue co d1) (abs_queue co d')" "takes qs = []"
    "group_of co d'" "map snd (puts qs) = arg_jobs co as" "stream_room p co (length as) d1 \<longrightarrow> never_full qs" by auto
  have room: "stream_room p co (length ((k, m, v) # as)) d \<longrightarrow> never_full qs"
    using stream_room_added [OF a [unfolded m]] qs(5) by simp
  show ?case
  proof (cases "k = co_streamName co")
    case True
    let ?ev = "Put (0 < m \<and> m \<le> int (length (ents d (co_streamName co)))) i env"
    from abs_added [OF a [unfolded True] v "2.prems"(3)] qs(1) have "qrun (?ev # qs) (abs_queue co d) (abs_queue co d')"
      by (rule qrun.cons)
    moreover have "message_job v = Some env" using message_job_decodes carries_decodes [OF v] by blast
    ultimately show ?thesis using qs room True by (intro exI [of _ "?ev # qs"]) (auto simp: stream_room_def m)
  next
    case False
    with abs_other [OF a False] qs room show ?thesis by (intro exI [of _ qs]) simp
  qed
qed simp_all

lemma batch_args_jobs:
  assumes "batch_args p uuids nows 0 evs = Ok as" "0 < q_PartitionCount (pr_config p)" "batch_accepted (producible p) uuids nows evs"
  shows "length as = length evs" "arg_jobs co as = map Some (batch_jobs (new_job p) (in_partition p co) uuids nows evs)"
    and "\<forall>(k, m, v)\<in>set as. m = q_MaxLen (pr_config p) \<and> (\<exists>env. carries v env)"
proof -
  from batch_args_spec [where j = 0, unfolded add_0, OF assms(1,2)] assms(3) have len: "length as = length evs"
    and nth: "\<forall>j<length evs. \<exists>e v. evs ! j = Some e \<and> as ! j = (stream_of p e, q_MaxLen (pr_config p), v) \<and>
        carries v (new_job p (uuids j) (nows j) e)" by (auto simp: batch_accepted_def)
  show "length as = length evs" by (rule len)
  show "\<forall>(k, m, v)\<in>set as. m = q_MaxLen (pr_config p) \<and> (\<exists>env. carries v env)"
    using len nth by (fastforce simp: in_set_conv_nth)
  have "arg_jobs co as = concat (map (\<lambda>j. case as ! j of (k, m, v) \<Rightarrow> if k = co_streamName co then [message_job v] else []) [0..<length evs])"
    unfolding arg_jobs_def len [symmetric] by (metis (no_types, lifting) map_nth map_map o_apply map_eq_conv)
  also have "\<dots> = concat (map (\<lambda>j. map Some (case evs ! j of None \<Rightarrow> [] | Some e \<Rightarrow>
      if in_partition p co e then [new_job p (uuids j) (nows j) e] else [])) [0..<length evs])"
  proof (rule arg_cong [where f = concat], rule map_cong [OF refl])
    fix j assume "j \<in> set [0..<length evs]"
    with nth obtain e v where "evs ! j = Some e" "as ! j = (stream_of p e, q_MaxLen (pr_config p), v)"
      and v: "carries v (new_job p (uuids j) (nows j) e)" by auto
    moreover have "message_job v = Some (new_job p (uuids j) (nows j) e)" using message_job_decodes carries_decodes [OF v] by blast
    ultimately show "(case as ! j of (k, m, v) \<Rightarrow> if k = co_streamName co then [message_job v] else []) =
      map Some (case evs ! j of None \<Rightarrow> [] | Some e \<Rightarrow> if in_partition p co e then [new_job p (uuids j) (nows j) e] else [])"
      by (simp add: in_partition_def)
  qed
  finally show "arg_jobs co as = map Some (batch_jobs (new_job p) (in_partition p co) uuids nows evs)"
    by (simp add: batch_jobs_def map_concat o_def)
qed

lemma batch_args_total:
  assumes "0 < q_PartitionCount (pr_config p)"
    and "\<forall>i<length evs. \<exists>e. evs ! i = Some e \<and> producible p (uuids (j + i)) (nows (j + i)) e"
  shows "\<exists>as. batch_args p uuids nows j evs = Ok as"
  using assms(2)
proof (induction evs arbitrary: j)
  case (Cons ev evs)
  from Cons.prems obtain e where e: "ev = Some e" "producible p (uuids j) (nows j) e" by force
  from producible_args [OF e(2) assms(1)] obtain v n where k: "streamNameFor (pr_config p) (Service e) = Ok (stream_of p e)"
    and b: "buildXAddArgs (stream_of p e) (q_MaxLen (pr_config p)) (new_job p (uuids j) (nows j) e)
      = Ok ((stream_of p e, q_MaxLen (pr_config p), v), n)" by metis
  have "\<forall>i<length evs. \<exists>e. evs ! i = Some e \<and> producible p (uuids (Suc j + i)) (nows (Suc j + i)) e"
    using Cons.prems by (metis Suc_mono add_Suc add_Suc_right length_Cons nth_Cons_Suc)
  with Cons.IH [of "Suc j"] b show ?case by (auto simp: e k new_job_def)
qed simp

lemma arg_jobs_subset: "set as' \<subseteq> set as \<Longrightarrow> set (arg_jobs co as') \<subseteq> set (arg_jobs co as)"
  by (fastforce simp: arg_jobs_def)

context redis_streams
begin

lemma EnqueueBatch_refines:
  assumes "invar s" "group_of co (db s)" "0 < q_PartitionCount (pr_config p)" "batch_accepted (producible p) uuids nows evs"
    and run: "EnqueueBatch R p uuids nows c evs s = (r, s')"
  shows "invar s' \<and> group_of co (db s') \<and> (\<exists>qs. qrun qs (abs_queue co (db s)) (abs_queue co (db s')) \<and> takes qs = [] \<and>
    (case r of
       Ok ids \<Rightarrow> length ids = length evs \<and> (stream_room p co (length evs) (db s) \<longrightarrow> never_full qs) \<and>
         map snd (puts qs) = map Some (batch_jobs (new_job p) (in_partition p co) uuids nows evs)
     | Err _ \<Rightarrow> set (map snd (puts qs)) \<subseteq> Some ` set (batch_jobs (new_job p) (in_partition p co) uuids nows evs)
     | Panic \<Rightarrow> False))"
proof (cases "evs = []")
  case True
  with assms show ?thesis by (auto simp: EnqueueBatch_def batch_jobs_def intro!: exI [of _ "[]"])
next
  case False
  from batch_args_total [OF assms(3), of evs uuids 0 nows] assms(4) obtain as where as: "batch_args p uuids nows 0 evs = Ok as"
    by (auto simp: batch_accepted_def)
  note j = batch_args_jobs [OF as assms(3,4)]
  obtain x s1 where x: "PipeXAdd R c as s = (x, s1)" by fastforce
  have s1: "s' = s1" using run False as x by (auto simp: EnqueueBatch_def split: sum.splits)
  show ?thesis
  proof (cases x)
    case (Inr ids)
    have r: "r = Ok ids" using run False as x Inr by (auto simp: EnqueueBatch_def)
    from pipe_ok [OF assms(1) x [unfolded Inr]] have "invar s1" and a: "added_all as ids (db s) (db s1)" by auto
    with abs_added_all [OF a j(3) assms(2)] j(1,2) added_all_length [OF a] s1 r show ?thesis by auto
  next
    case (Inl e)
    have r: "\<exists>e. r = Err e" using run False as x Inl by (auto simp: EnqueueBatch_def)
    from pipe_err [OF assms(1) x [unfolded Inl]] obtain as' "is" where i1: "invar s1" and sub: "set as' \<subseteq> set as"
      and a: "added_all as' is (db s) (db s1)" by auto
    have "\<forall>(k, m, v)\<in>set as'. m = q_MaxLen (pr_config p) \<and> (\<exists>env. carries v env)" using j(3) sub by blast
    from abs_added_all [OF a this assms(2)] obtain qs where "qrun qs (abs_queue co (db s)) (abs_queue co (db s1))" "takes qs = []"
      "group_of co (db s1)" and p: "map snd (puts qs) = arg_jobs co as'" by blast
    moreover have "set (map snd (puts qs)) \<subseteq> Some ` set (batch_jobs (new_job p) (in_partition p co) uuids nows evs)"
      using arg_jobs_subset [OF sub, of co] j(2) [of co] unfolding p by simp
    ultimately show ?thesis using i1 r s1 by auto
  qed
qed

end

text \<open>
  A producer with a validated configuration and a consumer of one of its partitions on a Redis server; dead letters go to
  another stream.
\<close>

locale redis_queue = redis_streams R db invar rank
  for R :: "'s redis_client" and db invar rank +
  fixes p :: Producer and co :: Consumer
  assumes partitions: "0 < q_PartitionCount (pr_config p)"
    and own_stream: "\<forall>dlq. co_dlq co = Some dlq \<longrightarrow> dq_streamName dlq \<noteq> co_streamName co"
begin

lemma reclaim_refines:
  assumes "invar s" "group_of co (db s)"
  shows "\<exists>jobs e s'. ReclaimStale R co cx idle n s = Some ((jobs, e), s') \<and> (invar s' \<and> group_of co (db s')) \<and>
      jq_waiting (abs_queue co (db s')) = jq_waiting (abs_queue co (db s)) \<and>
      set (jq_taken (abs_queue co (db s'))) \<subseteq> set (jq_taken (abs_queue co (db s))) \<and>
      snd ` set jobs \<subseteq> set (jq_taken (abs_queue co (db s)))"
proof -
  from ReclaimStale_outcome [OF assms(1), of co cx idle n] obtain acc e s'
    where run: "ReclaimStale R co cx idle n s = Some ((acc, e), s')" "invar s'" "claimed_from (db s) co acc" "same_entries (db s) (db s')"
      "set (pend (db s') (co_streamName co) (co_consumerGroup co)) \<subseteq> set (pend (db s) (co_streamName co) (co_consumerGroup co))"
    by metis
  then show ?thesis using assms(2)
    by (intro exI [of _ acc] exI [of _ e] exI [of _ s']) (auto simp: abs_queue_def same_entries_def claimed_from_def)
qed

end

sublocale redis_queue \<subseteq> queue: job_queue_interface "Producer_methods R p" "Consumer_methods R co"
  "\<lambda>s. invar s \<and> group_of co (db s)" "\<lambda>s. abs_queue co (db s)" "producible p" "new_job p" "in_partition p co"
  "\<lambda>n s. stream_room p co n (db s)"
proof (unfold_locales, goal_cases)
  case (1 s uuid now e c re s')
  then have s: "invar s" "group_of co (db s)" and run: "Enqueue R p uuid now c (Some e) s = (re, s')" by auto
  from Enqueue_refines [OF s partitions 1(2) run] show ?case
    by (cases re) (auto simp: enqueue_events_def stream_full_room in_partition_def Let_def)
next
  case (2 s uuids nows evs c rb s')
  then have s: "invar s" "group_of co (db s)" and run: "EnqueueBatch R p uuids nows c evs s = (rb, s')" by auto
  from EnqueueBatch_refines [OF s partitions 2(2) run] show ?case by blast
next
  case (3 s c b oe i err s')
  then have s: "invar s" "group_of co (db s)" and run: "Consume R co c b s = ((oe, i, err), s')" by auto
  from Consume_refines [OF s(1) run] s(2) show ?case by auto
next
  case (4 s c i ra s')
  then have s: "invar s" "group_of co (db s)" and run: "Ack R co c i s = (ra, s')" by auto
  from Ack_refines [OF s(1) run] s(2) show ?case by auto
next
  case (5 s env lerr now cx i rt s')
  then have s: "invar s" "group_of co (db s)" and run: "Retry R co now cx env i lerr s = (rt, s')" by auto
  from Retry_refines [OF s 5(2) own_stream run] show ?case by (auto split: if_splits)
next
  case (6 s cx idle n)
  then show ?case using reclaim_refines [of s cx idle n] by simp
next
  case (7 s nowMs c rp s')
  then have s: "invar s" "group_of co (db s)" and run: "GetPendingInfo R co nowMs c s = (rp, s')" by auto
  obtain x s1 where x: "XPending R c (co_streamName co) (co_consumerGroup co) s = (x, s1)" by fastforce
  have "s' = s1" using run x by (auto simp: GetPendingInfo_def Let_def split: sum.splits if_splits prod.splits)
  with xpending [OF s(1) x] s(2) show ?case by simp
next
  case (8 s cx rl s')
  then have s: "invar s" "group_of co (db s)" and run: "StreamLength R p cx s = (rl, s')" by auto
  from StreamLength_loop_sum [OF s(1) run [unfolded StreamLength_def]] s(2) show ?case by (simp add: in64_def)
qed

context redis_queue
begin

lemma clients_balanced:
  "\<lbrakk>client_run (Producer_methods R p) (Consumer_methods R co) (producible p) (new_job p) (in_partition p co)
      (\<lambda>n s. stream_room p co n (db s)) s ins outs s'; invar s; group_of co (db s)\<rbrakk> \<Longrightarrow>
   balanced (abs_queue co (db s)) ins outs (abs_queue co (db s'))"
  using queue.client_run_balanced by blast

end


interpretation mem_queue: redis_queue memory m_db mem_inv mem_rank demo_producer demo_stream_consumer
  by unfold_locales (simp_all add: demo_producer_def NewProducer_def DefaultQueue_def demo_stream_consumer_def NewConsumer_def)


section \<open>The contract of the dead letter queue\<close>

text \<open>The dead letters of a store, oldest first; a message that cannot be decoded is \<open>None\<close>.\<close>

type_synonym dead_letters = "(string \<times> DLQEntry option) list"

definition letter_added :: "int64 \<Rightarrow> string \<Rightarrow> DLQEntry \<Rightarrow> dead_letters \<Rightarrow> dead_letters \<Rightarrow> bool" where
  "letter_added maxLen i en l l' \<longleftrightarrow> i \<notin> fst ` set l \<and> (\<exists>n. trim_ok maxLen (length l) n \<and> l' = drop n l @ [(i, Some en)])"

abbreviation without :: "'b \<Rightarrow> ('b \<times> 'c) list \<Rightarrow> ('b \<times> 'c) list" where
  "without i l \<equiv> filter (\<lambda>x. fst x \<noteq> i) l"

definition readable :: "dead_letters \<Rightarrow> DLQEntry list" where
  "readable l = concat (map (\<lambda>(i, oe). case oe of None \<Rightarrow> [] | Some en \<Rightarrow> [en]) l)"

locale dead_letter_interface =
  fixes D :: "'s DLQInterface"
    and ok :: "'s \<Rightarrow> bool"
    and L :: "'s \<Rightarrow> dead_letters"
    and maxLen :: int64
    and main_stream :: "string \<Rightarrow> bool"
  assumes send_law: "\<lbrakk>ok s; wf_entry maxNestingDepth en; JobData en \<noteq> None; di_Send D c en s = (rs, s')\<rbrakk> \<Longrightarrow>
      ok s' \<and> (case rs of
         Ok i \<Rightarrow> i \<noteq> ''-'' \<and> i \<noteq> ''+'' \<and> letter_added maxLen i en (L s) (L s')
       | Err _ \<Rightarrow> L s' = L s \<or> (\<exists>i. letter_added maxLen i en (L s) (L s'))
       | Panic \<Rightarrow> False)"
    and get_law: "\<lbrakk>ok s; i \<noteq> ''-''; i \<noteq> ''+''; di_Get D c i s = (rg, s')\<rbrakk> \<Longrightarrow>
      ok s' \<and> L s' = L s \<and> (case rg of
         Ok en \<Rightarrow> map_of (L s) i = Some (Some en)
       | Err e \<Rightarrow> e = not_found i \<longrightarrow> map_of (L s) i = None
       | Panic \<Rightarrow> False)"
    and list_law: "\<lbrakk>ok s; di_List D c ''-'' ''+'' n s = (rl, s')\<rbrakk> \<Longrightarrow>
      ok s' \<and> L s' = L s \<and> rl \<noteq> Panic \<and> (\<forall>ens. rl = Ok ens \<longrightarrow> ens = readable (if 0 < n then take (nat n) (L s) else L s))"
    and count_law: "\<lbrakk>ok s; di_Count D c s = (rc, s')\<rbrakk> \<Longrightarrow>
      ok s' \<and> L s' = L s \<and> rc \<noteq> Panic \<and> (\<forall>m. rc = Ok m \<longrightarrow> m = int (length (L s)))"
    and delete_law: "\<lbrakk>ok s; di_Delete D c i s = (rd, s')\<rbrakk> \<Longrightarrow>
      ok s' \<and> (case rd of
         Ok u \<Rightarrow> map_of (L s) i \<noteq> None \<and> L s' = without i (L s)
       | Err e \<Rightarrow> (L s' = L s \<or> L s' = without i (L s)) \<and> (e = not_found i \<longrightarrow> map_of (L s) i = None \<and> L s' = L s)
       | Panic \<Rightarrow> False)"
    and requeue_law: "\<lbrakk>ok s; main_stream k; di_Requeue D cx i k m s = (rq, s')\<rbrakk> \<Longrightarrow>
      ok s' \<and> (L s' = L s \<or> L s' = without i (L s))"

text \<open>Any number of operations on the dead letter queue, with any results, that leave the letter \<open>i\<close> alone; \<open>room\<close> says that the next \<open>Send\<close> does not trim.\<close>

inductive dlq_client :: "'s DLQInterface \<Rightarrow> (string \<Rightarrow> bool) \<Rightarrow> ('s \<Rightarrow> bool) \<Rightarrow> string \<Rightarrow> 's \<Rightarrow> 's \<Rightarrow> bool"
  for D main_stream room i s where
  start: "dlq_client D main_stream room i s s"
| send: "\<lbrakk>dlq_client D main_stream room i s s1; wf_entry maxNestingDepth en; JobData en \<noteq> None; room s1; di_Send D c en s1 = (rs, s2)\<rbrakk> \<Longrightarrow>
    dlq_client D main_stream room i s s2"
| get: "\<lbrakk>dlq_client D main_stream room i s s1; j \<noteq> ''-''; j \<noteq> ''+''; di_Get D c j s1 = (rg, s2)\<rbrakk> \<Longrightarrow> dlq_client D main_stream room i s s2"
| list: "\<lbrakk>dlq_client D main_stream room i s s1; di_List D c ''-'' ''+'' n s1 = (rl, s2)\<rbrakk> \<Longrightarrow> dlq_client D main_stream room i s s2"
| count: "\<lbrakk>dlq_client D main_stream room i s s1; di_Count D c s1 = (rc, s2)\<rbrakk> \<Longrightarrow> dlq_client D main_stream room i s s2"
| delete: "\<lbrakk>dlq_client D main_stream room i s s1; j \<noteq> i; di_Delete D c j s1 = (rd, s2)\<rbrakk> \<Longrightarrow> dlq_client D main_stream room i s s2"
| requeue: "\<lbrakk>dlq_client D main_stream room i s s1; j \<noteq> i; main_stream k; di_Requeue D cx j k m s1 = (rq, s2)\<rbrakk> \<Longrightarrow>
    dlq_client D main_stream room i s s2"

lemma map_of_without: "map_of (without j l) i = (if i = j then None else map_of l i)"
  by (induction l) auto

lemma map_of_letter_added:
  assumes "letter_added maxLen j en l l'" "maxLen \<le> 0 \<or> int (length l) < maxLen" "map_of l i = Some x"
  shows "map_of l' i = Some x"
proof -
  from assms(1) obtain n where n: "trim_ok maxLen (length l) n" "l' = drop n l @ [(j, Some en)]" and j: "j \<notin> fst ` set l"
    by (auto simp: letter_added_def)
  have "n = 0" using n(1) assms(2) by (auto simp: trim_ok_def)
  moreover have "i \<noteq> j" using assms(3) j map_of_SomeD [of l i x] by force
  ultimately show ?thesis using n(2) assms(3) by simp
qed

lemma letter_added_found:
  assumes "letter_added maxLen i en l l'" shows "map_of l' i = Some (Some en)"
proof -
  from assms obtain n where l': "l' = drop n l @ [(i, Some en)]" and i: "i \<notin> fst ` set l" by (auto simp: letter_added_def)
  have "map_of (drop n l) i = None" using i by (force simp: map_of_eq_None_iff dest: in_set_dropD)
  then show ?thesis by (simp add: l' map_add_def)
qed

context dead_letter_interface
begin

lemma letter_stays:
  assumes "dlq_client D main_stream (\<lambda>s. maxLen \<le> 0 \<or> int (length (L s)) < maxLen) i s s'" "ok s" "map_of (L s) i = Some x"
  shows "ok s' \<and> map_of (L s') i = Some x"
  using assms
proof (induction rule: dlq_client.induct)
  case (send s1 en c rs s2)
  then have 1: "ok s1" "map_of (L s1) i = Some x" by auto
  from send_law [OF 1(1) send.hyps(2,3,5)] map_of_letter_added [OF _ send.hyps(4) 1(2)] 1(2) show ?case
    by (cases rs) auto
next
  case (get s1 j c rg s2)
  with get_law [OF _ get.hyps(2-4)] show ?case by auto
next
  case (list s1 c n rl s2)
  with list_law [OF _ list.hyps(2)] show ?case by auto
next
  case (count s1 c rc s2)
  with count_law [OF _ count.hyps(2)] show ?case by auto
next
  case (delete s1 j c rd s2)
  then have 1: "ok s1" "map_of (L s1) i = Some x" by auto
  from delete_law [OF 1(1) delete.hyps(3)] 1(2) delete.hyps(2) show ?case by (cases rd) (auto simp: map_of_without)
next
  case (requeue s1 j k cx m rq s2)
  then have 1: "ok s1" "map_of (L s1) i = Some x" by auto
  from requeue_law [OF 1(1) requeue.hyps(3,4)] 1(2) requeue.hyps(2) show ?case by (auto simp: map_of_without)
qed simp

end

section \<open>The Redis dead letter queue implements the contract\<close>

definition message_entry :: "fields \<Rightarrow> DLQEntry option" where
  "message_entry v = (case map_of v ''entry'' of
     None \<Rightarrow> None
   | Some t \<Rightarrow> (case unmarshal_DLQEntry t of Ok en \<Rightarrow> Some en | _ \<Rightarrow> None))"

definition abs_dlq :: "DLQ \<Rightarrow> stream_db \<Rightarrow> dead_letters" where
  "abs_dlq d b = map (\<lambda>(i, v). (i, message_entry v)) (ents b (dq_streamName d))"

definition letter_room :: "DLQ \<Rightarrow> stream_db \<Rightarrow> bool" where
  "letter_room d b \<longleftrightarrow> dq_maxLen d \<le> 0 \<or> int (length (abs_dlq d b)) < dq_maxLen d"

lemma message_entry_holds: "holds_entry v en \<Longrightarrow> message_entry v = Some en"
  by (auto simp: holds_entry_def message_entry_def)

lemma abs_dlq_added:
  assumes "added (dq_streamName d) (dq_maxLen d) v i b b'" "holds_entry v en"
  shows "letter_added (dq_maxLen d) i en (abs_dlq d b) (abs_dlq d b')"
proof -
  from assms(1) obtain n where n: "trim_ok (dq_maxLen d) (length (ents b (dq_streamName d))) n"
    and b': "b' = db_add (dq_streamName d) i v (db_trim (dq_streamName d) n b)" and i: "i \<notin> fst ` set (ents b (dq_streamName d))"
    by (auto simp: added_def)
  have "abs_dlq d b' = drop n (abs_dlq d b) @ [(i, Some en)]"
    using message_entry_holds [OF assms(2)] by (simp add: abs_dlq_def b' db_add_def db_trim_def drop_map)
  moreover have "i \<notin> fst ` set (abs_dlq d b)" using i by (force simp: abs_dlq_def)
  ultimately show ?thesis using n by (auto simp: letter_added_def abs_dlq_def)
qed

lemma abs_dlq_del: "abs_dlq d (db_del (dq_streamName d) i b) = without i (abs_dlq d b)"
  by (simp add: abs_dlq_def db_del_def filter_map o_def split_beta)

lemma map_of_first: "map_of (map (\<lambda>(i, v). (i, f v)) l) i = (case filter (\<lambda>e. fst e = i) l of [] \<Rightarrow> None | x # _ \<Rightarrow> Some (f (snd x)))"
  by (induction l) auto

lemma map_of_abs_dlq: "map_of (abs_dlq d b) i =
    (case filter (\<lambda>e. fst e = i) (ents b (dq_streamName d)) of [] \<Rightarrow> None | x # _ \<Rightarrow> Some (message_entry (snd x)))"
  unfolding abs_dlq_def by (rule map_of_first)

lemma list_entries_readable: "list_entries (map xmsg es) = readable (map (\<lambda>(i, v). (i, message_entry v)) es)"
  by (induction es) (auto simp: readable_def message_entry_def xmsg_def split: option.splits go.splits)

context redis_streams
begin

lemma DLQ_Get_spec:
  assumes "invar s" "DLQ_Get R d c i s = (r, s')"
  shows "invar s' \<and> db s' = db s \<and> (i \<noteq> ''-'' \<longrightarrow> i \<noteq> ''+'' \<longrightarrow> (case r of
       Ok en \<Rightarrow> map_of (abs_dlq d (db s)) i = Some (Some en)
     | Err e \<Rightarrow> e = not_found i \<longrightarrow> map_of (abs_dlq d (db s)) i = None
     | Panic \<Rightarrow> False))"
proof -
  obtain x s1 where x: "XRange R c (dq_streamName d) i i s = (x, s1)" by fastforce
  have s1: "s' = s1" using assms(2) x
    by (auto simp: DLQ_Get_def split: sum.splits list.splits option.splits go.splits)
  from xrange_id [OF assms(1) x] have k: "invar s1" "db s1 = db s"
    and ms: "\<forall>ms. x = Inr ms \<longrightarrow> i \<noteq> ''-'' \<longrightarrow> i \<noteq> ''+'' \<longrightarrow> ms = map xmsg (filter (\<lambda>e. fst e = i) (ents (db s) (dq_streamName d)))"
    by auto
  show ?thesis
  proof (cases x)
    case (Inl e)
    with assms(2) x k s1 show ?thesis by (auto simp: DLQ_Get_def not_found_def)
  next
    case (Inr l)
    with ms assms(2) x k s1 show ?thesis
      by (auto simp: DLQ_Get_def not_found_def map_of_abs_dlq message_entry_def xmsg_def
          split: list.splits option.splits go.splits)
  qed
qed

lemma DLQ_Delete_spec:
  assumes "invar s" "DLQ_Delete R d c i s = (r, s')"
  shows "invar s' \<and> (case r of
       Ok u \<Rightarrow> map_of (abs_dlq d (db s)) i \<noteq> None \<and> abs_dlq d (db s') = without i (abs_dlq d (db s))
     | Err e \<Rightarrow> (abs_dlq d (db s') = abs_dlq d (db s) \<or> abs_dlq d (db s') = without i (abs_dlq d (db s))) \<and>
         (e = not_found i \<longrightarrow> map_of (abs_dlq d (db s)) i = None \<and> abs_dlq d (db s') = abs_dlq d (db s))
     | Panic \<Rightarrow> False)"
proof -
  obtain x s1 where x: "XDel R c (dq_streamName d) i s = (x, s1)" by fastforce
  show ?thesis
  proof (cases x)
    case (Inl e)
    with xdel_err [OF assms(1) x [unfolded Inl]] assms(2) x show ?thesis
      by (auto simp: DLQ_Delete_def not_found_def abs_dlq_del)
  next
    case (Inr n)
    let ?f = "filter (\<lambda>e. fst e = i) (ents (db s) (dq_streamName d))"
    from xdel_ok [OF assms(1) x [unfolded Inr]] have h: "invar s1" "db s1 = db_del (dq_streamName d) i (db s)" "n = int (length ?f)" by auto
    have m: "map_of (abs_dlq d (db s)) i = None \<longleftrightarrow> n = 0" by (simp add: map_of_abs_dlq h(3) split: list.splits)
    have "without i (abs_dlq d (db s)) = abs_dlq d (db s)" if "n = 0"
      using m that by (auto simp: map_of_eq_None_iff intro!: filter_True)
    with h m assms(2) x Inr show ?thesis by (auto simp: DLQ_Delete_def abs_dlq_del split: if_splits)
  qed
qed

end

text \<open>A dead letter queue on a Redis server; jobs are requeued to other streams.\<close>

locale redis_dlq = redis_streams R db invar rank
  for R :: "'s redis_client" and db invar rank +
  fixes d :: DLQ
begin

lemma xadd_other:
  assumes "invar s" "XAdd R c k m v s = (x, s')" "k \<noteq> dq_streamName d"
  shows "invar s' \<and> abs_dlq d (db s') = abs_dlq d (db s)"
proof -
  have "ents (db s') (dq_streamName d) = ents (db s) (dq_streamName d) \<and> invar s'"
    using xadd_ok [OF assms(1)] xadd_err [OF assms(1)] assms(2,3) added_other by (cases x) metis+
  then show ?thesis by (simp add: abs_dlq_def)
qed

lemma Requeue_spec:
  assumes "invar s" "k \<noteq> dq_streamName d" "Requeue R d cx i k m s = (r, s')"
  shows "invar s' \<and> (abs_dlq d (db s') = abs_dlq d (db s) \<or> abs_dlq d (db s') = without i (abs_dlq d (db s)))"
proof -
  obtain r1 s1 where g: "DLQ_Get R d (cx 0) i s = (r1, s1)" by fastforce
  from DLQ_Get_spec [OF assms(1) g] have s1: "invar s1" "db s1 = db s" by auto
  have early: ?thesis if "s' = s1" using that s1 by simp
  show ?thesis
  proof (cases "\<exists>en job k' m' v n. r1 = Ok en \<and> JobData en = Some job \<and>
      buildXAddArgs k m (job\<lparr>RetryCount := 0, LastError := ''''\<rparr>) = Ok ((k', m', v), n)")
    case False
    then have "s' = s1" using assms(3) g by (auto simp: Requeue_def split: go.splits option.splits)
    then show ?thesis by (rule early)
  next
    case True
    then obtain en job k' m' v n where t: "r1 = Ok en" "JobData en = Some job"
      and b: "buildXAddArgs k m (job\<lparr>RetryCount := 0, LastError := ''''\<rparr>) = Ok ((k', m', v), n)" by blast
    have k: "k' = k" using b by (auto simp: buildXAddArgs_def split: go.splits)
    obtain x s2 where x: "XAdd R (cx 1) k m' v s1 = (x, s2)" by fastforce
    obtain y s3 where y: "DLQ_Delete R d (cx 2) i s2 = (y, s3)" by fastforce
    from xadd_other [OF s1(1) x assms(2)] s1(2) have s2: "invar s2" "abs_dlq d (db s2) = abs_dlq d (db s)" by auto
    from DLQ_Delete_spec [OF s2(1) y] s2(2)
    have s3: "invar s3 \<and> (abs_dlq d (db s3) = abs_dlq d (db s) \<or> abs_dlq d (db s3) = without i (abs_dlq d (db s)))"
      by (auto split: go.splits)
    have "s' = s2 \<or> s' = s3" using assms(3) t b x y unfolding Requeue_def g k
      by (auto simp del: One_nat_def split: sum.splits)
    with s2 s3 show ?thesis by auto
  qed
qed

end

sublocale redis_dlq \<subseteq> letters: dead_letter_interface "DLQ_methods R d" invar "\<lambda>s. abs_dlq d (db s)" "dq_maxLen d"
  "\<lambda>k. k \<noteq> dq_streamName d"
proof (unfold_locales, goal_cases)
  case (1 s en c rs s')
  then have run: "Send R d c en s = (rs, s')" by simp
  from Send_outcome [OF 1(1-3) run] abs_dlq_added [of d _ _ "db s" "db s'" en] show ?case by (cases rs) auto
next
  case (2 s i c rg s')
  then have run: "DLQ_Get R d c i s = (rg, s')" by simp
  from DLQ_Get_spec [OF 2(1) run] 2(2,3) show ?case by auto
next
  case (3 s c n rl s')
  then have run: "DLQ_List R d c ''-'' ''+'' n s = (rl, s')" by simp
  obtain x s1 where x: "XRange R c (dq_streamName d) ''-'' ''+'' s = (x, s1)" by fastforce
  from xrange_all [OF 3(1) x] run x show ?case
    by (cases x) (auto simp: DLQ_List_def Let_def take_map abs_dlq_def list_entries_readable split: if_splits)
next
  case (4 s c rc s')
  then have run: "DLQ_Count R d c s = (rc, s')" by simp
  obtain x s1 where x: "XLen R c (dq_streamName d) s = (x, s1)" by fastforce
  from xlen [OF 4(1) x] run x show ?case by (cases x) (auto simp: DLQ_Count_def abs_dlq_def)
next
  case (5 s c i rd s')
  then have run: "DLQ_Delete R d c i s = (rd, s')" by simp
  from DLQ_Delete_spec [OF 5(1) run] show ?case .
next
  case (6 s k cx i m rq s')
  then have run: "Requeue R d cx i k m s = (rq, s')" by simp
  from Requeue_spec [OF 6(1,2) run] show ?case .
qed

context redis_dlq
begin

text \<open>A letter that was sent is found and listed after any operations on others.\<close>

lemma sent_letter_found:
  assumes "invar s" "wf_entry maxNestingDepth en" "JobData en \<noteq> None" "Send R d c en s = (Ok i, s1)"
    and later: "dlq_client (DLQ_methods R d) (\<lambda>k. k \<noteq> dq_streamName d) (\<lambda>s. letter_room d (db s)) i s1 s2"
  shows "(case DLQ_Get R d c' i s2 of
            (Ok en', s3) \<Rightarrow> en' = en
          | (Err e, s3) \<Rightarrow> e \<noteq> not_found i
          | (Panic, s3) \<Rightarrow> False) \<and>
         (case DLQ_List R d c'' ''-'' ''+'' 0 s2 of (Ok ens, s3) \<Rightarrow> en \<in> set ens | (Err e, s3) \<Rightarrow> True | (Panic, s3) \<Rightarrow> False)"
proof -
  from letters.send_law [OF assms(1-3)] assms(4) have s1: "invar s1" "i \<noteq> ''-''" "i \<noteq> ''+''"
    and a: "letter_added (dq_maxLen d) i en (abs_dlq d (db s)) (abs_dlq d (db s1))" by fastforce+
  from letters.letter_stays [OF later [unfolded letter_room_def] s1(1) letter_added_found [OF a]]
  have s2: "invar s2" "map_of (abs_dlq d (db s2)) i = Some (Some en)" by auto
  obtain rg s3 where g: "DLQ_Get R d c' i s2 = (rg, s3)" by fastforce
  obtain rl s4 where l: "DLQ_List R d c'' ''-'' ''+'' 0 s2 = (rl, s4)" by fastforce
  have "en \<in> set (readable (abs_dlq d (db s2)))" using map_of_SomeD [OF s2(2)] by (force simp: readable_def)
  moreover have "rl \<noteq> Panic \<and> (\<forall>ens. rl = Ok ens \<longrightarrow> ens = readable (abs_dlq d (db s2)))"
    using letters.list_law [OF s2(1), of c'' 0 rl s4] l by simp
  ultimately show ?thesis using DLQ_Get_spec [OF s2(1) g] s1(2,3) s2(2) unfolding g l by (auto split: go.splits)
qed

end


interpretation mem_dlq: redis_dlq memory m_db mem_inv mem_rank demo_dlq ..


end
