(* ===== verification/Spec2Isabelle.thy ===== *)
theory Spec2Isabelle
  imports Services Queue_Interfaces
begin

text \<open>
  Verification of the log ingestion pipeline (Go, three programs under \<open>cmd\<close>).

  \<^bold>\<open>The system.\<close> The ingestion service accepts log events over HTTP, asks a throttler whether to take them, and appends
  each as a job to one of several Redis streams (partitions). Workers read the streams through consumer groups, process the jobs,
  acknowledge, retry or bury them in a dead letter stream, and take over messages of workers that died. Workers keep a
  heartbeat in a registry that a control plane, elected by a lock in Redis, watches.

  \<^bold>\<open>The theories\<close>, in the order of their imports, with the code they model:

  \<^item> \<open>Go_Prelude\<close>, \<open>Go_Strconv\<close>, \<open>Go_Float\<close>, \<open>Go_Number\<close>, \<open>Go_Duration\<close>, \<open>Go_Time\<close>, \<open>Go_Json\<close>, \<open>Go_Float_Text\<close>: what the code uses of Go
    itself. 64-bit integers are \<open>int\<close> with \<open>wrap64\<close> where the code can overflow; \<open>float64\<close> is a rational rounded once per
    operation to IEEE binary64; errors are values of \<open>goerror\<close>, results of \<open>go\<close> (a value, an error, or a panic).
    \<open>encoding/json\<close>, RFC 3339, \<open>strconv\<close> and \<open>time.ParseDuration\<close> are modelled byte by byte, with the round trips; \<open>Go_Float_Text\<close> shows that the
    shortest decimal of every finite float is found and reads back as the same float.
  \<^item> \<open>Transition_Systems\<close>: inevitable events of a step relation (\<open>inevitable\<close>), and the locale \<open>draining\<close> for systems whose own steps
    come to an end; the shutdown of the worker and of the throttler are instances.
  \<^item> \<open>Configuration\<close> (\<open>config.go\<close>, \<open>defaults.go\<close>, \<open>validator.go\<close>) and \<open>Config_Loader\<close> (\<open>loader.go\<close>): what validation establishes,
    and that each environment variable sets its own field.
  \<^item> \<open>Observability\<close> (\<open>logger.go\<close>): loggers as level, format and attributes.
  \<^item> \<open>Partitioning\<close> (FNV-1a routing and the names of streams and groups), \<open>Models\<close> (\<open>pkg/models\<close>, \<open>queue/types.go\<close>), \<open>Models_Typing\<close>: whatever is
    decoded is well formed, which values encode again, and which envelopes are too deep for the decoder.
  \<^item> \<open>Redis_Client\<close>: the client library is not part of the repository, so it is a record of commands and a parameter of
    every definition; the locales \<open>redis_streams\<close>, \<open>redis_keys\<close>, \<open>redis_hashes\<close>, \<open>redis_server\<close>, \<open>redis_service\<close> and \<open>redis_backend\<close> state the documented effect
    of the commands, and that a command that reports an error may or may not have been carried out.
    \<open>Redis_Memory\<close> interprets all of them on a concrete in-memory server with injected faults, which the witnesses run.
  \<^item> \<open>Queue_Message\<close>, \<open>Queue_Producer\<close>, \<open>Queue_DLQ\<close>, \<open>Queue_Consumer\<close> (\<open>internal/queue\<close>): delivery, retries, dead letters, reclaiming.
    \<open>Queue_Refinement\<close>: the abstract job queue that these operations refine. \<open>Queue_Interfaces\<close> (\<open>interfaces.go\<close>): the interfaces as records of
    operations, their contracts as locales (\<open>job_queue_interface\<close>, \<open>dead_letter_interface\<close>) with the facts about clients, and the
    implementations as sublocales.
  \<^item> \<open>Worker_Processor\<close>, \<open>Worker\<close>, \<open>Worker_Concurrency\<close>, \<open>Worker_Shutdown\<close> (\<open>internal/worker\<close>): the processors with their contract
    (\<open>stream_safe_processor\<close>), the handling of one message, and \<open>Worker.Start\<close> with its goroutines as a step relation over a semaphore and an error
    group (\<open>weighted_semaphore\<close>, \<open>error_group\<close>), with the invariants of its reachable states and what a shutdown does and does not do.
  \<^item> \<open>Registry\<close>, \<open>Control_Plane\<close> (\<open>internal/registry\<close>): the registry of workers and the lock of the control plane.
  \<^item> \<open>Throttler\<close>, \<open>Throttler_Lifecycle\<close> (\<open>ingestion/throttler.go\<close>, \<open>adpative_throttler.go\<close>): the decisions with their floating point arithmetic
    (contract \<open>throttler_interface\<close>), and \<open>Start\<close>, \<open>Stop\<close> and the updaters as a step relation.
  \<^item> \<open>Http_Response\<close>, \<open>Http_Server\<close>, \<open>Health\<close>, \<open>Health_Server\<close>, \<open>Ingestion\<close>, \<open>Ingestion_Server\<close> (\<open>internal/ingestion\<close>, \<open>internal/health\<close>, \<open>worker/server.go\<close>):
    handlers as the calls they make on the response writer, the dispatch of requests, the health checks, the service, its endpoints
    and the life of the servers.
  \<^item> \<open>Bootstrap\<close>, \<open>Services\<close> (\<open>internal/bootstrap\<close>, \<open>cmd\<close>): how the components are built, and \<open>run\<close> of the three programs, where a session
    of the worker is a run of its step relation.

  \<^bold>\<open>State and effects.\<close> An operation is a function of the state \<open>'s\<close> of the Redis server. Clock readings, random numbers, generated identifiers and the
  state of a context at each use are arguments. The goroutines of the worker and of the throttler are steps of transition systems, in any order; the
  loop of the control plane is a function of the list of events its \<open>select\<close> statement sees; the order of concurrent health checks
  is an argument.

  \<^bold>\<open>What is proved.\<close> Nothing is lost silently: \<open>Retry\<close>, \<open>processMessage\<close> and \<open>Requeue\<close> leave a failed job pending, queued or buried, a dead letter stays
  until it is taken out, and no step of the worker takes a message off the pending list but the settlement of its job. Delivery: the queue refines the abstract
  queue, a partition is first in, first out for the clients of the interfaces, and an event answered with 202 is the job the worker of its partition
  processes (below). Every HTTP request is answered, whatever its body. \<open>Start\<close> of the worker returns only when everything has ended, and it does return after a
  signal; \<open>Stop\<close> of the throttler returns, and silences it. Safety of locks, bounds of delays and concurrency, termination of the reclaim loop, typing of
  decoded data, round trips of all encodings, and the behaviour on errors. Some theorems state what the code does where it differs from its documentation: see
  \<open>started_attempt_is_dropped\<close>, \<open>poison_message_stays\<close>, \<open>shutdown_leaves_jobs_pending\<close>, \<open>standby_never_leads\<close>, \<open>fresh_metrics_look_stale\<close>, \<open>updateMetrics_depth\<close>,
  \<open>throttler_variables_unused\<close>, \<open>HandleLogs_outcome\<close> and \<open>logger_levels\<close>.

  \<^bold>\<open>Bounds.\<close> The only loop without a bound in sequential code, the cursor loop of \<open>ReclaimStale\<close>, is a partial function, and it is proved
  to return when the server's cursor makes progress. The shortest decimal of a float is searched up to seventeen digits, which is proved
  to suffice for binary64. The parser of JSON has the nesting bound of Go's scanner, 10000. All other functions are total. That the loops of goroutines end is
  a property of their step relations: \<open>inevitable\<close> counts the steps of tickers and of the world outside, and every number of them is covered.

  \<^bold>\<open>Not modelled.\<close> The byte format of \<open>slog\<close>'s handlers; of \<open>net/http\<close>, everything but the dispatch by method and path, the response of a handler and
  the results of \<open>ListenAndServe\<close> and \<open>Shutdown\<close>; the fairness of the scheduler; \<open>pgx\<close> (only the result of a ping); \<open>DuplicateCount\<close>, a getter that only
  the integration tests call (its counter is passed through \<open>Dedup_Process\<close>); and the packages that are still empty (\<open>storage\<close>, \<open>validation\<close>, \<open>metrics.go\<close>, \<open>tracing.go\<close>).
  Log lines inside operations are left out of the model except where they can panic.
\<close>

section \<open>From the request to the processed job\<close>

lemma error_ops_not_accepted: "cn_status (serve_conn (error_ops impl err)) \<noteq> Some 202"
proof (cases "errors_As_RateLimited err")
  case (Some d)
  then have "error_ops impl err = error_ops impl (RateLimited d)" by (simp add: error_ops_def)
  then show ?thesis using error_ops_status(1) [of impl d] by simp
qed (simp add: error_ops_def http_status)

lemma HandleLogs_accepted:
  assumes "HandleLogs R sv impl decision nowt uuid now c body s = (Ok ops, s1)" "cn_status (serve_conn ops) = Some 202"
  obtains e i where "request_event nowt body = Ok e" "ops = accepted_ops i"
    "Enqueue R (sv_producer sv) uuid now c (Some e) s = (Ok i, s1)"
  using assms error_ops_not_accepted
  by (auto simp: HandleLogs_def IngestLog_def http_status split: go.splits prod.splits ThrottleDecision.splits if_splits)

text \<open>
  C1: An accepted event reaches its processor. Let the ingestion service and a worker be configured alike, the
  worker for the partition of the event, and let the partition be set up and have no backlog. When the endpoint answers 202, the identifier
  in the answer is that of a message which the worker's next \<open>Consume\<close> returns, unless Redis reports an error: a first attempt whose
  data is exactly the event of the request. (Nothing is asked of the body but that its metadata nests
  two levels less than the decoder allows.) It is then pending; and when the processor succeeds and the acknowledgement is carried out, it is pending no more.
\<close>

theorem accepted_event_is_processed:
  assumes R: "redis_streams R db invar rank" and s: "invar s" and cfg: "Validate cfg = None"
    and req: "HandleLogs R (NewService (SetupProducer cfg) cfg) impl decision nowt uuid now c body s = (Ok ops, s1)"
      "cn_status (serve_conn ops) = Some 202"
    and ev: "request_event nowt body = Ok e" "supplied (SetupProducer cfg) nowt uuid now" "shallow e"
    and part: "partitionFor (c_Queue cfg) (Service e) = Ok j"
    and wcfg: "c_Queue wcfg = (c_Queue cfg)\<lparr>q_PartitionID := j\<rparr>" "SetupConsumer dlq wcfg workerID = Ok co"
    and ready: "partition_group (c_Queue cfg) (db s) j" "fresh (db s) (co_streamName co) (co_consumerGroup co) = []"
    and con: "Consume R co c' b s1 = ((oe, i, None), s2)"
    and w: "wk_consumer w = co" "stream_safe_processor db invar (wk_processor w)"
    and work: "\<And>env. oe = Some env \<Longrightarrow> wk_processor w env s2 = (Ok (), s3)" "Ack R co (cx 0) i s3 = (None, s4)"
  shows "\<exists>env. oe = Some env \<and> Data env = Some e \<and> JobID env = uuid \<and> RetryCount env = 0 \<and> ops = accepted_ops i \<and>
           i \<in> set (pend (db s2) (co_streamName co) (co_consumerGroup co)) \<and>
           processMessage R w now' cx env i s2 = (Ok (), s4) \<and>
           i \<notin> set (pend (db s4) (co_streamName co) (co_consumerGroup co))"
proof -
  let ?p = "SetupProducer cfg"
  have pc: "pr_config ?p = c_Queue cfg" by (simp add: SetupProducer_def NewProducer_def)
  have n: "0 < q_PartitionCount (pr_config ?p)" using cfg by (simp add: pc cfg_defs)
  have j: "j = uint (fnv32a (Service e)) mod q_PartitionCount (c_Queue cfg)" using part n by (simp add: pc partitionFor_Ok)
  have co: "co_streamName co = stream_of ?p e" "group_of co (db s)"
    using wcfg ready(1) j by (auto simp: SetupConsumer_def Let_def NewConsumer_def stream_of_def pc)
  obtain i' where ops: "ops = accepted_ops i'" and enq: "Enqueue R ?p uuid now c (Some e) s = (Ok i', s1)"
    using HandleLogs_accepted [OF req] ev(1) by (auto simp: NewService_def)
  have "zone_event e" using Enqueue_bad_zone [OF _ n, of e R uuid now c s] enq by auto
  then have "producible ?p uuid now e"
    using typed_producible [OF _ ev(2) _ ev(3)] request_typed [OF ev(1)] ev(2) by (simp add: supplied_def)
  from redis_streams.Enqueue_outcome [OF R s n this enq] obtain v
    where s1: "invar s1" and v: "carries v (new_job ?p uuid now e)"
      and a: "added (stream_of ?p e) (q_MaxLen (pr_config ?p)) v i' (db s) (db s1)" by auto
  have fr: "fresh (db s1) (co_streamName co) (co_consumerGroup co) = [(i', v)]"
    using a co ready(2) by (auto simp: added_def db_add_def db_trim_def)
  from redis_streams.Consume_next [OF R s1 fr carries_decodes [OF v] con]
  have s2: "invar s2" "oe = Some (new_job ?p uuid now e)" "i = i'"
    "db s2 = db_deliver (co_streamName co) (co_consumerGroup co) (db s1)" by auto
  have s3: "invar s3" "db s3 = db s2" using stream_safe_processor.process_safe [OF w(2) s2(1) work(1) [OF s2(2)]] by simp_all
  have "db s4 = db_ack (co_streamName co) (co_consumerGroup co) i (db s3)"
    using redis_streams.Ack_outcome [OF R s3(1) work(2)] by simp
  moreover have "processMessage R w now' cx (new_job ?p uuid now e) i s2 = (Ok (), s4)"
    using work(1) [OF s2(2)] work(2) w(1) by (simp add: processMessage_def settle_def)
  ultimately show ?thesis using s2 fr ops
    by (auto simp: new_job_def buildJobEnvelope_def pend_db_ack db_deliver_def)
qed

text \<open>The witness: the default configuration on the in-memory server.\<close>

definition demo_log :: LogEvent where
  "demo_log = \<lparr>Timestamp = demo_now, Level = ''INFO'', Service = '''', Message = ''hi'', Metadata = [], TraceID = ''''\<rparr>"

definition demo_partition :: int64 where
  "demo_partition = uint (fnv32a '''') mod 2"

definition demo_wcfg :: Config where
  "demo_wcfg = GetDefaults\<lparr>c_Queue := DefaultQueue\<lparr>q_PartitionID := demo_partition\<rparr>\<rparr>"

definition demo_co :: Consumer where
  "demo_co = NewConsumer (PartitionStreamName ''logs:ingest'' demo_partition) (PartitionGroupName ''log-workers'' demo_partition) ''w1'' None"

definition demo_start :: mem where
  "demo_start = (mem_init 0 [])\<lparr>m_db := db_group (co_streamName demo_co) (co_consumerGroup demo_co) empty_db\<rparr>"

lemma demo_start_inv: "mem_inv demo_start"
  by (simp add: mem_inv_def db_ok_def group_ok_def) (simp add: demo_start_def db_group_def empty_db_def)

lemma demo_log_supplied: "supplied (SetupProducer GetDefaults) demo_now ''3f2a'' 1700000000" "shallow demo_log"
  by (simp_all add: supplied_def SetupProducer_def NewProducer_def GetDefaults_def DefaultQueue_def maxNestingDepth_def in64_def
      wf_time_def demo_now_def daysIn_def demo_log_def shallow_def)

lemma demo_log_producible: "producible (SetupProducer GetDefaults) ''3f2a'' 1700000000 demo_log"
  by (simp add: producible_def SetupProducer_def NewProducer_def GetDefaults_def DefaultQueue_def maxNestingDepth_def in64_def
      wf_event_def wf_time_def demo_now_def daysIn_def demo_log_def)

lemma mem_Enqueue_live:
  assumes "m_faults s = []" "producible p uuid now e" "0 < q_PartitionCount (pr_config p)"
  shows "\<exists>i s1. Enqueue memory p uuid now None (Some e) s = (Ok i, s1) \<and> m_faults s1 = []"
proof -
  obtain v n where k: "streamNameFor (pr_config p) (Service e) = Ok (stream_of p e)"
    and b: "buildXAddArgs (stream_of p e) (q_MaxLen (pr_config p)) (new_job p uuid now e) = Ok ((stream_of p e, q_MaxLen (pr_config p), v), n)"
    using producible_args [OF assms(2,3)] by blast
  with assms(1) show ?thesis
    by (auto simp: Enqueue_def k new_job_def memory_def mem_XAdd_def mem_add_def Let_def)
qed

lemma mem_Consume_live:
  assumes "m_faults s = []" "group_of co (m_db s)" "fresh (m_db s) (co_streamName co) (co_consumerGroup co) = (i, v) # rest"
    and "decodes v env"
  shows "\<exists>s'. Consume memory co None b s = ((Some env, i, None), s') \<and> m_faults s' = []"
  using assms parseMessage_xmsg [OF assms(4)]
  by (auto simp: Consume_def memory_def mem_XReadGroup_def Let_def)

theorem accepted_event_is_processed_witness:
  "\<exists>ops s1 env i s2 s4.
     HandleLogs memory (NewService (SetupProducer GetDefaults) GetDefaults) (\<lambda>_. 0) (ThrottleAllow, 0) demo_now ''3f2a'' 1700000000 None
       demo_body demo_start = (Ok ops, s1) \<and> ops = accepted_ops i \<and>
     Consume memory demo_co None 0 s1 = ((Some env, i, None), s2) \<and> Data env = Some demo_log \<and>
     processMessage memory (NewWorker demo_co (DefaultProcessor_Process None) DefaultWorker DefaultRegistry demo_partition (NewHealthServer GetDefaults (NewAggregator Second) []) ''w1'' (NewRegistry DefaultRegistry))
       1700000001 (\<lambda>_. None) env i s2 = (Ok (), s4) \<and>
     i \<notin> set (pend (m_db s4) (co_streamName demo_co) (co_consumerGroup demo_co))"
proof -
  let ?p = "SetupProducer GetDefaults" and ?sv = "NewService (SetupProducer GetDefaults) GetDefaults"
  let ?w = "NewWorker demo_co (DefaultProcessor_Process None) DefaultWorker DefaultRegistry demo_partition (NewHealthServer GetDefaults (NewAggregator Second) []) ''w1'' (NewRegistry DefaultRegistry) :: mem Worker"
  have pc: "pr_config ?p = DefaultQueue" "c_Queue GetDefaults = DefaultQueue" "sv_producer ?sv = ?p"
    by (simp_all add: SetupProducer_def NewProducer_def GetDefaults_def NewService_def)
  have q: "q_PartitionCount DefaultQueue = 2" "q_BaseStreamName DefaultQueue = ''logs:ingest''"
    "q_BaseConsumerGroup DefaultQueue = ''log-workers''" by (simp_all add: DefaultQueue_def)
  have n: "0 < q_PartitionCount (pr_config ?p)" by (simp add: pc q)
  have start: "m_faults demo_start = []" "group_of demo_co (m_db demo_start)"
    "fresh (m_db demo_start) (co_streamName demo_co) (co_consumerGroup demo_co) = []"
    by (simp_all add: demo_start_def db_group_def empty_db_def)
  have sv: "Service demo_log = ''''" "co_streamName demo_co = stream_of ?p demo_log"
    by (simp_all add: demo_log_def demo_co_def NewConsumer_def stream_of_def pc q demo_partition_def)
  obtain i s1 where enq: "Enqueue memory ?p ''3f2a'' 1700000000 None (Some demo_log) demo_start = (Ok i, s1)" and f1: "m_faults s1 = []"
    using mem_Enqueue_live [OF start(1) demo_log_producible n] by blast
  have req: "HandleLogs memory ?sv (\<lambda>_. 0) (ThrottleAllow, 0) demo_now ''3f2a'' 1700000000 None demo_body demo_start = (Ok (accepted_ops i), s1)"
    using enq by (simp add: HandleLogs_def demo_request IngestLog_def pc flip: demo_log_def) (simp add: demo_log_def)
  have acc: "cn_status (serve_conn (accepted_ops i)) = Some 202" by (simp add: accepted_ops_def http_status)
  from mem_streams.Enqueue_outcome [OF demo_start_inv n demo_log_producible enq] obtain v
    where v: "carries v (new_job ?p ''3f2a'' 1700000000 demo_log)"
      and a: "added (co_streamName demo_co) (q_MaxLen (pr_config ?p)) v i (m_db demo_start) (m_db s1)" by (auto simp: sv)
  have "fresh (m_db s1) (co_streamName demo_co) (co_consumerGroup demo_co) = [(i, v)]" "group_of demo_co (m_db s1)"
    using a start added_grp [OF a] by (auto simp: added_def db_add_def db_trim_def)
  then obtain s2 where con: "Consume memory demo_co None 0 s1 = ((Some (new_job ?p ''3f2a'' 1700000000 demo_log), i, None), s2)"
    and f2: "m_faults s2 = []" using mem_Consume_live [OF f1 _ _ carries_decodes [OF v]] by blast
  obtain s4 where ack: "Ack memory demo_co None i s2 = (None, s4)"
    using f2 by (auto simp: Ack_def memory_def mem_XAck_def)
  have pt: "partitionFor (c_Queue GetDefaults) (Service demo_log) = Ok demo_partition"
    by (simp add: pc q sv partitionFor_Ok demo_partition_def)
  have wc: "c_Queue demo_wcfg = (c_Queue GetDefaults)\<lparr>q_PartitionID := demo_partition\<rparr>" "SetupConsumer None demo_wcfg ''w1'' = Ok demo_co"
    by (simp_all add: demo_wcfg_def pc SetupConsumer_def demo_co_def DefaultQueue_def)
  have pg: "partition_group (c_Queue GetDefaults) (m_db demo_start) demo_partition"
    using start(2) by (simp add: pc q demo_co_def NewConsumer_def)
  have wk: "wk_consumer ?w = demo_co" "stream_safe_processor m_db mem_inv (wk_processor ?w)"
    by (simp_all add: NewWorker_def default_proc.stream_safe_processor_axioms)
  have pr: "wk_processor ?w env s2 = (Ok (), s2)" if "Some (new_job ?p ''3f2a'' 1700000000 demo_log) = Some env" for env
    using that by (auto simp: NewWorker_def DefaultProcessor_Process_def new_job_def buildJobEnvelope_def)
  from accepted_event_is_processed [OF mem_streams.redis_streams_axioms demo_start_inv Validate_GetDefaults req acc demo_request [folded demo_log_def]
      demo_log_supplied pt wc pg start(3) con wk pr, of "\<lambda>_. None" s4 1700000001] ack req con
  show ?thesis by (auto 0 3)
qed

end
